(* ===== verification/Prelude.thy ===== *)
theory Prelude
  imports Main "HOL-Library.Word" "HOL-Library.Monad_Syntax"
begin

section \<open>Shared vocabulary of the development\<close>

text \<open>
  The types every component uses (byte strings, machine integers, metadata entries), the
  model of a monitor (a mutex with a condition variable) that the blocking operations of the
  C++ layer wait on, and the generic list lemmas of the component proofs.

  A byte string (\<^verbatim>\<open>std::string\<close>, \<^verbatim>\<open>std::string_view\<close>, a Zig slice of bytes) is a
  \<^typ>\<open>string\<close>: a \<^typ>\<open>char\<close> is one byte. Unsigned machine integers keep their width.
\<close>

type_synonym u8 = "8 word"
type_synonym u32 = "32 word"
type_synonym u64 = "64 word"
type_synonym entry = "string \<times> string"

text \<open>The largest \<^verbatim>\<open>int\<close>: the limit on the size a message parser is handed.\<close>

definition INT_MAX :: int where
  "INT_MAX = 2147483647"

text \<open>Lemmas on what a state-changing operation keeps of a call object.\<close>

named_theorems frame_simps "what an operation leaves unchanged"

subsection \<open>Monitors\<close>

text \<open>
  A thread that blocks in \<^verbatim>\<open>condition_variable::wait(lock, pred)\<close> runs again only after
  another thread called \<^verbatim>\<open>notify_all\<close>. What the other threads do is a schedule: a list of
  batches, each the list of events (complete critical sections of other threads) that happen
  before the thread under consideration next gets the mutex. A handler \<open>h e s\<close> returns the
  new state and whether it called \<^verbatim>\<open>notify_all\<close>.
\<close>

type_synonym ('e, 's) handler = "'e \<Rightarrow> 's \<Rightarrow> 's \<times> bool"

fun deliver :: "('e, 's) handler \<Rightarrow> 'e list \<Rightarrow> 's \<Rightarrow> 's \<times> bool" where
  "deliver h [] s = (s, False)"
| "deliver h (e # es) s =
     (let (s1, n1) = h e s; (s2, n2) = deliver h es s1 in (s2, n1 \<or> n2))"

text \<open>The thread reaches a lock: the events of the next batch happen first.\<close>

fun preempt :: "('e, 's) handler \<Rightarrow> 's \<Rightarrow> 'e list list \<Rightarrow> 's \<times> 'e list list" where
  "preempt h s [] = (s, [])"
| "preempt h s (b # bs) = (fst (deliver h b s), bs)"

text \<open>
  The thread sleeps: after each batch it looks at the predicate only if some event of the
  batch notified. \<^const>\<open>None\<close> is a thread that sleeps for the whole schedule.
\<close>

fun cv_sleep :: "('e, 's) handler \<Rightarrow> ('s \<Rightarrow> bool) \<Rightarrow> 's \<Rightarrow> 'e list list \<Rightarrow> ('s \<times> 'e list list) option" where
  "cv_sleep h p s [] = None"
| "cv_sleep h p s (b # bs) =
     (let (s', n) = deliver h b s in if n \<and> p s' then Some (s', bs) else cv_sleep h p s' bs)"

definition cv_wait :: "('e, 's) handler \<Rightarrow> ('s \<Rightarrow> bool) \<Rightarrow> 's \<Rightarrow> 'e list list \<Rightarrow> ('s \<times> 'e list list) option" where
  "cv_wait h p s bs = (if p s then Some (s, bs) else cv_sleep h p s bs)"

text \<open>The wait a caller would like to have: it looks at the predicate after every batch.\<close>

fun ideal_wait :: "('e, 's) handler \<Rightarrow> ('s \<Rightarrow> bool) \<Rightarrow> 's \<Rightarrow> 'e list list \<Rightarrow> ('s \<times> 'e list list) option" where
  "ideal_wait h p s bs =
     (if p s then Some (s, bs)
      else case bs of [] \<Rightarrow> None | b # bs' \<Rightarrow> ideal_wait h p (fst (deliver h b s)) bs')"

declare ideal_wait.simps [simp del]

lemma ideal_wait_now: "p s \<Longrightarrow> ideal_wait h p s bs = Some (s, bs)"
  by (subst ideal_wait.simps) simp

lemma ideal_wait_Nil: "ideal_wait h p s [] = (if p s then Some (s, []) else None)"
  by (subst ideal_wait.simps) simp

lemma ideal_wait_Cons:
  "\<not> p s \<Longrightarrow> ideal_wait h p s (b # bs) = ideal_wait h p (fst (deliver h b s)) bs"
  by (subst ideal_wait.simps) simp

lemma cv_sleep_holds: "cv_sleep h p s bs = Some (s', bs') \<Longrightarrow> p s'"
  by (induction h p s bs rule: cv_sleep.induct) (auto simp: Let_def split: prod.splits if_splits)

lemma cv_wait_holds: "cv_wait h p s bs = Some (s', bs') \<Longrightarrow> p s'"
  by (auto simp: cv_wait_def dest: cv_sleep_holds split: if_splits)

lemma cv_sleep_length: "cv_sleep h p s bs = Some (s', bs') \<Longrightarrow> length bs' < length bs"
  by (induction h p s bs rule: cv_sleep.induct)
    (auto simp: Let_def less_Suc_eq split: prod.splits if_splits)

lemma cv_wait_length: "cv_wait h p s bs = Some (s', bs') \<Longrightarrow> length bs' \<le> length bs"
  by (auto simp: cv_wait_def dest: cv_sleep_length split: if_splits)

lemma cv_wait_now [simp]: "p s \<Longrightarrow> cv_wait h p s bs = Some (s, bs)"
  by (simp add: cv_wait_def)

text \<open>What every handler keeps, every batch, preemption and wait keeps.\<close>

lemma deliver_inv:
  assumes "\<And>e s. I s \<Longrightarrow> I (fst (h e s))" and "I s"
  shows "I (fst (deliver h b s))"
  using assms(2)
  by (induction b arbitrary: s) (auto simp: Let_def split_beta dest: assms(1))

lemma preempt_inv:
  assumes "\<And>e s. I s \<Longrightarrow> I (fst (h e s))" and "I s"
  shows "I (fst (preempt h s bs))"
  using assms by (cases bs) (auto intro: deliver_inv)

lemma cv_sleep_inv:
  assumes h: "\<And>e s. I s \<Longrightarrow> I (fst (h e s))"
  shows "I s \<Longrightarrow> cv_sleep h p s bs = Some (s', bs') \<Longrightarrow> I s'"
proof (induction bs arbitrary: s)
  case Nil
  then show ?case by simp
next
  case (Cons b bs)
  have "I (fst (deliver h b s))" by (rule deliver_inv) (use h Cons.prems in auto)
  with Cons.IH [of "fst (deliver h b s)"] Cons.prems(2) show ?case
    by (auto simp: Let_def split: prod.splits if_splits)
qed

lemma cv_wait_inv:
  assumes "\<And>e s. I s \<Longrightarrow> I (fst (h e s))" and "I s" and "cv_wait h p s bs = Some (s', bs')"
  shows "I s'"
proof (cases "p s")
  case True
  with assms(2,3) show ?thesis by simp
next
  case False
  with assms(3) have "cv_sleep h p s bs = Some (s', bs')" by (simp add: cv_wait_def)
  with assms(1,2) show ?thesis by (rule cv_sleep_inv)
qed

text \<open>
  The contract of a monitor: no handler makes the predicate true without notifying. A client
  of the contract may then read a \<^const>\<open>cv_wait\<close> as an \<^const>\<open>ideal_wait\<close>: no wake-up
  is lost.
\<close>

lemma deliver_append: "fst (deliver h (es @ es') s) = fst (deliver h es' (fst (deliver h es s)))"
  by (induction es arbitrary: s) (simp_all add: Let_def split_beta)

locale monitor =
  fixes h :: "('e, 's) handler" and p :: "'s \<Rightarrow> bool"
  assumes wakes: "\<not> p s \<Longrightarrow> p (fst (h e s)) \<Longrightarrow> snd (h e s)"
begin

lemma deliver_wakes: "\<not> p s \<Longrightarrow> p (fst (deliver h b s)) \<Longrightarrow> snd (deliver h b s)"
proof (induction b arbitrary: s)
  case Nil
  then show ?case by simp
next
  case (Cons e b)
  then show ?case
    by (cases "p (fst (h e s))") (auto simp: Let_def split_beta dest: wakes)
qed

lemma no_lost_wakeup: "cv_wait h p s bs = ideal_wait h p s bs"
proof (induction bs arbitrary: s)
  case Nil
  then show ?case by (simp add: cv_wait_def ideal_wait_Nil)
next
  case (Cons b bs)
  obtain s' n where d: "deliver h b s = (s', n)" by fastforce
  show ?case
  proof (cases "p s")
    case True
    then show ?thesis by (simp add: ideal_wait_now)
  next
    case False
    then have n: "p s' \<Longrightarrow> n" using deliver_wakes [of s b] d by simp
    have IH: "cv_wait h p s' bs = ideal_wait h p s' bs" by (rule Cons.IH)
    show ?thesis
    proof (cases "p s'")
      case True
      with n False d show ?thesis by (simp add: cv_wait_def ideal_wait_Cons ideal_wait_now)
    next
      case np: False
      with False d have "cv_wait h p s (b # bs) = cv_wait h p s' bs" by (simp add: cv_wait_def)
      with False d IH show ?thesis by (simp add: ideal_wait_Cons)
    qed
  qed
qed

end

lemma ideal_wait_mono:
  assumes "\<And>s. p s \<Longrightarrow> q s" "ideal_wait h p s bs \<noteq> None"
  shows "ideal_wait h q s bs \<noteq> None"
  using assms(2)
proof (induction bs arbitrary: s)
  case Nil
  then show ?case by (auto simp: ideal_wait_Nil assms(1) split: if_splits)
next
  case (Cons b bs)
  then show ?case
    by (cases "q s"; cases "p s") (auto simp: ideal_wait_now ideal_wait_Cons assms(1))
qed

text \<open>The schedule promises that a predicate will hold: it holds now, or the event is to come.\<close>

definition promised :: "('s \<Rightarrow> bool) \<Rightarrow> 'e \<Rightarrow> 's \<Rightarrow> 'e list list \<Rightarrow> bool" where
  "promised p e s bs \<longleftrightarrow> p s \<or> (\<exists>b \<in> set bs. e \<in> set b)"

text \<open>
  Where the other threads never make a true predicate false again, a wait returns as soon as
  the schedule holds an event that establishes it.
\<close>

locale stable_monitor = monitor +
  assumes stable: "p s \<Longrightarrow> p (fst (h e s))"
begin

lemma deliver_stable: "p s \<Longrightarrow> p (fst (deliver h b s))"
  by (rule deliver_inv) (auto intro: stable)

lemma deliver_establishes:
  assumes J: "\<And>x s. J s \<Longrightarrow> J (fst (h x s))" and e: "\<And>s. J s \<Longrightarrow> p (fst (h e s))"
  shows "J s \<Longrightarrow> e \<in> set b \<Longrightarrow> p (fst (deliver h b s))"
proof (induction b arbitrary: s)
  case (Cons x b)
  then show ?case
    by (cases "x = e") (auto simp: Let_def split_beta e J intro: deliver_stable)
qed simp

lemma wait_returns_at:
  assumes "p (fst (deliver h es s))" and "concat bs = es @ es'"
  shows "cv_wait h p s bs \<noteq> None"
proof -
  have "p (fst (deliver h (concat bs) s))"
    using deliver_stable [OF assms(1), of es'] assms(2) by (simp add: deliver_append)
  then have "ideal_wait h p s bs \<noteq> None"
  proof (induction bs arbitrary: s)
    case (Cons b bs)
    then show ?case by (cases "p s") (simp_all add: ideal_wait_now ideal_wait_Cons deliver_append)
  qed (simp add: ideal_wait_Nil)
  then show ?thesis by (simp add: no_lost_wakeup)
qed

lemma preempt_promised:
  assumes J: "\<And>x s. J s \<Longrightarrow> J (fst (h x s))" and e: "\<And>s. J s \<Longrightarrow> p (fst (h e s))"
    and s: "J s" "promised p e s bs"
  shows "promised p e (fst (preempt h s bs)) (snd (preempt h s bs))"
  using s deliver_establishes [where J = J and e = e and s = s, OF J e] deliver_stable
  by (cases bs) (auto simp: promised_def)

lemma sleep_promised:
  assumes J: "\<And>x s. J s \<Longrightarrow> J (fst (h x s))" and e: "\<And>s. J s \<Longrightarrow> p (fst (h e s))"
  shows "cv_sleep h q s bs = Some (s', bs') \<Longrightarrow> J s \<Longrightarrow> promised p e s bs \<Longrightarrow> promised p e s' bs'"
proof (induction bs arbitrary: s)
  case (Cons b bs)
  have "J (fst (deliver h b s))" by (rule deliver_inv) (use J Cons.prems in auto)
  moreover have "promised p e (fst (deliver h b s)) bs"
    using preempt_promised [where J = J and e = e and s = s and bs = "b # bs", OF J e] Cons.prems by simp
  ultimately show ?case using Cons.prems(1) Cons.IH [of "fst (deliver h b s)"]
    by (auto simp: Let_def split: prod.splits if_splits)
qed simp

lemma wait_promised:
  assumes J: "\<And>x s. J s \<Longrightarrow> J (fst (h x s))" and e: "\<And>s. J s \<Longrightarrow> p (fst (h e s))"
    and "cv_wait h q s bs = Some (s', bs')" "J s" "promised p e s bs"
  shows "promised p e s' bs'"
  using assms(3-5) sleep_promised [where J = J and e = e and s = s, OF J e]
  by (auto simp: cv_wait_def split: if_splits)

lemma wait_returns:
  assumes J: "\<And>x s. J s \<Longrightarrow> J (fst (h x s))" and e: "\<And>s. J s \<Longrightarrow> p (fst (h e s))"
    and s: "J s" and p: "promised p e s bs"
  shows "cv_wait h p s bs \<noteq> None"
  unfolding no_lost_wakeup using s p
proof (induction bs arbitrary: s)
  case Nil
  then show ?case by (simp add: ideal_wait_Nil promised_def)
next
  case (Cons c bs)
  have "J (fst (deliver h c s))" by (rule deliver_inv) (use J Cons.prems in auto)
  moreover have "promised p e (fst (deliver h c s)) bs"
    using preempt_promised [where J = J and e = e and s = s and bs = "c # bs", OF J e] Cons.prems by simp
  ultimately show ?case using Cons.IH by (cases "p s") (auto simp: ideal_wait_now ideal_wait_Cons)
qed

text \<open>A wait for something weaker returns as well.\<close>

lemma weaker_wait_returns:
  assumes "monitor h q" "\<And>s. p s \<Longrightarrow> q s" "cv_wait h p s bs \<noteq> None"
  shows "cv_wait h q s bs \<noteq> None"
  using assms ideal_wait_mono [of p q h s bs]
  by (simp add: monitor.no_lost_wakeup [OF assms(1)] no_lost_wakeup)

end

end
