(* ===== verification/Status_Codes.thy ===== *)
theory Status_Codes
  imports Prelude
begin

section \<open>Error codes, statuses and byte views\<close>

text \<open>
  The value types of \<^verbatim>\<open>grpc_lite/cpp/status.hpp\<close> and \<^verbatim>\<open>grpcpp/support/status.h\<close>, the
  conversions between the native and the grpcpp-shaped statuses, and the byte views that cross
  the C boundary.

  A C++ scoped enumeration with a fixed underlying type holds every value of that type, not
  only its enumerators: \<^verbatim>\<open>static_cast<ErrorCode>(code)\<close> is defined for every 32-bit
  \<^verbatim>\<open>code\<close>. Each enumeration is therefore a datatype with one constructor for every
  enumerator and one for the remaining values, and a cast is a pair of functions.
\<close>

subsection \<open>Definitions\<close>

datatype ErrorCode =
    EC_Ok | EC_InvalidArgument | EC_InvalidState | EC_OutOfMemory | EC_Unsupported
  | EC_Unavailable | EC_OutOfRange | EC_Closed | EC_WouldBlock | EC_Internal
  | EC_Unlisted int

text \<open>\<^verbatim>\<open>Error(grpc_lite_error code) : code_(static_cast<ErrorCode>(code))\<close>\<close>

definition ErrorCode_cast :: "int \<Rightarrow> ErrorCode" where
  "ErrorCode_cast n =
     (if n = 0 then EC_Ok else if n = 1 then EC_InvalidArgument
      else if n = 2 then EC_InvalidState else if n = 3 then EC_OutOfMemory
      else if n = 4 then EC_Unsupported else if n = 5 then EC_Unavailable
      else if n = 6 then EC_OutOfRange else if n = 7 then EC_Closed
      else if n = 8 then EC_WouldBlock else if n = 255 then EC_Internal
      else EC_Unlisted n)"

fun ErrorCode_value :: "ErrorCode \<Rightarrow> int" where
  "ErrorCode_value EC_Ok = 0"
| "ErrorCode_value EC_InvalidArgument = 1"
| "ErrorCode_value EC_InvalidState = 2"
| "ErrorCode_value EC_OutOfMemory = 3"
| "ErrorCode_value EC_Unsupported = 4"
| "ErrorCode_value EC_Unavailable = 5"
| "ErrorCode_value EC_OutOfRange = 6"
| "ErrorCode_value EC_Closed = 7"
| "ErrorCode_value EC_WouldBlock = 8"
| "ErrorCode_value EC_Internal = 255"
| "ErrorCode_value (EC_Unlisted n) = n"

definition Error_ok :: "ErrorCode \<Rightarrow> bool" where
  "Error_ok e \<longleftrightarrow> e = EC_Ok"

text \<open>\<^verbatim>\<open>grpc_lite_error_string\<close> of the C library, which \<^verbatim>\<open>Error::message\<close> returns.\<close>

definition grpc_lite_error_string :: "int \<Rightarrow> string" where
  "grpc_lite_error_string n =
     (case ErrorCode_cast n of
        EC_Ok \<Rightarrow> ''ok''
      | EC_InvalidArgument \<Rightarrow> ''invalid argument''
      | EC_InvalidState \<Rightarrow> ''invalid state''
      | EC_OutOfMemory \<Rightarrow> ''out of memory''
      | EC_Unsupported \<Rightarrow> ''unsupported''
      | EC_Unavailable \<Rightarrow> ''unavailable''
      | EC_OutOfRange \<Rightarrow> ''out of range''
      | EC_Closed \<Rightarrow> ''closed''
      | EC_WouldBlock \<Rightarrow> ''would block''
      | EC_Internal \<Rightarrow> ''internal error''
      | EC_Unlisted _ \<Rightarrow> ''unknown error'')"

definition Error_message :: "ErrorCode \<Rightarrow> string" where
  "Error_message e = grpc_lite_error_string (ErrorCode_value e)"

text \<open>The native status codes (\<^verbatim>\<open>grpc_lite::StatusCode\<close>) and status.\<close>

datatype StatusCode =
    SC_Ok | SC_Cancelled | SC_Unknown | SC_InvalidArgument | SC_DeadlineExceeded
  | SC_NotFound | SC_AlreadyExists | SC_PermissionDenied | SC_ResourceExhausted
  | SC_FailedPrecondition | SC_Aborted | SC_OutOfRange | SC_Unimplemented | SC_Internal
  | SC_Unavailable | SC_DataLoss | SC_Unauthenticated
  | SC_Unlisted int

fun StatusCode_value :: "StatusCode \<Rightarrow> int" where
  "StatusCode_value SC_Ok = 0"
| "StatusCode_value SC_Cancelled = 1"
| "StatusCode_value SC_Unknown = 2"
| "StatusCode_value SC_InvalidArgument = 3"
| "StatusCode_value SC_DeadlineExceeded = 4"
| "StatusCode_value SC_NotFound = 5"
| "StatusCode_value SC_AlreadyExists = 6"
| "StatusCode_value SC_PermissionDenied = 7"
| "StatusCode_value SC_ResourceExhausted = 8"
| "StatusCode_value SC_FailedPrecondition = 9"
| "StatusCode_value SC_Aborted = 10"
| "StatusCode_value SC_OutOfRange = 11"
| "StatusCode_value SC_Unimplemented = 12"
| "StatusCode_value SC_Internal = 13"
| "StatusCode_value SC_Unavailable = 14"
| "StatusCode_value SC_DataLoss = 15"
| "StatusCode_value SC_Unauthenticated = 16"
| "StatusCode_value (SC_Unlisted n) = n"

definition StatusCode_list :: "StatusCode list" where
  "StatusCode_list =
     [SC_Ok, SC_Cancelled, SC_Unknown, SC_InvalidArgument, SC_DeadlineExceeded,
      SC_NotFound, SC_AlreadyExists, SC_PermissionDenied, SC_ResourceExhausted,
      SC_FailedPrecondition, SC_Aborted, SC_OutOfRange, SC_Unimplemented, SC_Internal,
      SC_Unavailable, SC_DataLoss, SC_Unauthenticated]"

definition StatusCode_cast :: "int \<Rightarrow> StatusCode" where
  "StatusCode_cast n = (if 0 \<le> n \<and> n \<le> 16 then StatusCode_list ! nat n else SC_Unlisted n)"

record Status =
  s_code :: StatusCode
  s_message :: string

definition Status_ok :: "Status \<Rightarrow> bool" where
  "Status_ok s \<longleftrightarrow> s_code s = SC_Ok"

text \<open>\<^verbatim>\<open>Status() = default\<close>\<close>

definition Status_default :: Status where
  "Status_default = \<lparr>s_code = SC_Ok, s_message = []\<rparr>"

text \<open>The grpcpp-shaped status codes (\<^verbatim>\<open>grpc::StatusCode\<close>) and status.\<close>

datatype GrpcCode =
    OK | CANCELLED | UNKNOWN | INVALID_ARGUMENT | DEADLINE_EXCEEDED | NOT_FOUND
  | ALREADY_EXISTS | PERMISSION_DENIED | RESOURCE_EXHAUSTED | FAILED_PRECONDITION | ABORTED
  | OUT_OF_RANGE | UNIMPLEMENTED | INTERNAL | UNAVAILABLE | DATA_LOSS | UNAUTHENTICATED

definition GrpcCode_list :: "GrpcCode list" where
  "GrpcCode_list =
     [OK, CANCELLED, UNKNOWN, INVALID_ARGUMENT, DEADLINE_EXCEEDED, NOT_FOUND, ALREADY_EXISTS,
      PERMISSION_DENIED, RESOURCE_EXHAUSTED, FAILED_PRECONDITION, ABORTED, OUT_OF_RANGE,
      UNIMPLEMENTED, INTERNAL, UNAVAILABLE, DATA_LOSS, UNAUTHENTICATED]"

fun GrpcCode_value :: "GrpcCode \<Rightarrow> int" where
  "GrpcCode_value OK = 0"
| "GrpcCode_value CANCELLED = 1"
| "GrpcCode_value UNKNOWN = 2"
| "GrpcCode_value INVALID_ARGUMENT = 3"
| "GrpcCode_value DEADLINE_EXCEEDED = 4"
| "GrpcCode_value NOT_FOUND = 5"
| "GrpcCode_value ALREADY_EXISTS = 6"
| "GrpcCode_value PERMISSION_DENIED = 7"
| "GrpcCode_value RESOURCE_EXHAUSTED = 8"
| "GrpcCode_value FAILED_PRECONDITION = 9"
| "GrpcCode_value ABORTED = 10"
| "GrpcCode_value OUT_OF_RANGE = 11"
| "GrpcCode_value UNIMPLEMENTED = 12"
| "GrpcCode_value INTERNAL = 13"
| "GrpcCode_value UNAVAILABLE = 14"
| "GrpcCode_value DATA_LOSS = 15"
| "GrpcCode_value UNAUTHENTICATED = 16"

record GrpcStatus =
  g_code :: GrpcCode
  g_message :: string
  g_details :: string

text \<open>\<^verbatim>\<open>Status(code, message)\<close>, \<^verbatim>\<open>Status()\<close> and \<^verbatim>\<open>ok()\<close> of \<^verbatim>\<open>grpc::Status\<close>.\<close>

definition grpc_status :: "GrpcCode \<Rightarrow> string \<Rightarrow> GrpcStatus" where
  "grpc_status c m = \<lparr>g_code = c, g_message = m, g_details = []\<rparr>"

definition grpc_ok :: GrpcStatus where
  "grpc_ok = grpc_status OK []"

definition g_is_ok :: "GrpcStatus \<Rightarrow> bool" where
  "g_is_ok s \<longleftrightarrow> g_code s = OK"

text \<open>\<^verbatim>\<open>grpc::internal::ErrorStatus\<close> and \<^verbatim>\<open>grpc::internal::NativeStatus\<close>.\<close>

definition ErrorStatus :: "ErrorCode \<Rightarrow> GrpcStatus" where
  "ErrorStatus e =
     (case e of
        EC_Ok \<Rightarrow> grpc_ok
      | EC_InvalidArgument \<Rightarrow> grpc_status INVALID_ARGUMENT (Error_message e)
      | EC_InvalidState \<Rightarrow> grpc_status FAILED_PRECONDITION (Error_message e)
      | EC_OutOfMemory \<Rightarrow> grpc_status RESOURCE_EXHAUSTED (Error_message e)
      | EC_Unsupported \<Rightarrow> grpc_status UNIMPLEMENTED (Error_message e)
      | EC_Unavailable \<Rightarrow> grpc_status UNAVAILABLE (Error_message e)
      | EC_Closed \<Rightarrow> grpc_status UNAVAILABLE (Error_message e)
      | EC_OutOfRange \<Rightarrow> grpc_status OUT_OF_RANGE (Error_message e)
      | EC_WouldBlock \<Rightarrow> grpc_status RESOURCE_EXHAUSTED (Error_message e)
      | EC_Internal \<Rightarrow> grpc_status INTERNAL (Error_message e)
      | EC_Unlisted _ \<Rightarrow> grpc_status UNKNOWN (Error_message e))"

definition NativeStatus :: "Status \<Rightarrow> GrpcStatus" where
  "NativeStatus s =
     (let value = StatusCode_value (s_code s) in
      if value < GrpcCode_value OK \<or> GrpcCode_value UNAUTHENTICATED < value
      then grpc_status UNKNOWN (s_message s)
      else grpc_status (GrpcCode_list ! nat value) (s_message s))"

text \<open>
  \<^verbatim>\<open>grpc_lite::internal::NativeStatus\<close> (the other direction, used by the synchronous
  service) and \<^verbatim>\<open>grpc_lite::internal::SendErrorStatus\<close>.
\<close>

definition ToNativeStatus :: "GrpcStatus \<Rightarrow> Status" where
  "ToNativeStatus s =
     \<lparr>s_code = StatusCode_cast (GrpcCode_value (g_code s)), s_message = g_message s\<rparr>"

definition SendErrorStatus :: "ErrorCode \<Rightarrow> Status" where
  "SendErrorStatus e =
     (if e = EC_WouldBlock \<or> e = EC_OutOfMemory \<or> e = EC_OutOfRange
      then \<lparr>s_code = SC_ResourceExhausted, s_message = Error_message e\<rparr>
      else \<lparr>s_code = SC_Internal, s_message = Error_message e\<rparr>)"

text \<open>Compression algorithms of the native and of the grpcpp layer, and the receive action.\<close>

datatype Compression = Identity | Gzip

datatype grpc_compression_algorithm =
  GRPC_COMPRESS_NONE | GRPC_COMPRESS_DEFLATE | GRPC_COMPRESS_GZIP

definition GrpcCompression :: "Compression \<Rightarrow> grpc_compression_algorithm" where
  "GrpcCompression c = (if c = Gzip then GRPC_COMPRESS_GZIP else GRPC_COMPRESS_NONE)"

definition NativeCompression :: "grpc_compression_algorithm \<Rightarrow> Compression" where
  "NativeCompression c = (if c = GRPC_COMPRESS_GZIP then Gzip else Identity)"

datatype ReceiveAction = Continue | Pause

text \<open>
  Byte views: a pointer, null or to bytes, and a size. \<^verbatim>\<open>Bytes\<close> and \<^verbatim>\<open>CopyBytes\<close> are the
  C++ side of the boundary, \<^verbatim>\<open>bytes\<close> and \<^verbatim>\<open>view\<close> the Zig side. Reading through a null
  pointer is undefined in C++ (\<^const>\<open>None\<close> of \<open>CopyBytes\<close>) and checked in Zig
  (\<^const>\<open>None\<close> of \<open>zig_bytes\<close>).
\<close>

record bytes_view =
  bv_data :: "string option"
  bv_size :: nat

definition Bytes :: "string \<Rightarrow> bytes_view" where
  "Bytes v = \<lparr>bv_data = Some v, bv_size = length v\<rparr>"

definition CopyBytes :: "bytes_view \<Rightarrow> string option" where
  "CopyBytes v =
     (if bv_size v = 0 then Some [] else map_option (take (bv_size v)) (bv_data v))"

definition zig_bytes :: "bytes_view \<Rightarrow> string option" where
  "zig_bytes v =
     (if bv_size v = 0 then Some []
      else case bv_data v of None \<Rightarrow> None | Some p \<Rightarrow> Some (take (bv_size v) p))"

definition zig_view :: "string \<Rightarrow> bytes_view" where
  "zig_view s = \<lparr>bv_data = (if length s = 0 then None else Some s), bv_size = length s\<rparr>"

subsection \<open>Lemmas\<close>

lemma ErrorCode_cast_value [simp]: "ErrorCode_value (ErrorCode_cast n) = n"
  by (simp add: ErrorCode_cast_def)

lemma GrpcCode_value_range: "0 \<le> GrpcCode_value c \<and> GrpcCode_value c \<le> 16"
  by (cases c) auto

lemma GrpcCode_list_value [simp]: "GrpcCode_list ! nat (GrpcCode_value c) = c"
  by (cases c) (simp_all add: GrpcCode_list_def)

lemma StatusCode_cast_GrpcCode [simp]:
  "StatusCode_value (StatusCode_cast (GrpcCode_value c)) = GrpcCode_value c"
  by (cases c) (simp_all add: StatusCode_cast_def StatusCode_list_def)

lemma g_is_ok_grpc_ok [simp]: "g_is_ok grpc_ok"
  by (simp add: g_is_ok_def grpc_ok_def grpc_status_def)

lemma g_is_ok_grpc_status [simp]: "g_is_ok (grpc_status c m) \<longleftrightarrow> c = OK"
  by (simp add: g_is_ok_def grpc_status_def)

lemma g_is_ok_ErrorStatus [simp]: "g_is_ok (ErrorStatus e) \<longleftrightarrow> Error_ok e"
  by (cases e) (simp_all add: ErrorStatus_def Error_ok_def)

lemma GrpcCode_value_list [simp]:
  assumes "0 \<le> v" and "v \<le> 16"
  shows "GrpcCode_value (GrpcCode_list ! nat v) = v"
proof -
  have "v = 0 \<or> v = 1 \<or> v = 2 \<or> v = 3 \<or> v = 4 \<or> v = 5 \<or> v = 6 \<or> v = 7 \<or> v = 8 \<or>
    v = 9 \<or> v = 10 \<or> v = 11 \<or> v = 12 \<or> v = 13 \<or> v = 14 \<or> v = 15 \<or> v = 16"
    using assms by presburger
  then show ?thesis by (auto simp: GrpcCode_list_def)
qed

lemma Status_not_ok_SendErrorStatus: "\<not> Status_ok (SendErrorStatus e)"
  by (simp add: SendErrorStatus_def Status_ok_def)

lemma CopyBytes_zig_view [simp]: "CopyBytes (zig_view s) = Some s"
  by (simp add: CopyBytes_def zig_view_def)

lemma zig_bytes_Bytes [simp]: "zig_bytes (Bytes s) = Some s"
  by (simp add: zig_bytes_def Bytes_def)

text \<open>
  C39. Status conversion between the two layers loses nothing and never invents a code. A
  grpcpp status sent by a synchronous handler (\<^verbatim>\<open>grpc_lite::internal::NativeStatus\<close>) and
  read back by the blocking client (\<^verbatim>\<open>grpc::internal::NativeStatus\<close>) keeps its code and its
  message (the details are not transported). For every native status, also one whose code is
  outside the enumeration, the client's code is the numerically equal one when the value is
  between 0 and 16, and UNKNOWN otherwise, with the message kept.
\<close>

theorem status_conversion:
  "NativeStatus (ToNativeStatus g) = grpc_status (g_code g) (g_message g) \<and>
   g_message (NativeStatus s) = s_message s \<and>
   (let v = StatusCode_value (s_code s) in
    GrpcCode_value (g_code (NativeStatus s)) = (if v \<in> {0..16} then v else 2))"
proof -
  have 1: "NativeStatus (ToNativeStatus g) = grpc_status (g_code g) (g_message g)"
    using GrpcCode_value_range [of "g_code g"]
    by (simp add: NativeStatus_def ToNativeStatus_def Let_def)
  show ?thesis
    using 1 by (auto simp: NativeStatus_def Let_def grpc_status_def)
qed

text \<open>
  An error of the native layer is reported as OK exactly when there was no error, and a
  failed send is never turned into a successful final status: \<^verbatim>\<open>ErrorStatus\<close> is OK only for
  \<^verbatim>\<open>ErrorCode::Ok\<close>, its message is the library's error string, and \<^verbatim>\<open>SendErrorStatus\<close> is
  RESOURCE_EXHAUSTED for the three capacity errors and INTERNAL for everything else. The cast
  from the C error number keeps the number.
\<close>

theorem error_reporting:
  "(g_is_ok (ErrorStatus (ErrorCode_cast n)) \<longleftrightarrow> n = 0) \<and>
   g_message (ErrorStatus (ErrorCode_cast n)) = (if n = 0 then [] else grpc_lite_error_string n) \<and>
   s_code (SendErrorStatus (ErrorCode_cast n)) =
     (if n \<in> {3, 6, 8} then SC_ResourceExhausted else SC_Internal) \<and>
   s_message (SendErrorStatus (ErrorCode_cast n)) = grpc_lite_error_string n"
proof -
  have "g_message (ErrorStatus (ErrorCode_cast n)) = (if n = 0 then [] else grpc_lite_error_string n)"
    by (simp add: ErrorStatus_def ErrorCode_cast_def grpc_ok_def grpc_status_def Error_message_def)
  moreover have "g_is_ok (ErrorStatus (ErrorCode_cast n)) \<longleftrightarrow> n = 0"
    by (simp add: Error_ok_def ErrorCode_cast_def)
  moreover have "s_message (SendErrorStatus (ErrorCode_cast n)) = grpc_lite_error_string n"
    by (simp add: SendErrorStatus_def Error_message_def)
  moreover have "s_code (SendErrorStatus (ErrorCode_cast n)) =
     (if n \<in> {3, 6, 8} then SC_ResourceExhausted else SC_Internal)"
    by (simp add: SendErrorStatus_def ErrorCode_cast_def)
  ultimately show ?thesis by blast
qed

end
