(* ===== verification/Metadata_Store.thy ===== *)
theory Metadata_Store
  imports Status_Codes "HOL-Library.Char_ord" "HOL-Library.List_Lexorder"
begin

section \<open>Metadata\<close>

text \<open>
  Metadata from the storage upwards: the owned entry list of \<^verbatim>\<open>src/metadata.zig\<close> with its key
  and value rules, the C functions \<^verbatim>\<open>grpc_lite_metadata_*\<close> of \<^verbatim>\<open>src/c_api.zig\<close>, the C++
  class \<^verbatim>\<open>grpc_lite::Metadata\<close> with its copy loops, and the \<^verbatim>\<open>std::multimap\<close> the
  grpcpp-shaped contexts keep their metadata in.

  Every allocation may fail. A heap is the list of outcomes of the allocations to come
  (an exhausted list stands for success) and the number of live blocks, so that the cleanup
  of the error paths can be stated.
\<close>

subsection \<open>The heap\<close>

record heap =
  h_outcomes :: "bool list"
  h_live :: nat

definition next_outcome :: "heap \<Rightarrow> bool \<times> heap" where
  "next_outcome h =
     (case h_outcomes h of [] \<Rightarrow> (True, h) | b # bs \<Rightarrow> (b, h\<lparr>h_outcomes := bs\<rparr>))"

definition alloc :: "heap \<Rightarrow> bool \<times> heap" where
  "alloc h =
     (let (ok, h') = next_outcome h in
      if ok then (True, h'\<lparr>h_live := h_live h' + 1\<rparr>) else (False, h'))"

definition free_blocks :: "nat \<Rightarrow> heap \<Rightarrow> heap" where
  "free_blocks n h = h\<lparr>h_live := h_live h - n\<rparr>"

subsection \<open>Keys, values and the owned entry list (metadata.zig)\<close>

definition key_byte :: "char \<Rightarrow> bool" where
  "key_byte c \<longleftrightarrow>
     (CHR ''a'' \<le> c \<and> c \<le> CHR ''z'') \<or> (CHR ''0'' \<le> c \<and> c \<le> CHR ''9'') \<or>
     c = CHR ''-'' \<or> c = CHR ''_'' \<or> c = CHR ''.''"

definition isValidKey :: "string \<Rightarrow> bool" where
  "isValidKey key \<longleftrightarrow>
     (case key of [] \<Rightarrow> False | c # _ \<Rightarrow> c \<noteq> CHR '':'' \<and> list_all key_byte key)"

definition startsWith :: "string \<Rightarrow> string \<Rightarrow> bool" where
  "startsWith s p \<longleftrightarrow> take (length p) s = p"

definition endsWith :: "string \<Rightarrow> string \<Rightarrow> bool" where
  "endsWith s p \<longleftrightarrow> length p \<le> length s \<and> drop (length s - length p) s = p"

definition isApplicationKey :: "string \<Rightarrow> bool" where
  "isApplicationKey key \<longleftrightarrow> isValidKey key \<and> \<not> startsWith key ''grpc-''"

definition isValidAsciiValue :: "string \<Rightarrow> bool" where
  "isValidAsciiValue v \<longleftrightarrow>
     v \<noteq> [] \<and> list_all (\<lambda>c. 0x20 \<le> (of_char c :: nat) \<and> (of_char c :: nat) \<le> 0x7e) v"

definition isBinaryKey :: "string \<Rightarrow> bool" where
  "isBinaryKey key \<longleftrightarrow> endsWith key ''-bin''"

datatype md_error = OutOfMemory | InvalidMetadataKey | InvalidMetadataValue

text \<open>
  \<^verbatim>\<open>appendOwned\<close>: duplicate the key, duplicate the value, append to the array list (whose
  growth may fail). The \<^verbatim>\<open>errdefer\<close>s free what was allocated before the failure.
\<close>

definition appendOwned :: "heap \<Rightarrow> entry list \<Rightarrow> string \<Rightarrow> string \<Rightarrow> (md_error + entry list) \<times> heap" where
  "appendOwned h es key value =
     (let (k_ok, h1) = alloc h in
      if \<not> k_ok then (Inl OutOfMemory, h1)
      else let (v_ok, h2) = alloc h1 in
      if \<not> v_ok then (Inl OutOfMemory, free_blocks 1 h2)
      else let (g_ok, h3) = next_outcome h2 in
      if \<not> g_ok then (Inl OutOfMemory, free_blocks 1 (free_blocks 1 h3))
      else (Inr (es @ [(key, value)]), h3))"

definition Metadata_append :: "heap \<Rightarrow> entry list \<Rightarrow> string \<Rightarrow> string \<Rightarrow> (md_error + entry list) \<times> heap" where
  "Metadata_append h es key value =
     (if \<not> isApplicationKey key then (Inl InvalidMetadataKey, h)
      else if \<not> isBinaryKey key \<and> \<not> isValidAsciiValue value then (Inl InvalidMetadataValue, h)
      else appendOwned h es key value)"

fun getFirst :: "entry list \<Rightarrow> string \<Rightarrow> string option" where
  "getFirst [] key = None"
| "getFirst ((k, v) # es) key = (if k = key then Some v else getFirst es key)"

subsection \<open>The C functions (c\_api.zig)\<close>

text \<open>A handle is null (\<^const>\<open>None\<close>) or the storage it points to.\<close>

type_synonym md_handle = "entry list option"

definition grpc_lite_metadata_create :: "heap \<Rightarrow> ErrorCode \<times> md_handle \<times> heap" where
  "grpc_lite_metadata_create h =
     (let (ok, h') = alloc h in
      if ok then (EC_Ok, Some [], h') else (EC_OutOfMemory, None, h'))"

definition grpc_lite_metadata_destroy :: "md_handle \<Rightarrow> heap \<Rightarrow> heap" where
  "grpc_lite_metadata_destroy m h =
     (case m of None \<Rightarrow> h | Some es \<Rightarrow> free_blocks (1 + 2 * length es) h)"

definition grpc_lite_metadata_add ::
  "md_handle \<Rightarrow> bytes_view \<Rightarrow> bytes_view \<Rightarrow> heap \<Rightarrow> ErrorCode \<times> md_handle \<times> heap" where
  "grpc_lite_metadata_add m key value h =
     (case m of None \<Rightarrow> (EC_InvalidArgument, m, h) | Some es \<Rightarrow>
      case zig_bytes key of None \<Rightarrow> (EC_InvalidArgument, m, h) | Some kb \<Rightarrow>
      case zig_bytes value of None \<Rightarrow> (EC_InvalidArgument, m, h) | Some vb \<Rightarrow>
      case Metadata_append h es kb vb of
        (Inl OutOfMemory, h') \<Rightarrow> (EC_OutOfMemory, m, h')
      | (Inl InvalidMetadataKey, h') \<Rightarrow> (EC_InvalidArgument, m, h')
      | (Inl InvalidMetadataValue, h') \<Rightarrow> (EC_InvalidArgument, m, h')
      | (Inr es', h') \<Rightarrow> (EC_Ok, Some es', h'))"

definition grpc_lite_metadata_count :: "md_handle \<Rightarrow> nat" where
  "grpc_lite_metadata_count m = (case m of None \<Rightarrow> 0 | Some es \<Rightarrow> length es)"

definition empty_view :: bytes_view where
  "empty_view = \<lparr>bv_data = None, bv_size = 0\<rparr>"

definition grpc_lite_metadata_at :: "md_handle \<Rightarrow> nat \<Rightarrow> ErrorCode \<times> bytes_view \<times> bytes_view" where
  "grpc_lite_metadata_at m index =
     (case m of None \<Rightarrow> (EC_InvalidArgument, empty_view, empty_view) | Some es \<Rightarrow>
      if length es \<le> index then (EC_OutOfRange, empty_view, empty_view)
      else (EC_Ok, zig_view (fst (es ! index)), zig_view (snd (es ! index))))"

text \<open>A borrowed view (\<^verbatim>\<open>grpc_lite_metadata_view\<close>) is read by the same two functions.\<close>

definition grpc_lite_metadata_view_count :: "md_handle \<Rightarrow> nat" where
  "grpc_lite_metadata_view_count m = (case m of None \<Rightarrow> 0 | Some es \<Rightarrow> length es)"

definition grpc_lite_metadata_view_at :: "md_handle \<Rightarrow> nat \<Rightarrow> ErrorCode \<times> bytes_view \<times> bytes_view" where
  "grpc_lite_metadata_view_at m index =
     (case m of None \<Rightarrow> (EC_InvalidArgument, empty_view, empty_view) | Some es \<Rightarrow>
      if length es \<le> index then (EC_OutOfRange, empty_view, empty_view)
      else (EC_Ok, zig_view (fst (es ! index)), zig_view (snd (es ! index))))"

subsection \<open>The C++ class\<close>

text \<open>
  A \<^verbatim>\<open>Metadata\<close> object owns its handle: \<^const>\<open>None\<close> after default construction or a
  move. Output pointers are options, \<^const>\<open>None\<close> the null pointer. A result \<^const>\<open>None\<close>
  of the reading functions would be a read through a null data pointer.
\<close>

definition Metadata_Create :: "md_handle option \<Rightarrow> heap \<Rightarrow> ErrorCode \<times> md_handle option \<times> heap" where
  "Metadata_Create out h =
     (case out of None \<Rightarrow> (EC_InvalidArgument, None, h) | Some old \<Rightarrow>
      let (error, m, h') = grpc_lite_metadata_create h in
      if \<not> Error_ok error then (error, out, h')
      else (EC_Ok, Some m, grpc_lite_metadata_destroy old h'))"

definition Metadata_Add :: "md_handle \<Rightarrow> string \<Rightarrow> string \<Rightarrow> heap \<Rightarrow> ErrorCode \<times> md_handle \<times> heap" where
  "Metadata_Add m key value h =
     (case m of None \<Rightarrow> (EC_InvalidState, m, h)
      | Some _ \<Rightarrow> grpc_lite_metadata_add m (Bytes key) (Bytes value) h)"

definition Metadata_size :: "md_handle \<Rightarrow> nat" where
  "Metadata_size m = (case m of None \<Rightarrow> 0 | Some _ \<Rightarrow> grpc_lite_metadata_count m)"

definition Metadata_At ::
  "md_handle \<Rightarrow> nat \<Rightarrow> string option \<Rightarrow> string option \<Rightarrow> (ErrorCode \<times> string option \<times> string option) option" where
  "Metadata_At m index key value =
     (if m = None then Some (EC_InvalidState, key, value)
      else if key = None \<or> value = None then Some (EC_InvalidArgument, key, value)
      else let (error, ev_key, ev_value) = grpc_lite_metadata_at m index in
      if \<not> Error_ok error then Some (error, key, value)
      else do { k \<leftarrow> CopyBytes ev_key; v \<leftarrow> CopyBytes ev_value; Some (EC_Ok, Some k, Some v) })"

text \<open>\<^verbatim>\<open>CopyEntries\<close>: the index loop, then the loop run from the start.\<close>

function CopyEntries_loop :: "md_handle \<Rightarrow> nat \<Rightarrow> entry list \<Rightarrow> (ErrorCode + entry list) option" where
  "CopyEntries_loop m index entries =
     (if index < Metadata_size m
      then case Metadata_At m index (Some []) (Some []) of
             None \<Rightarrow> None
           | Some (error, key, value) \<Rightarrow>
               if \<not> Error_ok error then Some (Inl error)
               else case (key, value) of
                      (Some k, Some v) \<Rightarrow> CopyEntries_loop m (Suc index) (entries @ [(k, v)])
                    | _ \<Rightarrow> None
      else Some (Inr entries))"
  by pat_completeness auto
termination
  by (relation "measure (\<lambda>(m, i, es). Metadata_size m - i)") auto

declare CopyEntries_loop.simps [simp del]

definition Metadata_CopyEntries :: "md_handle \<Rightarrow> entry list option \<Rightarrow> (ErrorCode \<times> entry list option) option" where
  "Metadata_CopyEntries m out =
     (if out = None then Some (EC_InvalidArgument, out)
      else case CopyEntries_loop m 0 [] of
             None \<Rightarrow> None
           | Some (Inl error) \<Rightarrow> Some (error, out)
           | Some (Inr entries) \<Rightarrow> Some (EC_Ok, Some entries))"

text \<open>\<^verbatim>\<open>internal::CopyMetadataView\<close>: the count is read once, an error ends the loop early.\<close>

function CopyMetadataView_loop :: "md_handle \<Rightarrow> nat \<Rightarrow> nat \<Rightarrow> entry list \<Rightarrow> entry list option" where
  "CopyMetadataView_loop view count index entries =
     (if index < count
      then let (error, ev_key, ev_value) = grpc_lite_metadata_view_at view index in
           if \<not> Error_ok error then Some entries
           else (case (CopyBytes ev_key, CopyBytes ev_value) of
                   (Some k, Some v) \<Rightarrow> CopyMetadataView_loop view count (Suc index) (entries @ [(k, v)])
                 | _ \<Rightarrow> None)
      else Some entries)"
  by pat_completeness auto
termination
  by (relation "measure (\<lambda>(view, count, i, es). count - i)") auto

declare CopyMetadataView_loop.simps [simp del]

definition CopyMetadataView :: "md_handle \<Rightarrow> entry list option" where
  "CopyMetadataView view =
     (if view = None then Some []
      else CopyMetadataView_loop view (grpc_lite_metadata_view_count view) 0 [])"

subsection \<open>Filling a metadata object\<close>

text \<open>
  The loop \<^verbatim>\<open>for (entry : entries) { error = metadata.Add(...); if (!error.ok()) return error; }\<close>
  of \<^verbatim>\<open>internal::CopyMetadata\<close> and of \<^verbatim>\<open>BlockingCallState::Open\<close>, over any sink.
\<close>

fun add_all ::
  "('m \<Rightarrow> string \<Rightarrow> string \<Rightarrow> 'h \<Rightarrow> ErrorCode \<times> 'm \<times> 'h) \<Rightarrow> entry list \<Rightarrow> 'm \<Rightarrow> 'h \<Rightarrow> ErrorCode \<times> 'm \<times> 'h" where
  "add_all add [] m h = (EC_Ok, m, h)"
| "add_all add ((k, v) # es) m h =
     (let (error, m', h') = add m k v h in
      if \<not> Error_ok error then (error, m', h') else add_all add es m' h')"

definition CopyMetadata :: "entry list \<Rightarrow> md_handle \<Rightarrow> heap \<Rightarrow> ErrorCode \<times> md_handle \<times> heap" where
  "CopyMetadata entries metadata h =
     (let (error, m, h') = Metadata_Create (Some metadata) h in
      if \<not> Error_ok error then (error, metadata, h')
      else case m of None \<Rightarrow> (EC_InvalidState, metadata, h')
                   | Some m' \<Rightarrow> add_all Metadata_Add entries m' h')"

subsection \<open>The multimap\<close>

text \<open>
  \<^verbatim>\<open>std::multimap<std::string, std::string>\<close> as the list of its elements in iteration order;
  \<^verbatim>\<open>emplace\<close> inserts behind the elements with an equal key.
\<close>

fun mm_emplace :: "'k::linorder \<times> 'v \<Rightarrow> ('k \<times> 'v) list \<Rightarrow> ('k \<times> 'v) list" where
  "mm_emplace x [] = [x]"
| "mm_emplace x (y # ys) = (if fst x < fst y then x # y # ys else y # mm_emplace x ys)"

definition mm_of_entries :: "('k::linorder \<times> 'v) list \<Rightarrow> ('k \<times> 'v) list" where
  "mm_of_entries es = fold mm_emplace es []"

text \<open>\<^verbatim>\<open>equal_range\<close>, and \<^verbatim>\<open>HasSingleMetadata\<close> of the C++ examples.\<close>

definition mm_equal_range :: "('k::linorder \<times> 'v) list \<Rightarrow> 'k \<Rightarrow> ('k \<times> 'v) list" where
  "mm_equal_range m k = takeWhile (\<lambda>x. fst x = k) (dropWhile (\<lambda>x. fst x < k) m)"

definition HasSingleMetadata :: "entry list \<Rightarrow> string \<Rightarrow> string \<Rightarrow> bool" where
  "HasSingleMetadata metadata key expected =
     (case mm_equal_range metadata key of [(k, v)] \<Rightarrow> v = expected | _ \<Rightarrow> False)"

subsection \<open>Appending\<close>

text \<open>Well-formed entries: what every stored entry satisfies.\<close>

definition md_entry_ok :: "entry \<Rightarrow> bool" where
  "md_entry_ok e \<longleftrightarrow>
     isApplicationKey (fst e) \<and> (isBinaryKey (fst e) \<or> isValidAsciiValue (snd e))"

lemma alloc_cases:
  obtains (ok) h' where "alloc h = (True, h')" "h_live h' = h_live h + 1"
  | (fail) h' where "alloc h = (False, h')" "h_live h' = h_live h"
proof -
  obtain ok h1 where n: "next_outcome h = (ok, h1)" by fastforce
  then have "h_live h1 = h_live h" by (auto simp: next_outcome_def split: list.splits)
  with n that show thesis by (cases ok) (auto simp: alloc_def)
qed

lemma next_outcome_live: "next_outcome h = (b, h') \<Longrightarrow> h_live h' = h_live h"
  by (auto simp: next_outcome_def split: list.splits)

lemma h_live_free [simp]: "h_live (free_blocks n h) = h_live h - n"
  by (simp add: free_blocks_def)

lemma appendOwned_result:
  "appendOwned h es k v = (r, h') \<Longrightarrow>
     (r = Inr (es @ [(k, v)]) \<and> h_live h' = h_live h + 2) \<or>
     (r = Inl OutOfMemory \<and> h_live h' = h_live h)"
proof -
  assume a: "appendOwned h es k v = (r, h')"
  show ?thesis
  proof (cases h rule: alloc_cases)
    case (fail h1)
    with a show ?thesis by (simp add: appendOwned_def)
  next
    case (ok h1)
    note first = this
    show ?thesis
    proof (cases h1 rule: alloc_cases)
      case (fail h2)
      with a first show ?thesis by (auto simp: appendOwned_def)
    next
      case (ok h2)
      obtain b h3 where n: "next_outcome h2 = (b, h3)" by fastforce
      from next_outcome_live [OF n] n a first ok show ?thesis
        by (cases b) (auto simp: appendOwned_def)
    qed
  qed
qed

lemma Metadata_append_result:
  assumes "Metadata_append h es k v = (r, h')"
  shows "(r = Inr (es @ [(k, v)]) \<and> md_entry_ok (k, v) \<and> h_live h' = h_live h + 2) \<or>
         (\<exists>e. r = Inl e \<and> h_live h' = h_live h \<and> (e \<noteq> OutOfMemory \<longleftrightarrow> \<not> md_entry_ok (k, v)))"
  using assms appendOwned_result [of h es k v r h']
  by (auto simp: Metadata_append_def md_entry_ok_def split: if_splits)

lemma Metadata_Add_result:
  assumes "Metadata_Add m k v h = (e, m', h')"
  shows "(m = None \<and> e = EC_InvalidState \<and> m' = None \<and> h' = h) \<or>
    (\<exists>es. m = Some es \<and>
      ((e = EC_Ok \<and> m' = Some (es @ [(k, v)]) \<and> md_entry_ok (k, v) \<and> h_live h' = h_live h + 2) \<or>
       (m' = m \<and> h_live h' = h_live h \<and>
        e = (if md_entry_ok (k, v) then EC_OutOfMemory else EC_InvalidArgument))))"
proof (cases m)
  case None
  with assms show ?thesis by (simp add: Metadata_Add_def)
next
  case (Some es)
  obtain r h1 where r: "Metadata_append h es k v = (r, h1)" by fastforce
  from Metadata_append_result [OF this] show ?thesis
  proof (elim disjE conjE exE)
    assume "r = Inr (es @ [(k, v)])" "md_entry_ok (k, v)" "h_live h1 = h_live h + 2"
    with assms Some r show ?thesis
      by (simp add: Metadata_Add_def grpc_lite_metadata_add_def)
  next
    fix x assume "r = Inl x" "h_live h1 = h_live h" "(x \<noteq> OutOfMemory) = (\<not> md_entry_ok (k, v))"
    with assms Some r show ?thesis
      by (cases x) (auto simp: Metadata_Add_def grpc_lite_metadata_add_def)
  qed
qed

subsection \<open>The sink contract\<close>

text \<open>
  What a client that fills a metadata object relies on: a successful add appends exactly the
  entry, a failed one leaves the contents alone.
\<close>

locale metadata_sink =
  fixes add :: "'m \<Rightarrow> string \<Rightarrow> string \<Rightarrow> 'h \<Rightarrow> ErrorCode \<times> 'm \<times> 'h"
    and items :: "'m \<Rightarrow> entry list"
  assumes add_ok: "add m k v h = (EC_Ok, m', h') \<Longrightarrow> items m' = items m @ [(k, v)]"
    and add_err: "add m k v h = (e, m', h') \<Longrightarrow> e \<noteq> EC_Ok \<Longrightarrow> items m' = items m"
begin

lemma add_all_ok:
  "add_all add es m h = (EC_Ok, m', h') \<Longrightarrow> items m' = items m @ es"
proof (induction es arbitrary: m h)
  case (Cons e es)
  obtain k v where e: "e = (k, v)" by fastforce
  obtain err m1 h1 where a: "add m k v h = (err, m1, h1)" by (cases "add m k v h") auto
  with Cons.prems e have "err = EC_Ok" by (auto simp: Error_ok_def split: if_splits)
  with a e Cons show ?case by (auto simp: Error_ok_def dest: add_ok)
qed simp

lemma add_all_err:
  "add_all add es m h = (e, m', h') \<Longrightarrow> e \<noteq> EC_Ok \<Longrightarrow>
   \<exists>n < length es. items m' = items m @ take n es"
proof (induction es arbitrary: m h)
  case (Cons x es)
  obtain k v where x: "x = (k, v)" by fastforce
  obtain err m1 h1 where a: "add m k v h = (err, m1, h1)" by (cases "add m k v h") auto
  show ?case
  proof (cases "err = EC_Ok")
    case True
    with a have m1: "items m1 = items m @ [(k, v)]" by (auto dest: add_ok)
    from True a x Cons.prems have "add_all add es m1 h1 = (e, m', h')" by (simp add: Error_ok_def)
    from Cons.IH [OF this Cons.prems(2)] obtain n
      where "n < length es" "items m' = items m1 @ take n es" by blast
    with m1 x show ?thesis by (intro exI [of _ "Suc n"]) simp
  next
    case False
    with a x Cons.prems have "items m' = items m" by (auto simp: Error_ok_def dest: add_err)
    then show ?thesis by (intro exI [of _ 0]) simp
  qed
qed simp

end

definition md_items :: "md_handle \<Rightarrow> entry list" where
  "md_items m = (case m of None \<Rightarrow> [] | Some es \<Rightarrow> es)"

lemma Metadata_Add_items:
  assumes "Metadata_Add m k v h = (e, m', h')"
  shows "md_items m' = (if e = EC_Ok then md_items m @ [(k, v)] else md_items m)"
  using Metadata_Add_result [OF assms] by (auto simp: md_items_def split: if_splits)

interpretation cpp_md: metadata_sink Metadata_Add md_items
proof
  fix m k v m' and h h' :: heap
  assume "Metadata_Add m k v h = (EC_Ok, m', h')"
  then show "md_items m' = md_items m @ [(k, v)]" by (simp add: Metadata_Add_items)
next
  fix m k v e m' and h h' :: heap
  assume "Metadata_Add m k v h = (e, m', h')" "e \<noteq> EC_Ok"
  then show "md_items m' = md_items m" by (simp add: Metadata_Add_items)
qed

subsection \<open>Copying out\<close>

lemma CopyEntries_loop_eq:
  "i \<le> length es \<Longrightarrow> CopyEntries_loop (Some es) i acc = Some (Inr (acc @ drop i es))"
proof (induction "length es - i" arbitrary: i acc)
  case 0
  then show ?case
    by (subst CopyEntries_loop.simps) (simp add: Metadata_size_def grpc_lite_metadata_count_def)
next
  case (Suc n)
  then have i: "i < length es" by simp
  then have "CopyEntries_loop (Some es) i acc = CopyEntries_loop (Some es) (Suc i) (acc @ [es ! i])"
    by (subst CopyEntries_loop.simps)
      (simp add: Metadata_size_def grpc_lite_metadata_count_def Metadata_At_def
        grpc_lite_metadata_at_def Error_ok_def)
  also have "\<dots> = Some (Inr ((acc @ [es ! i]) @ drop (Suc i) es))"
    by (rule Suc.hyps(1)) (use Suc.hyps(2) i in auto)
  finally show ?case using i by (simp add: Cons_nth_drop_Suc)
qed

lemma CopyMetadataView_loop_eq:
  "i \<le> length es \<Longrightarrow>
   CopyMetadataView_loop (Some es) (length es) i acc = Some (acc @ drop i es)"
proof (induction "length es - i" arbitrary: i acc)
  case 0
  then show ?case by (subst CopyMetadataView_loop.simps) simp
next
  case (Suc n)
  then have i: "i < length es" by simp
  then have "CopyMetadataView_loop (Some es) (length es) i acc =
      CopyMetadataView_loop (Some es) (length es) (Suc i) (acc @ [es ! i])"
    by (subst CopyMetadataView_loop.simps) (simp add: grpc_lite_metadata_view_at_def Error_ok_def)
  also have "\<dots> = Some ((acc @ [es ! i]) @ drop (Suc i) es)"
    by (rule Suc.hyps(1)) (use Suc.hyps(2) i in auto)
  finally show ?case using i by (simp add: Cons_nth_drop_Suc)
qed

lemma CopyMetadataView_eq [simp]: "CopyMetadataView m = Some (md_items m)"
  by (cases m) (simp_all add: CopyMetadataView_def grpc_lite_metadata_view_count_def
    CopyMetadataView_loop_eq md_items_def)

lemma CopyEntries_eq:
  "Metadata_CopyEntries m (Some old) = Some (EC_Ok, Some (md_items m))"
proof (cases m)
  case None
  then show ?thesis
    by (simp add: Metadata_CopyEntries_def md_items_def CopyEntries_loop.simps [of None]
      Metadata_size_def)
next
  case (Some es)
  then show ?thesis by (simp add: Metadata_CopyEntries_def CopyEntries_loop_eq md_items_def)
qed

subsection \<open>The multimap is a stable sort\<close>

lemma mm_emplace_not_Nil [simp]: "mm_emplace x m \<noteq> []"
  by (cases m) auto

lemma set_mm_emplace [simp]: "set (mm_emplace x m) = insert x (set m)"
  by (induction m) auto

lemma length_mm_emplace [simp]: "length (mm_emplace x m) = Suc (length m)"
  by (induction m) auto

lemma mm_emplace_sorted: "sorted (map fst m) \<Longrightarrow> sorted (map fst (mm_emplace x m))"
  by (induction m) auto

lemma mm_emplace_filter:
  "sorted (map fst m) \<Longrightarrow>
   filter (\<lambda>y. fst y = k) (mm_emplace x m) =
     filter (\<lambda>y. fst y = k) m @ (if fst x = k then [x] else [])"
proof (induction m)
  case (Cons y m)
  have "fst x < fst y \<Longrightarrow> fst x = k \<Longrightarrow> filter (\<lambda>y. fst y = k) (y # m) = []"
    using Cons.prems by (fastforce simp: filter_empty_conv)
  with Cons show ?case by auto
qed simp

lemma fold_mm_emplace:
  "sorted (map fst m) \<Longrightarrow>
   sorted (map fst (fold mm_emplace es m)) \<and>
   filter (\<lambda>y. fst y = k) (fold mm_emplace es m) =
     filter (\<lambda>y. fst y = k) m @ filter (\<lambda>y. fst y = k) es"
  by (induction es arbitrary: m) (auto simp: mm_emplace_sorted mm_emplace_filter)

lemma sorted_stable_unique:
  assumes "sorted (map fst xs)" and "sorted (map fst ys)"
    and "\<And>k. filter (\<lambda>y. fst y = k) xs = filter (\<lambda>y. fst y = k) ys"
  shows "xs = (ys :: ('k::linorder \<times> 'v) list)"
  using assms
proof (induction xs arbitrary: ys)
  case Nil
  then show ?case
  proof (cases ys)
    case (Cons y zs)
    with Nil.prems(3) [of "fst y"] show ?thesis by simp
  qed simp
next
  case (Cons x xs)
  have "x \<in> set (filter (\<lambda>y. fst y = fst x) ys)"
    using Cons.prems(3) [of "fst x", symmetric] by simp
  then have "x \<in> set ys" by simp
  obtain y zs where ys: "ys = y # zs" using \<open>x \<in> set ys\<close> by (cases ys) auto
  have "y \<in> set (filter (\<lambda>z. fst z = fst y) (x # xs))"
    unfolding Cons.prems(3) [of "fst y"] using ys by simp
  then have "y \<in> set (x # xs)" by (simp split: if_splits)
  then have "fst x = fst y"
    using Cons.prems(1,2) ys \<open>x \<in> set ys\<close> by fastforce
  then have xy: "x = y" using Cons.prems(3) [of "fst x"] ys by simp
  have "filter (\<lambda>y. fst y = k) xs = filter (\<lambda>y. fst y = k) zs" for k
    using Cons.prems(3) [of k] ys xy by (auto split: if_splits)
  with Cons.IH [of zs] Cons.prems(1,2) ys xy show ?case by simp
qed

lemma filter_sort_key_fst:
  "filter (\<lambda>y. fst y = k) (sort_key fst es) = filter (\<lambda>y. fst y = (k :: 'k::linorder)) es"
  by (rule sort_key_stable)

lemma mm_of_entries_eq: "mm_of_entries es = sort_key fst es"
proof (rule sorted_stable_unique)
  show "sorted (map fst (mm_of_entries es))"
    using fold_mm_emplace [of "[]" es] by (simp add: mm_of_entries_def)
  show "sorted (map fst (sort_key fst es))" by (rule sorted_sort_key)
  show "filter (\<lambda>y. fst y = k) (mm_of_entries es) = filter (\<lambda>y. fst y = k) (sort_key fst es)" for k
    using fold_mm_emplace [of "[]" es k] filter_sort_key_fst [of k es]
    by (simp add: mm_of_entries_def)
qed

lemma mm_equal_range_sorted:
  "sorted (map fst m) \<Longrightarrow> mm_equal_range m k = filter (\<lambda>e. fst e = k) m"
proof (induction m)
  case (Cons x m)
  consider "fst x < k" | "fst x = k" | "k < fst x" by (rule linorder_cases [of "fst x" k])
  then show ?case
  proof cases
    case 2
    then have "dropWhile (\<lambda>x. fst x < k) m = m"
      using Cons.prems by (cases m) auto
    with 2 Cons show ?thesis by (simp add: mm_equal_range_def)
  next
    case 3
    then have "filter (\<lambda>e. fst e = k) m = []"
      using Cons.prems by (fastforce simp: filter_empty_conv)
    with 3 show ?thesis by (auto simp: mm_equal_range_def)
  qed (use Cons in \<open>simp add: mm_equal_range_def\<close>)
qed (simp add: mm_equal_range_def)

lemma add_all_live:
  "add_all Metadata_Add es (Some xs) h = (e, m, h') \<Longrightarrow>
   \<exists>ys. m = Some ys \<and> h_live h' + 2 * length xs = h_live h + 2 * length ys"
proof (induction es arbitrary: xs h)
  case (Cons x es)
  obtain k v where x: "x = (k, v)" by fastforce
  obtain e1 m1 h1 where a: "Metadata_Add (Some xs) k v h = (e1, m1, h1)"
    by (cases "Metadata_Add (Some xs) k v h") auto
  from Metadata_Add_result [OF a] consider
      "e1 = EC_Ok" "m1 = Some (xs @ [(k, v)])" "h_live h1 = h_live h + 2"
    | "e1 \<noteq> EC_Ok" "m1 = Some xs" "h_live h1 = h_live h" by (auto split: if_splits)
  then show ?case
  proof cases
    case 1
    with a x Cons.prems Cons.IH [of "xs @ [(k, v)]" h1] show ?thesis by (auto simp: Error_ok_def)
  next
    case 2
    with a x Cons.prems show ?thesis by (auto simp: Error_ok_def)
  qed
qed auto

lemma CopyMetadata_balanced:
  assumes "CopyMetadata entries None h = (e, m, h')"
  shows "h_live (grpc_lite_metadata_destroy m h') = h_live h"
    and "e = EC_Ok \<Longrightarrow> m = Some entries"
proof -
  have "m = None \<and> h_live h' = h_live h \<and> e \<noteq> EC_Ok \<or>
    (\<exists>h1. h_live h1 = h_live h + 1 \<and> add_all Metadata_Add entries (Some []) h1 = (e, m, h'))"
    using assms
    by (cases h rule: alloc_cases)
      (auto simp: CopyMetadata_def Metadata_Create_def grpc_lite_metadata_create_def
        grpc_lite_metadata_destroy_def Error_ok_def)
  then show "h_live (grpc_lite_metadata_destroy m h') = h_live h"
    by (auto simp: grpc_lite_metadata_destroy_def dest: add_all_live)
  assume "e = EC_Ok"
  with \<open>_ \<or> _\<close> obtain h1 where "add_all Metadata_Add entries (Some []) h1 = (EC_Ok, m, h')" by auto
  from cpp_md.add_all_ok [OF this] add_all_live [OF this] show "m = Some entries"
    by (auto simp: md_items_def)
qed

subsection \<open>Properties\<close>

text \<open>
  C37. Adding an entry to a \<^verbatim>\<open>grpc_lite::Metadata\<close> object is atomic and leak-free for every
  pattern of allocation failures: a null object answers InvalidState; otherwise the call either
  succeeds, appends exactly the entry and owns two more blocks (and then the key is a valid
  application key and a non-binary value is printable ASCII), or leaves the entries and the
  number of live blocks unchanged and answers InvalidArgument for an ill-formed entry and
  OutOfMemory for a well-formed one.
\<close>

theorem metadata_add_atomic:
  assumes "Metadata_Add m k v h = (e, m', h')"
  shows "(m = None \<and> e = EC_InvalidState \<and> m' = None \<and> h' = h) \<or>
    (\<exists>es. m = Some es \<and>
      ((e = EC_Ok \<and> m' = Some (es @ [(k, v)]) \<and> md_entry_ok (k, v) \<and> h_live h' = h_live h + 2) \<or>
       (m' = m \<and> h_live h' = h_live h \<and>
        e = (if md_entry_ok (k, v) then EC_OutOfMemory else EC_InvalidArgument))))"
  using assms by (rule Metadata_Add_result)

text \<open>The third allocation fails: the two duplicates are freed again.\<close>

theorem metadata_add_atomic_witness:
  "Metadata_Add (Some []) ''x-id'' ''1'' \<lparr>h_outcomes = [True, True, False], h_live = 1\<rparr> =
     (EC_OutOfMemory, Some [], \<lparr>h_outcomes = [], h_live = 1\<rparr>) \<and>
   md_entry_ok (''x-id'', ''1'')"
proof -
  have run: "Metadata_Add (Some []) ''x-id'' ''1'' \<lparr>h_outcomes = [True, True, False], h_live = 1\<rparr> =
     (EC_OutOfMemory, Some [], \<lparr>h_outcomes = [], h_live = 1\<rparr>)"
    by code_simp
  from metadata_add_atomic [OF run] run show ?thesis by (auto split: if_splits)
qed

text \<open>
  C38. What was put in comes out: filling an object with \<^verbatim>\<open>internal::CopyMetadata\<close> from a list
  of entries, when it succeeds, and then reading it back with the index loop of
  \<^verbatim>\<open>Metadata::CopyEntries\<close> or, through a borrowed view, with \<^verbatim>\<open>internal::CopyMetadataView\<close>,
  yields exactly those entries in order, duplicates included; neither loop ever reads through a
  null data pointer.
\<close>

theorem metadata_copy_roundtrip:
  assumes "CopyMetadata entries old h = (EC_Ok, m, h')"
  shows "Metadata_CopyEntries m (Some out) = Some (EC_Ok, Some entries) \<and>
         CopyMetadataView m = Some entries"
proof -
  from assms obtain m' h1 where m': "add_all Metadata_Add entries m' h1 = (EC_Ok, m, h')"
    and "m' = Some []"
    by (auto simp: CopyMetadata_def Metadata_Create_def grpc_lite_metadata_create_def Let_def
      Error_ok_def split: prod.splits if_splits)
  then have "md_items m = entries"
    using cpp_md.add_all_ok [OF m'] by (simp add: md_items_def)
  then show ?thesis by (simp add: CopyEntries_eq)
qed

theorem metadata_copy_roundtrip_witness:
  "CopyMetadata [(''a'', ''1''), (''k-bin'', []), (''a'', ''1'')] None \<lparr>h_outcomes = [], h_live = 0\<rparr> =
     (EC_Ok, Some [(''a'', ''1''), (''k-bin'', []), (''a'', ''1'')], \<lparr>h_outcomes = [], h_live = 7\<rparr>) \<and>
   CopyMetadataView (Some [(''a'', ''1''), (''k-bin'', []), (''a'', ''1'')]) =
     Some [(''a'', ''1''), (''k-bin'', []), (''a'', ''1'')]"
proof -
  have run: "CopyMetadata [(''a'', ''1''), (''k-bin'', []), (''a'', ''1'')] None
      \<lparr>h_outcomes = [], h_live = 0\<rparr> =
     (EC_Ok, Some [(''a'', ''1''), (''k-bin'', []), (''a'', ''1'')], \<lparr>h_outcomes = [], h_live = 7\<rparr>)"
    by code_simp
  from metadata_copy_roundtrip [OF run] run show ?thesis by blast
qed

text \<open>
  The multimap a grpcpp context publishes is the stable sort of the received entries by
  key: iteration is in key order, no entry is lost or duplicated, and entries with equal keys
  keep the order of arrival; hence \<^verbatim>\<open>equal_range\<close> of a key is the sequence of its values as
  received.
\<close>

theorem multimap_stable_sort:
  "mm_of_entries es = sort_key fst es \<and>
   mm_equal_range (mm_of_entries es) k = filter (\<lambda>e. fst e = k) (es :: entry list)"
  using mm_equal_range_sorted [of "sort_key fst es" k] filter_sort_key_fst [of k es]
  by (simp add: mm_of_entries_eq)

end
