(* ===== verification/Server_Call.thy ===== *)
theory Server_Call
  imports Metadata_Store
begin

section \<open>Server calls\<close>

text \<open>
  The native side of one streaming call and the C++ class \<^verbatim>\<open>grpc_lite::ServerCall\<close>
  (\<^verbatim>\<open>grpc_lite/cpp/server.hpp\<close>) that commands it.

  Of the native call, the model has the flags of \<^verbatim>\<open>Stream\<close> and \<^verbatim>\<open>ServerCallControl\<close> in
  \<^verbatim>\<open>src/server.zig\<close> that decide how a command is answered and which callbacks run: the guards
  of \<^verbatim>\<open>serverCallSendInitialMetadata\<close>, \<^verbatim>\<open>serverCallSend\<close>, \<^verbatim>\<open>serverCallFinish\<close> and
  \<^verbatim>\<open>serverCallResumeReceive\<close> are translated as they stand. Whether a command that passes its
  guards finds the memory, the buffer space and the negotiated compression it needs is an
  arbitrary function of the position of the command in the log, so that a theorem over all such
  functions holds for every load of the server.
\<close>

subsection \<open>The native call\<close>

datatype ServerTerminalReason =
  R_Completed | R_PeerCancelled | R_DeadlineExceeded | R_ServerShutdown | R_TransportError | R_LocalError

datatype server_cmd =
    S_initial "entry list" Compression
  | S_send string Compression
  | S_finish Status "entry list"
  | S_resume
  | S_abort

record native =
  n_id :: nat
  n_log :: "(server_cmd \<times> ErrorCode) list"
  n_resource :: "nat \<Rightarrow> ErrorCode"
  n_explicit :: bool
  n_active :: bool
  n_finish_queued :: bool
  n_closed :: bool
  n_headers_queued :: bool
  n_paused :: bool
  n_resuming :: bool
  n_writable_requested :: bool
  n_cancelled :: bool
  n_terminal :: bool
  n_writable_due :: bool
  n_cancel_due :: bool
  n_terminal_due :: "ServerTerminalReason option"
  n_handles :: nat
  n_released :: "nat list"

text \<open>
  A call as \<^verbatim>\<open>startStreaming\<close> hands it to \<^verbatim>\<open>on_start\<close>: the method options are whether
  reception starts paused and whether the application sends the initial metadata itself.
\<close>

definition startStreaming :: "nat \<Rightarrow> (nat \<Rightarrow> ErrorCode) \<Rightarrow> bool \<Rightarrow> bool \<Rightarrow> native" where
  "startStreaming i r receive_initially_paused explicit =
     \<lparr>n_id = i, n_log = [], n_resource = r, n_explicit = explicit, n_active = True,
      n_finish_queued = False, n_closed = False, n_headers_queued = \<not> explicit,
      n_paused = receive_initially_paused, n_resuming = False, n_writable_requested = False,
      n_cancelled = False, n_terminal = False, n_writable_due = False,
      n_cancel_due = False, n_terminal_due = None, n_handles = 0, n_released = []\<rparr>"

definition n_record :: "server_cmd \<Rightarrow> ErrorCode \<Rightarrow> native \<Rightarrow> native" where
  "n_record k e n = n\<lparr>n_log := n_log n @ [(k, e)]\<rparr>"

definition resource :: "native \<Rightarrow> ErrorCode" where
  "resource n = n_resource n (length (n_log n))"

text \<open>
  Only a message needs buffer space: the other commands fail for want of memory, for ill-formed
  metadata or when the event loop cannot be notified, never with \<^verbatim>\<open>error.WouldBlock\<close>.
\<close>

definition memory :: "native \<Rightarrow> ErrorCode" where
  "memory n = (if resource n = EC_WouldBlock then EC_OutOfMemory else resource n)"

text \<open>The condition under which the commands answer \<^verbatim>\<open>error.CallClosed\<close>.\<close>

definition call_closed :: "native \<Rightarrow> bool" where
  "call_closed n \<longleftrightarrow> \<not> n_active n \<or> n_finish_queued n \<or> n_closed n"

definition serverCallSendInitialMetadata ::
  "entry list \<Rightarrow> Compression \<Rightarrow> native \<Rightarrow> ErrorCode \<times> native" where
  "serverCallSendInitialMetadata entries c n =
     (let e = (if call_closed n then EC_Closed
               else if \<not> n_explicit n then EC_InvalidState
               else if n_headers_queued n then EC_InvalidState
               else memory n);
          n' = n_record (S_initial entries c) e n
      in (e, if Error_ok e then n'\<lparr>n_headers_queued := True\<rparr> else n'))"

definition serverCallSend :: "string \<Rightarrow> Compression \<Rightarrow> native \<Rightarrow> ErrorCode \<times> native" where
  "serverCallSend payload c n =
     (let e = (if call_closed n then EC_Closed
               else if \<not> n_headers_queued n then EC_InvalidState
               else resource n);
          n' = n_record (S_send payload c) e n
      in (e, if e = EC_WouldBlock then n'\<lparr>n_writable_requested := True\<rparr> else n'))"

definition serverCallFinish :: "Status \<Rightarrow> entry list \<Rightarrow> native \<Rightarrow> ErrorCode \<times> native" where
  "serverCallFinish st trailing n =
     (let e = (if StatusCode_value (s_code st) < 0 \<or> 16 < StatusCode_value (s_code st)
               then EC_InvalidArgument
               else if call_closed n then EC_Closed
               else if \<not> n_headers_queued n then EC_InvalidState
               else memory n);
          n' = n_record (S_finish st trailing) e n
      in (e, if Error_ok e then n'\<lparr>n_finish_queued := True\<rparr> else n'))"

text \<open>
  A queued resume leaves the reception paused until the event loop takes the command. A resume
  during the message callback is not a case of its own: the callback is one event here.
\<close>

definition serverCallResumeReceive :: "native \<Rightarrow> ErrorCode \<times> native" where
  "serverCallResumeReceive n =
     (let e = (if call_closed n then EC_Closed
               else if n_resuming n then EC_Ok
               else if \<not> n_paused n then EC_InvalidState
               else memory n);
          n' = n_record S_resume e n
      in (e, if Error_ok e then n'\<lparr>n_resuming := True\<rparr> else n'))"

definition serverCallAbort :: "native \<Rightarrow> native" where
  "serverCallAbort n =
     (let n' = n_record S_abort EC_Ok n in
      if \<not> n_active n \<or> n_closed n then n' else n'\<lparr>n_finish_queued := True\<rparr>)"

text \<open>
  What the event loop does to a call on its own: it releases buffer space and then owes the
  application a writable callback (\<^verbatim>\<open>releaseOutboundReservation\<close>), takes a queued resume
  command (\<^verbatim>\<open>processStreamCommand\<close>), cancels the call (\<^verbatim>\<open>cancelStreaming\<close>), fails it
  (\<^verbatim>\<open>failStreaming\<close>) or ends it (\<^verbatim>\<open>retireStream\<close>, \<^verbatim>\<open>notifyServerCallTerminal\<close>). The owed callbacks are made on the
  same thread, so a cancel callback that is due comes before the end of the call.
\<close>

definition releaseOutboundReservation :: "native \<Rightarrow> native" where
  "releaseOutboundReservation n =
     (if n_writable_requested n \<and> n_active n \<and> \<not> n_finish_queued n \<and> \<not> n_closed n
      then n\<lparr>n_writable_requested := False, n_writable_due := True\<rparr> else n)"

definition process_resume :: "native \<Rightarrow> native" where
  "process_resume n =
     (if n_resuming n
      then n\<lparr>n_resuming := False, n_paused := (n_paused n \<and> \<not> (n_active n \<and> \<not> n_closed n))\<rparr> else n)"

definition cancelStreaming :: "native \<Rightarrow> native" where
  "cancelStreaming n =
     (if n_cancelled n \<or> n_terminal n then n
      else n\<lparr>n_cancelled := True, n_active := False, n_finish_queued := True, n_paused := False,
             n_resuming := False, n_cancel_due := True\<rparr>)"

definition failStreaming :: "native \<Rightarrow> native" where
  "failStreaming n = n\<lparr>n_active := False, n_finish_queued := True, n_headers_queued := True\<rparr>"

definition retireStream :: "ServerTerminalReason \<Rightarrow> native \<Rightarrow> native" where
  "retireStream r n =
     (if n_terminal n \<or> n_cancel_due n then n
      else n\<lparr>n_closed := True, n_active := False, n_terminal := True, n_terminal_due := Some r\<rparr>)"

subsection \<open>The class\<close>

text \<open>
  A \<^verbatim>\<open>ServerCall\<close> object owns a handle: the number of handles given out before it, or
  \<^const>\<open>None\<close> when null. Destroying a handle is recorded.
\<close>

type_synonym ServerCall = "nat option"

definition new_handle :: "native \<Rightarrow> ServerCall \<times> native" where
  "new_handle n = (Some (n_handles n), n\<lparr>n_handles := n_handles n + 1\<rparr>)"

definition grpc_lite_server_call_destroy :: "ServerCall \<Rightarrow> native \<Rightarrow> native" where
  "grpc_lite_server_call_destroy c n =
     (case c of None \<Rightarrow> n | Some h \<Rightarrow> n\<lparr>n_released := h # n_released n\<rparr>)"

definition ServerCall_move :: "ServerCall \<Rightarrow> ServerCall \<times> ServerCall" where
  "ServerCall_move other = (None, other)"

definition ServerCall_assign ::
  "bool \<Rightarrow> ServerCall \<Rightarrow> ServerCall \<Rightarrow> native \<Rightarrow> ServerCall \<times> ServerCall \<times> native" where
  "ServerCall_assign same this other n =
     (if same then (this, other, n) else (other, None, grpc_lite_server_call_destroy this n))"

text \<open>
  \<open>reply\<close> is the answer of the C function, which may lack the memory for the new handle.
\<close>

definition ServerCall_Clone ::
  "ErrorCode \<Rightarrow> ServerCall \<Rightarrow> ServerCall option \<Rightarrow> native \<Rightarrow> ErrorCode \<times> ServerCall option \<times> native" where
  "ServerCall_Clone reply this out n =
     (case out of None \<Rightarrow> (EC_InvalidArgument, out, n) | Some old \<Rightarrow>
      if this = None then (EC_InvalidState, out, n)
      else if \<not> Error_ok reply then (reply, out, n)
      else let (call, n1) = new_handle n;
               (new, _, n2) = ServerCall_assign False old call n1
           in (EC_Ok, Some new, n2))"

definition ServerStream_Retain ::
  "ErrorCode \<Rightarrow> ServerCall option \<Rightarrow> native \<Rightarrow> ErrorCode \<times> ServerCall option \<times> native" where
  "ServerStream_Retain reply out n =
     (case out of None \<Rightarrow> (EC_InvalidArgument, out, n) | Some old \<Rightarrow>
      if \<not> Error_ok reply then (reply, out, n)
      else let (call, n1) = new_handle n;
               (new, _, n2) = ServerCall_assign False old call n1
           in (EC_Ok, Some new, n2))"

definition ServerCall_id :: "ServerCall \<Rightarrow> native \<Rightarrow> nat" where
  "ServerCall_id c n = (if c = None then 0 else n_id n)"

definition ServerCall_cancelled :: "ServerCall \<Rightarrow> native \<Rightarrow> bool" where
  "ServerCall_cancelled c n \<longleftrightarrow> c \<noteq> None \<and> n_cancelled n"

definition ServerCall_terminal :: "ServerCall \<Rightarrow> native \<Rightarrow> bool" where
  "ServerCall_terminal c n \<longleftrightarrow> c \<noteq> None \<and> n_terminal n"

definition ServerCall_Abort :: "ServerCall \<Rightarrow> native \<Rightarrow> native" where
  "ServerCall_Abort c n = (if c = None then n else serverCallAbort n)"

text \<open>A null metadata pointer, and a metadata object without a handle, stand for no entries.\<close>

definition metadata_arg :: "md_handle option \<Rightarrow> entry list" where
  "metadata_arg m = (case m of Some (Some es) \<Rightarrow> es | _ \<Rightarrow> [])"

definition ServerCall_SendInitialMetadata ::
  "md_handle option \<Rightarrow> Compression \<Rightarrow> ServerCall \<Rightarrow> native \<Rightarrow> ErrorCode \<times> native" where
  "ServerCall_SendInitialMetadata metadata c call n =
     (if call = None then (EC_InvalidState, n)
      else serverCallSendInitialMetadata (metadata_arg metadata) c n)"

definition ServerCall_Send :: "string \<Rightarrow> Compression \<Rightarrow> ServerCall \<Rightarrow> native \<Rightarrow> ErrorCode \<times> native" where
  "ServerCall_Send payload c call n =
     (if call = None then (EC_InvalidState, n) else serverCallSend payload c n)"

definition ServerCall_Finish :: "Status \<Rightarrow> md_handle option \<Rightarrow> ServerCall \<Rightarrow> native \<Rightarrow> ErrorCode \<times> native" where
  "ServerCall_Finish st trailing call n =
     (if call = None then (EC_InvalidState, n) else serverCallFinish st (metadata_arg trailing) n)"

definition ServerCall_ResumeReceive :: "ServerCall \<Rightarrow> native \<Rightarrow> ErrorCode \<times> native" where
  "ServerCall_ResumeReceive call n =
     (if call = None then (EC_InvalidState, n) else serverCallResumeReceive n)"

subsection \<open>The context of a call\<close>

record ServerContext =
  x_request_metadata :: "entry list"
  x_request_compression :: Compression
  x_has_deadline :: bool
  x_remaining_time_ns :: u64

text \<open>
  The copying constructor: the borrowed context is its metadata view, compression code, deadline
  flag and remaining time; \<^const>\<open>None\<close> would be a read through a null data pointer.
\<close>

definition ServerContext_new :: "md_handle \<Rightarrow> Compression \<Rightarrow> u32 \<Rightarrow> u64 \<Rightarrow> ServerContext option" where
  "ServerContext_new view c has_deadline remaining =
     do { md \<leftarrow> CopyMetadataView view;
          Some \<lparr>x_request_metadata = md, x_request_compression = c, x_has_deadline = has_deadline \<noteq> 0,
                x_remaining_time_ns = remaining\<rparr> }"

subsection \<open>Lemmas\<close>

lemma n_record_simps [simp]:
  "n_resource (n_record k e n) = n_resource n"
  "n_id (n_record k e n) = n_id n" "n_log (n_record k e n) = n_log n @ [(k, e)]"
  "n_explicit (n_record k e n) = n_explicit n" "n_active (n_record k e n) = n_active n"
  "n_finish_queued (n_record k e n) = n_finish_queued n" "n_closed (n_record k e n) = n_closed n"
  "n_headers_queued (n_record k e n) = n_headers_queued n" "n_paused (n_record k e n) = n_paused n"
  "n_resuming (n_record k e n) = n_resuming n" "n_cancelled (n_record k e n) = n_cancelled n"
  "n_writable_requested (n_record k e n) = n_writable_requested n"
  "n_writable_due (n_record k e n) = n_writable_due n" "n_cancel_due (n_record k e n) = n_cancel_due n"
  "n_terminal_due (n_record k e n) = n_terminal_due n"
  "n_terminal (n_record k e n) = n_terminal n" "n_handles (n_record k e n) = n_handles n"
  "n_released (n_record k e n) = n_released n"
  by (simp_all add: n_record_def)

lemmas server_command_defs =
  ServerCall_SendInitialMetadata_def ServerCall_Send_def ServerCall_Finish_def
  ServerCall_ResumeReceive_def serverCallSendInitialMetadata_def serverCallSend_def
  serverCallFinish_def serverCallResumeReceive_def

end
