(* ===== verification/Typed_Call.thy ===== *)
theory Typed_Call
  imports Server_Call
begin

section \<open>Typed server calls\<close>

text \<open>
  \<^verbatim>\<open>internal::TypedCallState\<close>, \<^verbatim>\<open>internal::FinishResponse\<close> and
  \<^verbatim>\<open>internal::TypedRequestStreamState\<close> of \<^verbatim>\<open>grpc_lite/cpp/typed_service.hpp\<close>: the state an
  application's handle on a call shares with the reactor's callbacks, and the inbound side of a
  client-streaming call.

  Every operation but the two waits is a single critical section of the object's mutex, hence a
  function on the state. An operation that runs a callback of the application after it released
  the mutex returns that callback; \<^typ>\<open>'cb\<close> is the type of callbacks, an empty
  \<^verbatim>\<open>std::function\<close> is \<^const>\<open>None\<close>.
\<close>

subsection \<open>The shared state of a call\<close>

record 'cb tcs =
  y_call :: ServerCall
  y_on_writable :: "'cb option"
  y_on_cancel :: "'cb option"
  y_on_terminal :: "'cb option"
  y_writable :: bool
  y_cancelled :: bool
  y_terminal :: bool
  y_finish_submitted :: bool
  y_initial_metadata_sent :: bool
  y_terminal_reason :: "ServerTerminalReason option"

text \<open>The call object beside the native call it commands.\<close>

record 'cb tstate =
  s_native :: native
  s_typed :: "'cb tcs"

definition TypedCallState_new :: "ServerCall \<Rightarrow> 'cb tcs" where
  "TypedCallState_new call =
     \<lparr>y_call = call, y_on_writable = None, y_on_cancel = None, y_on_terminal = None, y_writable = True,
      y_cancelled = False, y_terminal = False, y_finish_submitted = False,
      y_initial_metadata_sent = False, y_terminal_reason = None\<rparr>"

definition tc_cancelled :: "('cb, 'z) tstate_scheme \<Rightarrow> bool" where
  "tc_cancelled s \<longleftrightarrow> y_cancelled (s_typed s) \<or> ServerCall_cancelled (y_call (s_typed s)) (s_native s)"

definition tc_terminal :: "('cb, 'z) tstate_scheme \<Rightarrow> bool" where
  "tc_terminal s \<longleftrightarrow> y_finish_submitted (s_typed s) \<or> y_terminal (s_typed s) \<or>
     ServerCall_terminal (y_call (s_typed s)) (s_native s)"

definition tc_id :: "('cb, 'z) tstate_scheme \<Rightarrow> nat" where
  "tc_id s = ServerCall_id (y_call (s_typed s)) (s_native s)"

text \<open>A command on the native call, and the guard most operations start with.\<close>

definition tc_command ::
  "(ServerCall \<Rightarrow> native \<Rightarrow> ErrorCode \<times> native) \<Rightarrow> ('cb, 'z) tstate_scheme \<Rightarrow> ErrorCode \<times> ('cb, 'z) tstate_scheme" where
  "tc_command f s = (let (e, n) = f (y_call (s_typed s)) (s_native s) in (e, s\<lparr>s_native := n\<rparr>))"

definition tc_done :: "('cb, 'z) tstate_scheme \<Rightarrow> bool" where
  "tc_done s \<longleftrightarrow> y_terminal (s_typed s) \<or> y_finish_submitted (s_typed s)"

definition mark_initial :: "ErrorCode \<times> ('cb, 'z) tstate_scheme \<Rightarrow> ErrorCode \<times> ('cb, 'z) tstate_scheme" where
  "mark_initial r =
     (fst r, if Error_ok (fst r)
             then (snd r)\<lparr>s_typed := (s_typed (snd r))\<lparr>y_initial_metadata_sent := True\<rparr>\<rparr> else snd r)"

definition tc_SendInitialMetadata ::
  "md_handle option \<Rightarrow> Compression \<Rightarrow> ('cb, 'z) tstate_scheme \<Rightarrow> ErrorCode \<times> ('cb, 'z) tstate_scheme" where
  "tc_SendInitialMetadata metadata c s =
     (if tc_done s then (EC_Closed, s)
      else if y_initial_metadata_sent (s_typed s) then (EC_InvalidState, s)
      else mark_initial (tc_command (ServerCall_SendInitialMetadata metadata c) s))"

definition EnsureInitialMetadata ::
  "Compression \<Rightarrow> ('cb, 'z) tstate_scheme \<Rightarrow> ErrorCode \<times> ('cb, 'z) tstate_scheme" where
  "EnsureInitialMetadata c s =
     (if y_initial_metadata_sent (s_typed s) then (EC_Ok, s)
      else mark_initial (tc_command (ServerCall_SendInitialMetadata None c) s))"

definition tc_Send ::
  "string \<Rightarrow> Compression \<Rightarrow> ('cb, 'z) tstate_scheme \<Rightarrow> ErrorCode \<times> ('cb, 'z) tstate_scheme" where
  "tc_Send payload c s =
     (if tc_done s then (EC_Closed, s)
      else let (metadata_error, s1) = EnsureInitialMetadata c s in
      if \<not> Error_ok metadata_error then (metadata_error, s1)
      else let (error, s2) = tc_command (ServerCall_Send payload c) s1 in
      (error, if error = EC_WouldBlock then s2\<lparr>s_typed := (s_typed s2)\<lparr>y_writable := False\<rparr>\<rparr> else s2))"

definition tc_Finish ::
  "Status \<Rightarrow> md_handle option \<Rightarrow> ('cb, 'z) tstate_scheme \<Rightarrow> ErrorCode \<times> ('cb, 'z) tstate_scheme" where
  "tc_Finish st trailing s =
     (if tc_done s then (EC_Closed, s)
      else let (metadata_error, s1) = EnsureInitialMetadata Identity s in
      if \<not> Error_ok metadata_error then (metadata_error, s1)
      else let (error, s2) = tc_command (ServerCall_Finish st trailing) s1 in
      (error, if Error_ok error then s2\<lparr>s_typed := (s_typed s2)\<lparr>y_finish_submitted := True\<rparr>\<rparr> else s2))"

definition tc_ResumeReceive :: "('cb, 'z) tstate_scheme \<Rightarrow> ErrorCode \<times> ('cb, 'z) tstate_scheme" where
  "tc_ResumeReceive s =
     (if tc_done s then (EC_Closed, s) else tc_command ServerCall_ResumeReceive s)"

text \<open>Registration of callbacks: the result is the callback to run at once.\<close>

definition SetOnWritable ::
  "'cb option \<Rightarrow> ('cb, 'z) tstate_scheme \<Rightarrow> 'cb option \<times> ('cb, 'z) tstate_scheme" where
  "SetOnWritable callback s =
     (let y = s_typed s; invoke = (y_writable y \<and> \<not> y_cancelled y \<and> \<not> y_terminal y);
          s' = (if \<not> y_terminal y then s\<lparr>s_typed := y\<lparr>y_on_writable := callback\<rparr>\<rparr> else s)
      in (if invoke then callback else None, s'))"

definition SetOnCancel ::
  "'cb option \<Rightarrow> ('cb, 'z) tstate_scheme \<Rightarrow> 'cb option \<times> ('cb, 'z) tstate_scheme" where
  "SetOnCancel callback s =
     (let y = s_typed s; invoke = y_cancelled y;
          s' = (if \<not> invoke \<and> \<not> y_terminal y then s\<lparr>s_typed := y\<lparr>y_on_cancel := callback\<rparr>\<rparr> else s)
      in (if invoke then callback else None, s'))"

text \<open>The terminal callback takes the reason along.\<close>

definition SetOnTerminal ::
  "'cb option \<Rightarrow> ('cb, 'z) tstate_scheme \<Rightarrow> ('cb \<times> ServerTerminalReason) option \<times> ('cb, 'z) tstate_scheme" where
  "SetOnTerminal callback s =
     (let y = s_typed s in
      case y_terminal_reason y of
        None \<Rightarrow> (None, s\<lparr>s_typed := y\<lparr>y_on_terminal := callback\<rparr>\<rparr>)
      | Some reason \<Rightarrow> (map_option (\<lambda>cb. (cb, reason)) callback, s))"

text \<open>The reactor's callbacks; each notifies \<^verbatim>\<open>writable_cv_\<close>.\<close>

definition tc_OnWritable :: "('cb, 'z) tstate_scheme \<Rightarrow> 'cb option \<times> ('cb, 'z) tstate_scheme" where
  "tc_OnWritable s =
     (let y = s_typed s in (y_on_writable y, s\<lparr>s_typed := y\<lparr>y_writable := True\<rparr>\<rparr>))"

definition tc_OnCancel :: "('cb, 'z) tstate_scheme \<Rightarrow> 'cb option \<times> ('cb, 'z) tstate_scheme" where
  "tc_OnCancel s =
     (let y = s_typed s in (y_on_cancel y, s\<lparr>s_typed := y\<lparr>y_cancelled := True\<rparr>\<rparr>))"

definition tc_OnTerminal ::
  "ServerTerminalReason \<Rightarrow> ('cb, 'z) tstate_scheme \<Rightarrow> ('cb \<times> ServerTerminalReason) option \<times> ('cb, 'z) tstate_scheme" where
  "tc_OnTerminal reason s =
     (let y = s_typed s in
      (map_option (\<lambda>cb. (cb, reason)) (y_on_terminal y),
       s\<lparr>s_native := grpc_lite_server_call_destroy (y_call y) (s_native s),
         s_typed := y\<lparr>y_terminal := True, y_terminal_reason := Some reason, y_call := None,
                      y_on_writable := None, y_on_cancel := None, y_on_terminal := None\<rparr>\<rparr>))"

definition writable_or_over :: "('cb, 'z) tstate_scheme \<Rightarrow> bool" where
  "writable_or_over s \<longleftrightarrow> y_writable (s_typed s) \<or> y_cancelled (s_typed s) \<or> y_terminal (s_typed s)"

definition writable_now :: "('cb, 'z) tstate_scheme \<Rightarrow> bool" where
  "writable_now s \<longleftrightarrow> y_writable (s_typed s) \<and> \<not> y_cancelled (s_typed s) \<and> \<not> y_terminal (s_typed s)"

subsection \<open>What the other threads do\<close>

text \<open>
  A step of a call: an operation of some application thread, a step of the event loop on the
  native call, or a callback the event loop owes. The result is the new state, the callbacks of
  the application that run, with the reason for a terminal one, and whether the condition
  variable was notified.
\<close>

datatype 'cb tstep =
    A_SendInitialMetadata "md_handle option" Compression
  | A_Send string Compression
  | A_Finish Status "md_handle option"
  | A_ResumeReceive
  | A_SetOnWritable "'cb option"
  | A_SetOnCancel "'cb option"
  | A_SetOnTerminal "'cb option"
  | N_space
  | N_resume
  | N_cancel
  | N_fail
  | N_retire ServerTerminalReason
  | C_writable
  | C_cancel
  | C_terminal

definition on_native :: "(native \<Rightarrow> native) \<Rightarrow> ('cb, 'z) tstate_scheme \<Rightarrow> ('cb, 'z) tstate_scheme" where
  "on_native f s = s\<lparr>s_native := f (s_native s)\<rparr>"

definition plain :: "'cb option \<Rightarrow> ('cb \<times> ServerTerminalReason option) list" where
  "plain c = (case c of None \<Rightarrow> [] | Some cb \<Rightarrow> [(cb, None)])"

definition reasoned :: "('cb \<times> ServerTerminalReason) option \<Rightarrow> ('cb \<times> ServerTerminalReason option) list" where
  "reasoned c = (case c of None \<Rightarrow> [] | Some (cb, r) \<Rightarrow> [(cb, Some r)])"

fun tc_step ::
  "'cb tstep \<Rightarrow> ('cb, 'z) tstate_scheme \<Rightarrow> ('cb, 'z) tstate_scheme \<times> ('cb \<times> ServerTerminalReason option) list \<times> bool" where
  "tc_step (A_SendInitialMetadata m c) s = (snd (tc_SendInitialMetadata m c s), [], False)"
| "tc_step (A_Send p c) s = (snd (tc_Send p c s), [], False)"
| "tc_step (A_Finish st m) s = (snd (tc_Finish st m s), [], False)"
| "tc_step A_ResumeReceive s = (snd (tc_ResumeReceive s), [], False)"
| "tc_step (A_SetOnWritable cb) s = (let (i, s') = SetOnWritable cb s in (s', plain i, False))"
| "tc_step (A_SetOnCancel cb) s = (let (i, s') = SetOnCancel cb s in (s', plain i, False))"
| "tc_step (A_SetOnTerminal cb) s = (let (i, s') = SetOnTerminal cb s in (s', reasoned i, False))"
| "tc_step N_space s = (on_native releaseOutboundReservation s, [], False)"
| "tc_step N_resume s = (on_native process_resume s, [], False)"
| "tc_step N_cancel s = (on_native cancelStreaming s, [], False)"
| "tc_step N_fail s = (on_native failStreaming s, [], False)"
| "tc_step (N_retire r) s = (on_native (retireStream r) s, [], False)"
| "tc_step C_writable s =
     (if n_writable_due (s_native s)
      then let (i, s') = tc_OnWritable (on_native (\<lambda>n. n\<lparr>n_writable_due := False\<rparr>) s) in (s', plain i, True)
      else (s, [], False))"
| "tc_step C_cancel s =
     (if n_cancel_due (s_native s)
      then let (i, s') = tc_OnCancel (on_native (\<lambda>n. n\<lparr>n_cancel_due := False\<rparr>) s) in (s', plain i, True)
      else (s, [], False))"
| "tc_step C_terminal s =
     (case n_terminal_due (s_native s) of None \<Rightarrow> (s, [], False)
      | Some r \<Rightarrow>
          let (i, s') = tc_OnTerminal r (on_native (\<lambda>n. n\<lparr>n_terminal_due := None\<rparr>) s) in (s', reasoned i, True))"

text \<open>A history: steps of any number of threads in the order in which they got the mutex.\<close>

fun tc_run ::
  "'cb tstep list \<Rightarrow> ('cb, 'z) tstate_scheme \<Rightarrow> ('cb, 'z) tstate_scheme \<times> ('cb \<times> ServerTerminalReason option) list" where
  "tc_run [] s = (s, [])"
| "tc_run (a # as) s =
     (let (s1, i1, _) = tc_step a s; (s2, i2) = tc_run as s1 in (s2, i1 @ i2))"

definition tc_handle :: "('cb tstep, ('cb, 'z) tstate_scheme) handler" where
  "tc_handle a s = (let (s', _, notified) = tc_step a s in (s', notified))"

text \<open>
  The two operations beside which other threads run take what those threads do as a handler:
  \<^const>\<open>tc_handle\<close>, or that of a call with a request stream.
\<close>

definition WaitForWritable ::
  "('e, ('cb, 'z) tstate_scheme) handler \<Rightarrow> ('cb, 'z) tstate_scheme \<Rightarrow> 'e list list \<Rightarrow>
   (bool \<times> ('cb, 'z) tstate_scheme \<times> 'e list list) option" where
  "WaitForWritable h s bs =
     do { (s', bs') \<leftarrow> cv_wait h writable_or_over s bs; Some (writable_now s', s', bs') }"

text \<open>
  \<^verbatim>\<open>FinishResponse\<close>: up to three operations of the call, other threads in between;
  \<open>serialize\<close> is the message's \<^verbatim>\<open>SerializeToString\<close>.
\<close>

definition FinishResponse ::
  "('e, ('cb, 'z) tstate_scheme) handler \<Rightarrow> ('m \<Rightarrow> string option) \<Rightarrow> 'm \<Rightarrow> Status \<Rightarrow> md_handle option \<Rightarrow> Compression \<Rightarrow>
   ('cb, 'z) tstate_scheme \<Rightarrow> 'e list list \<Rightarrow> ErrorCode \<times> ('cb, 'z) tstate_scheme \<times> 'e list list" where
  "FinishResponse h serialize response st trailing c s bs =
     (if \<not> Status_ok st
      then let (e, s') = tc_Finish st trailing s in (e, s', bs)
      else case serialize response of
        None \<Rightarrow>
          let (e, s') = tc_Finish \<lparr>s_code = SC_Internal, s_message = ''failed to serialize response''\<rparr> trailing s
          in (e, s', bs)
      | Some payload \<Rightarrow>
          let (send_error, s1) = tc_Send payload c s; (s2, bs2) = preempt h s1 bs in
          if \<not> Error_ok send_error
          then let (finish_error, s3) = tc_Finish (SendErrorStatus send_error) trailing s2
               in (if Error_ok finish_error then send_error else finish_error, s3, bs2)
          else let (e, s3) = tc_Finish Status_default trailing s2 in (e, s3, bs2))"

subsection \<open>Invariants of a call\<close>

text \<open>
  A property of the call that every step keeps holds after every history, and across the
  preemptions and waits of the operations that other threads run beside.
\<close>

locale call_law =
  fixes I :: "('cb, 'z) tstate_scheme \<Rightarrow> bool"
  assumes step: "I s \<Longrightarrow> I (fst (tc_step a s))"
begin

lemma run: "I s \<Longrightarrow> I (fst (tc_run as s))"
  by (induction as arbitrary: s) (auto simp: Let_def split_beta step)

lemma handle: "I s \<Longrightarrow> I (fst (tc_handle a s))"
  by (simp add: tc_handle_def Let_def split_beta step)

lemma preempted: "I s \<Longrightarrow> I (fst (preempt tc_handle s bs))"
  by (rule preempt_inv) (auto intro: handle)

lemma waited: "I s \<Longrightarrow> cv_wait tc_handle p s bs = Some (s', bs') \<Longrightarrow> I s'"
  by (rule cv_wait_inv [where h = tc_handle]) (auto intro: handle)

lemma operations:
  assumes "I s"
  shows "I (snd (tc_SendInitialMetadata m c s))" "I (snd (tc_Send p c s))" "I (snd (tc_Finish st m s))"
    "I (snd (tc_ResumeReceive s))" "I (snd (SetOnWritable cb s))" "I (snd (SetOnCancel cb s))"
    "I (snd (SetOnTerminal cb s))"
  using step [OF assms, of "A_SendInitialMetadata m c"] step [OF assms, of "A_Send p c"]
    step [OF assms, of "A_Finish st m"] step [OF assms, of A_ResumeReceive]
    step [OF assms, of "A_SetOnWritable cb"] step [OF assms, of "A_SetOnCancel cb"]
    step [OF assms, of "A_SetOnTerminal cb"]
  by (simp_all add: Let_def split_beta)

end

text \<open>
  The response side of a call as an automaton over the commands sent to the native call and
  their answers: the initial metadata first, then messages, then the final status; a refused
  command changes nothing; \<^const>\<open>None\<close> is a command out of order.
\<close>

datatype phase = PH_Fresh | PH_Open | PH_Done

fun phase_step :: "phase option \<Rightarrow> server_cmd \<times> ErrorCode \<Rightarrow> phase option" where
  "phase_step (Some PH_Fresh) (S_initial _ _, e) = Some (if Error_ok e then PH_Open else PH_Fresh)"
| "phase_step (Some PH_Open) (S_send _ _, e) = Some PH_Open"
| "phase_step (Some PH_Open) (S_finish _ _, e) = Some (if Error_ok e then PH_Done else PH_Open)"
| "phase_step (Some PH_Fresh) (S_resume, e) = Some PH_Fresh"
| "phase_step (Some PH_Open) (S_resume, e) = Some PH_Open"
| "phase_step _ _ = None"

definition phases :: "(server_cmd \<times> ErrorCode) list \<Rightarrow> phase option" where
  "phases = foldl phase_step (Some PH_Fresh)"

definition call_phase :: "'cb tcs \<Rightarrow> phase" where
  "call_phase y = (if y_finish_submitted y then PH_Done
                   else if y_initial_metadata_sent y then PH_Open else PH_Fresh)"

lemma phases_Nil [simp]: "phases [] = Some PH_Fresh"
  by (simp add: phases_def)

lemma phases_append [simp]: "phases (l @ l') = foldl phase_step (phases l) l'"
  by (simp add: phases_def)

definition in_protocol :: "('cb, 'z) tstate_scheme \<Rightarrow> bool" where
  "in_protocol s \<longleftrightarrow>
     (y_finish_submitted (s_typed s) \<longrightarrow> y_initial_metadata_sent (s_typed s)) \<and>
     phases (n_log (s_native s)) = Some (call_phase (s_typed s))"

lemmas typed_defs =
  tc_SendInitialMetadata_def EnsureInitialMetadata_def mark_initial_def tc_command_def tc_Send_def
  tc_Finish_def tc_ResumeReceive_def SetOnWritable_def SetOnCancel_def SetOnTerminal_def
  tc_OnWritable_def tc_OnCancel_def tc_OnTerminal_def on_native_def tc_done_def

lemmas reactor_defs =
  releaseOutboundReservation_def process_resume_def cancelStreaming_def failStreaming_def
  retireStream_def grpc_lite_server_call_destroy_def

lemma native_log [simp]:
  "n_log (releaseOutboundReservation n) = n_log n" "n_log (process_resume n) = n_log n"
  "n_log (cancelStreaming n) = n_log n" "n_log (failStreaming n) = n_log n"
  "n_log (retireStream r n) = n_log n" "n_log (grpc_lite_server_call_destroy c n) = n_log n"
  by (simp_all add: reactor_defs split: option.split)

interpretation protocol: call_law in_protocol
proof (unfold_locales, goal_cases)
  case (1 s a)
  then show ?case
    by (cases a) (auto simp: in_protocol_def call_phase_def typed_defs server_command_defs Let_def
        Error_ok_def split: option.split)
qed


text \<open>
  The guards of the native call are met: it is in explicit mode, and as long as it is open it
  has headers exactly when the call object sent them.
\<close>

definition guards_met :: "('cb, 'z) tstate_scheme \<Rightarrow> bool" where
  "guards_met s \<longleftrightarrow>
     (let n = s_native s; y = s_typed s in
      n_explicit n \<and> (\<forall>i. n_resource n i \<noteq> EC_InvalidState) \<and>
      (\<not> call_closed n \<longrightarrow> n_headers_queued n = y_initial_metadata_sent y) \<and>
      (\<forall>(k, e) \<in> set (n_log n). e = EC_InvalidState \<longrightarrow> k = S_resume))"

lemma native_config [simp]:
  "n_explicit (releaseOutboundReservation n) = n_explicit n" "n_explicit (process_resume n) = n_explicit n"
  "n_explicit (cancelStreaming n) = n_explicit n" "n_explicit (failStreaming n) = n_explicit n"
  "n_explicit (retireStream r n) = n_explicit n" "n_explicit (grpc_lite_server_call_destroy c n) = n_explicit n"
  "n_resource (releaseOutboundReservation n) = n_resource n" "n_resource (process_resume n) = n_resource n"
  "n_resource (cancelStreaming n) = n_resource n" "n_resource (failStreaming n) = n_resource n"
  "n_resource (retireStream r n) = n_resource n" "n_resource (grpc_lite_server_call_destroy c n) = n_resource n"
  by (simp_all add: reactor_defs split: option.split)

lemma closed_native [simp]:
  "call_closed (releaseOutboundReservation n) = call_closed n" "call_closed (process_resume n) = call_closed n"
  "call_closed (cancelStreaming n) = (call_closed n \<or> \<not> n_cancelled n \<and> \<not> n_terminal n)"
  "call_closed (failStreaming n)" "call_closed (grpc_lite_server_call_destroy c n) = call_closed n"
  "call_closed (retireStream r n) = (call_closed n \<or> \<not> n_terminal n \<and> \<not> n_cancel_due n)"
  "call_closed (n_record k e n) = call_closed n"
  by (auto simp: reactor_defs call_closed_def split: option.split)

lemma headers_native [simp]:
  "n_headers_queued (releaseOutboundReservation n) = n_headers_queued n"
  "n_headers_queued (process_resume n) = n_headers_queued n"
  "n_headers_queued (cancelStreaming n) = n_headers_queued n"
  "n_headers_queued (grpc_lite_server_call_destroy c n) = n_headers_queued n"
  "n_headers_queued (retireStream r n) = n_headers_queued n"
  by (auto simp: reactor_defs split: option.split)

lemma closed_update [simp]:
  "call_closed (n\<lparr>n_headers_queued := x\<rparr>) = call_closed n" "call_closed (n\<lparr>n_resuming := x\<rparr>) = call_closed n"
  "call_closed (n\<lparr>n_writable_requested := x\<rparr>) = call_closed n" "call_closed (n\<lparr>n_writable_due := x\<rparr>) = call_closed n"
  "call_closed (n\<lparr>n_cancel_due := x\<rparr>) = call_closed n" "call_closed (n\<lparr>n_terminal_due := t\<rparr>) = call_closed n"
  by (auto simp: call_closed_def)

lemma resource_InvalidState:
  "\<forall>i. n_resource n i \<noteq> EC_InvalidState \<Longrightarrow> resource n \<noteq> EC_InvalidState"
  by (simp add: resource_def memory_def)

interpretation guards: call_law guards_met
proof (unfold_locales, goal_cases)
  case (1 s a)
  then show ?case
    by (cases a) (auto simp: guards_met_def typed_defs server_command_defs Let_def
        Error_ok_def resource_def memory_def call_closed_def [of "n_finish_queued_update _ _"] split: option.split)
qed

text \<open>
  The order of the callbacks: a cancel callback is due only before the call object saw it and
  before the end, the terminal callback comes once, and nothing is due afterwards.
\<close>

definition orderly :: "('cb, 'z) tstate_scheme \<Rightarrow> bool" where
  "orderly s \<longleftrightarrow>
     (let n = s_native s; y = s_typed s in
      (n_cancel_due n \<longrightarrow> n_cancelled n \<and> \<not> y_cancelled y \<and> \<not> n_terminal n) \<and>
      (y_cancelled y \<longrightarrow> n_cancelled n) \<and>
      (n_terminal_due n \<noteq> None \<longrightarrow> n_terminal n \<and> \<not> y_terminal y) \<and>
      (y_terminal y \<longrightarrow> n_terminal n) \<and>
      (y_terminal_reason y = None \<longleftrightarrow> \<not> y_terminal y))"

lemma released_flags [simp]:
  "n_cancel_due (grpc_lite_server_call_destroy c n) = n_cancel_due n"
  "n_cancelled (grpc_lite_server_call_destroy c n) = n_cancelled n"
  "n_terminal (grpc_lite_server_call_destroy c n) = n_terminal n"
  "n_terminal_due (grpc_lite_server_call_destroy c n) = n_terminal_due n"
  "n_writable_requested (grpc_lite_server_call_destroy c n) = n_writable_requested n"
  "n_writable_due (grpc_lite_server_call_destroy c n) = n_writable_due n"
  by (simp_all add: grpc_lite_server_call_destroy_def split: option.split)

interpretation order: call_law orderly
proof (unfold_locales, goal_cases)
  case (1 s a)
  then show ?case
    by (cases a) (auto simp: orderly_def typed_defs server_command_defs reactor_defs Let_def split: option.splits)
qed

text \<open>A writer that was told to wait is registered for a wake-up.\<close>

definition wake_pending :: "('cb, 'z) tstate_scheme \<Rightarrow> bool" where
  "wake_pending s \<longleftrightarrow>
     (\<not> y_writable (s_typed s) \<longrightarrow> n_writable_requested (s_native s) \<or> n_writable_due (s_native s))"

interpretation wake: call_law wake_pending
proof (unfold_locales, goal_cases)
  case (1 s a)
  then show ?case
    by (cases a) (auto simp: wake_pending_def typed_defs server_command_defs reactor_defs Let_def split: option.splits)
qed

interpretation writable_wait: monitor tc_handle writable_or_over
proof (unfold_locales, goal_cases)
  case (1 s a)
  then show ?case
    by (cases a) (auto simp: writable_or_over_def tc_handle_def typed_defs server_command_defs reactor_defs
        Let_def split: option.splits if_splits)
qed

definition over :: "('cb, 'z) tstate_scheme \<Rightarrow> bool" where
  "over s \<longleftrightarrow> y_terminal (s_typed s)"

interpretation over_wait: stable_monitor tc_handle over
proof (unfold_locales, goal_cases)
  case (1 s a)
  then show ?case
    by (cases a) (auto simp: over_def tc_handle_def typed_defs server_command_defs reactor_defs
        Let_def split: option.splits if_splits)
next
  case (2 s a)
  then show ?case
    by (cases a) (auto simp: over_def tc_handle_def typed_defs server_command_defs reactor_defs
        Let_def split: option.splits if_splits)
qed

definition ending :: "('cb, 'z) tstate_scheme \<Rightarrow> bool" where
  "ending s \<longleftrightarrow> n_terminal (s_native s) \<and> (n_terminal_due (s_native s) \<noteq> None \<or> over s)"

interpretation ending: call_law ending
proof (unfold_locales, goal_cases)
  case (1 s a)
  then show ?case
    by (cases a) (auto simp: ending_def over_def typed_defs server_command_defs reactor_defs
        Let_def split: option.splits if_splits)
qed

text \<open>A call at its start: the native call and the object that owns its handle.\<close>

definition typed_start :: "nat \<Rightarrow> (nat \<Rightarrow> ErrorCode) \<Rightarrow> bool \<Rightarrow> ServerCall \<Rightarrow> 'cb tstate" where
  "typed_start i r paused call =
     \<lparr>s_native = startStreaming i r paused True, s_typed = TypedCallState_new call\<rparr>"

lemma start_laws [simp]:
  "in_protocol (typed_start i r paused call)" "orderly (typed_start i r paused call)"
  "wake_pending (typed_start i r paused call)"
  "(\<forall>k. r k \<noteq> EC_InvalidState) \<Longrightarrow> guards_met (typed_start i r paused call)"
  by (simp_all add: typed_start_def startStreaming_def TypedCallState_new_def in_protocol_def
      call_phase_def orderly_def wake_pending_def guards_met_def)

lemma WaitForWritable_returns:
  assumes "ending s" and "C_terminal \<in> set b" "b \<in> set bs"
  shows "WaitForWritable tc_handle s bs \<noteq> None"
proof -
  have e: "over (fst (tc_handle C_terminal s))" if "ending s" for s :: "('cb, 'z) tstate_scheme"
    using that by (auto simp: ending_def over_def tc_handle_def typed_defs Let_def split: option.splits)
  have "cv_wait tc_handle over s bs \<noteq> None"
    by (rule over_wait.wait_returns [where J = ending and e = C_terminal])
      (use assms e ending.handle in \<open>auto simp: promised_def\<close>)
  then have "cv_wait tc_handle writable_or_over s bs \<noteq> None"
    by (rule over_wait.weaker_wait_returns [OF writable_wait.monitor_axioms, rotated])
      (simp add: over_def writable_or_over_def)
  then show ?thesis by (auto simp: WaitForWritable_def)
qed

subsection \<open>Properties\<close>

text \<open>
  C1. Whatever any number of threads do with a typed call, the native call only ever sees a
  well-formed response: the commands it receives run through the automaton initial metadata,
  messages, final status, a command is never issued in the wrong phase or after an accepted final
  status, and the flags of \<^verbatim>\<open>TypedCallState\<close> tell the phase. In particular the guards
  \<^verbatim>\<open>InitialMetadataAlreadySent\<close> and \<^verbatim>\<open>InitialMetadataRequired\<close> of the native call never fire:
  no response command is answered with an invalid state.
\<close>

theorem typed_call_protocol:
  assumes "\<forall>k. r k \<noteq> EC_InvalidState"
  shows "let s = fst (tc_run as (typed_start i r paused call)) in
    phases (n_log (s_native s)) = Some (call_phase (s_typed s)) \<and>
    (\<forall>(k, e) \<in> set (n_log (s_native s)). e = EC_InvalidState \<longrightarrow> k = S_resume)"
proof -
  have "in_protocol (fst (tc_run as (typed_start i r paused call)))"
    by (rule protocol.run) simp
  moreover have "guards_met (fst (tc_run as (typed_start i r paused call)))"
    by (rule guards.run) (use assms in simp)
  ultimately show ?thesis by (simp add: in_protocol_def guards_met_def Let_def)
qed

definition sample_history :: "nat tstep list" where
  "sample_history = [A_SetOnCancel (Some 7), A_Send ''a'' Gzip, A_Send ''b'' Gzip, N_space, C_writable,
     A_SetOnTerminal (Some 8), N_cancel, A_Finish Status_default None, C_cancel, N_retire R_PeerCancelled, C_terminal,
     A_Send ''c'' Gzip]"

definition busy_once :: "nat \<Rightarrow> ErrorCode" where
  "busy_once k = (if k = 2 then EC_WouldBlock else EC_Ok)"

theorem typed_call_protocol_witness:
  "let s = fst (tc_run sample_history (typed_start 5 busy_once False (Some 0))) in
   n_log (s_native s) =
     [(S_initial [] Gzip, EC_Ok), (S_send ''a'' Gzip, EC_Ok), (S_send ''b'' Gzip, EC_WouldBlock),
      (S_finish Status_default [], EC_Closed)] \<and>
   phases (n_log (s_native s)) = Some PH_Open"
proof -
  have "let s = fst (tc_run sample_history (typed_start 5 busy_once False (Some 0))) in
    n_log (s_native s) =
     [(S_initial [] Gzip, EC_Ok), (S_send ''a'' Gzip, EC_Ok), (S_send ''b'' Gzip, EC_WouldBlock),
      (S_finish Status_default [], EC_Closed)] \<and> call_phase (s_typed s) = PH_Open"
    by code_simp
  with typed_call_protocol [of busy_once sample_history 5 False "Some 0"] show ?thesis
    by (simp add: busy_once_def Let_def)
qed

text \<open>Registration of a callback, and the callbacks that run.\<close>

definition registers :: "'cb \<Rightarrow> 'cb tstep \<Rightarrow> bool" where
  "registers cb a \<longleftrightarrow>
     a = A_SetOnWritable (Some cb) \<or> a = A_SetOnCancel (Some cb) \<or> a = A_SetOnTerminal (Some cb)"

fun sets_on_cancel :: "'cb tstep \<Rightarrow> bool" where
  "sets_on_cancel (A_SetOnCancel _) = True"
| "sets_on_cancel _ = False"

fun sets_on_terminal :: "'cb tstep \<Rightarrow> bool" where
  "sets_on_terminal (A_SetOnTerminal _) = True"
| "sets_on_terminal _ = False"

definition ran :: "'cb \<Rightarrow> ('cb \<times> ServerTerminalReason option) list \<Rightarrow> ('cb \<times> ServerTerminalReason option) list" where
  "ran cb is = filter (\<lambda>i. fst i = cb) is"

definition unregistered :: "'cb \<Rightarrow> ('cb, 'z) tstate_scheme \<Rightarrow> bool" where
  "unregistered cb s \<longleftrightarrow> y_on_writable (s_typed s) \<noteq> Some cb \<and> y_on_cancel (s_typed s) \<noteq> Some cb \<and>
     y_on_terminal (s_typed s) \<noteq> Some cb"

lemma ran_append [simp]: "ran cb (is @ js) = ran cb is @ ran cb js"
  by (simp add: ran_def)

lemma ran_Nil [simp]: "ran cb [] = []"
  by (simp add: ran_def)

lemma ran_plain [simp]: "ran cb (plain c) = (if c = Some cb then [(cb, None)] else [])"
  by (simp add: ran_def plain_def split: option.split)

lemma ran_reasoned [simp]:
  "ran cb (reasoned (map_option (\<lambda>cb. (cb, r)) c)) = (if c = Some cb then [(cb, Some r)] else [])"
  "ran cb (reasoned None) = []" "ran cb (reasoned (Some (cb', r))) = (if cb' = cb then [(cb, Some r)] else [])"
  by (cases c) (simp_all add: ran_def reasoned_def)

text \<open>The commands leave the callbacks and what the reactor reported alone.\<close>

lemmas callback_defs =
  SetOnWritable_def SetOnCancel_def SetOnTerminal_def tc_OnWritable_def tc_OnCancel_def tc_OnTerminal_def

lemma command_frame [frame_simps]:
  "y_call (s_typed (snd (tc_SendInitialMetadata m c s))) = y_call (s_typed s)"
  "y_call (s_typed (snd (tc_Send p c s))) = y_call (s_typed s)"
  "y_call (s_typed (snd (tc_Finish st m s))) = y_call (s_typed s)"
  "y_call (s_typed (snd (tc_ResumeReceive s))) = y_call (s_typed s)"
  "y_on_writable (s_typed (snd (tc_SendInitialMetadata m c s))) = y_on_writable (s_typed s)"
  "y_on_writable (s_typed (snd (tc_Send p c s))) = y_on_writable (s_typed s)"
  "y_on_writable (s_typed (snd (tc_Finish st m s))) = y_on_writable (s_typed s)"
  "y_on_writable (s_typed (snd (tc_ResumeReceive s))) = y_on_writable (s_typed s)"
  "y_on_cancel (s_typed (snd (tc_SendInitialMetadata m c s))) = y_on_cancel (s_typed s)"
  "y_on_cancel (s_typed (snd (tc_Send p c s))) = y_on_cancel (s_typed s)"
  "y_on_cancel (s_typed (snd (tc_Finish st m s))) = y_on_cancel (s_typed s)"
  "y_on_cancel (s_typed (snd (tc_ResumeReceive s))) = y_on_cancel (s_typed s)"
  "y_on_terminal (s_typed (snd (tc_SendInitialMetadata m c s))) = y_on_terminal (s_typed s)"
  "y_on_terminal (s_typed (snd (tc_Send p c s))) = y_on_terminal (s_typed s)"
  "y_on_terminal (s_typed (snd (tc_Finish st m s))) = y_on_terminal (s_typed s)"
  "y_on_terminal (s_typed (snd (tc_ResumeReceive s))) = y_on_terminal (s_typed s)"
  "y_cancelled (s_typed (snd (tc_SendInitialMetadata m c s))) = y_cancelled (s_typed s)"
  "y_cancelled (s_typed (snd (tc_Send p c s))) = y_cancelled (s_typed s)"
  "y_cancelled (s_typed (snd (tc_Finish st m s))) = y_cancelled (s_typed s)"
  "y_cancelled (s_typed (snd (tc_ResumeReceive s))) = y_cancelled (s_typed s)"
  "y_terminal (s_typed (snd (tc_SendInitialMetadata m c s))) = y_terminal (s_typed s)"
  "y_terminal (s_typed (snd (tc_Send p c s))) = y_terminal (s_typed s)"
  "y_terminal (s_typed (snd (tc_Finish st m s))) = y_terminal (s_typed s)"
  "y_terminal (s_typed (snd (tc_ResumeReceive s))) = y_terminal (s_typed s)"
  "y_terminal_reason (s_typed (snd (tc_SendInitialMetadata m c s))) = y_terminal_reason (s_typed s)"
  "y_terminal_reason (s_typed (snd (tc_Send p c s))) = y_terminal_reason (s_typed s)"
  "y_terminal_reason (s_typed (snd (tc_Finish st m s))) = y_terminal_reason (s_typed s)"
  "y_terminal_reason (s_typed (snd (tc_ResumeReceive s))) = y_terminal_reason (s_typed s)"
  by (simp_all add: typed_defs Let_def split_beta)

lemma native_frame [frame_simps]: "s_typed (on_native f s) = s_typed s"
  by (simp add: on_native_def)

lemma unregistered_step:
  assumes "unregistered cb s" "\<not> registers cb a"
  shows "unregistered cb (fst (tc_step a s)) \<and> ran cb (fst (snd (tc_step a s))) = []"
  using assms
  by (cases a) (auto simp: unregistered_def registers_def frame_simps callback_defs Let_def split: option.splits)

lemma unregistered_run:
  assumes "unregistered cb s" "\<forall>a \<in> set as. \<not> registers cb a"
  shows "unregistered cb (fst (tc_run as s)) \<and> ran cb (snd (tc_run as s)) = []"
  using assms
proof (induction as arbitrary: s)
  case (Cons a as)
  then have "unregistered cb (fst (tc_step a s)) \<and> ran cb (fst (snd (tc_step a s))) = []"
    by (intro unregistered_step) auto
  with Cons show ?case by (simp add: Let_def split_beta)
qed simp

lemma tc_run_append:
  "tc_run (as @ bs) s = (let (s1, i1) = tc_run as s; (s2, i2) = tc_run bs s1 in (s2, i1 @ i2))"
  by (induction as arbitrary: s) (auto simp: Let_def split_beta)

text \<open>A registered cancel callback, and a registered terminal callback, between their events.\<close>

definition cancel_armed :: "'cb \<Rightarrow> ('cb, 'z) tstate_scheme \<Rightarrow> bool" where
  "cancel_armed cb s \<longleftrightarrow> orderly s \<and> y_on_writable (s_typed s) \<noteq> Some cb \<and> y_on_terminal (s_typed s) \<noteq> Some cb \<and>
     (\<not> y_cancelled (s_typed s) \<and> \<not> y_terminal (s_typed s) \<longrightarrow> y_on_cancel (s_typed s) = Some cb)"

lemma cancel_armed_step:
  assumes "cancel_armed cb s" "\<not> registers cb a" "\<not> sets_on_cancel a"
  shows "cancel_armed cb (fst (tc_step a s)) \<and>
    ran cb (fst (snd (tc_step a s))) =
      (if y_cancelled (s_typed (fst (tc_step a s))) \<and> \<not> y_cancelled (s_typed s) then [(cb, None)] else []) \<and>
    (y_cancelled (s_typed s) \<longrightarrow> y_cancelled (s_typed (fst (tc_step a s))))"
proof -
  note o = assms(1) [unfolded cancel_armed_def]
  then have "n_cancel_due (s_native s) \<Longrightarrow> \<not> y_cancelled (s_typed s) \<and> \<not> y_terminal (s_typed s)"
    by (auto simp: orderly_def Let_def)
  moreover have "orderly (fst (tc_step a s))" using o by (intro order.step) simp
  ultimately show ?thesis using o assms(2,3) unfolding cancel_armed_def
    by (cases a) (simp_all add: registers_def frame_simps callback_defs Let_def split: option.split)
qed

lemma cancel_armed_run:
  assumes "cancel_armed cb s" "\<forall>a \<in> set as. \<not> registers cb a \<and> \<not> sets_on_cancel a"
  shows "cancel_armed cb (fst (tc_run as s)) \<and>
    ran cb (snd (tc_run as s)) =
      (if y_cancelled (s_typed (fst (tc_run as s))) \<and> \<not> y_cancelled (s_typed s) then [(cb, None)] else []) \<and>
    (y_cancelled (s_typed s) \<longrightarrow> y_cancelled (s_typed (fst (tc_run as s))))"
  using assms
proof (induction as arbitrary: s)
  case (Cons a as)
  have *: "\<not> registers cb a" "\<not> sets_on_cancel a" using Cons.prems(2) by simp_all
  note st = cancel_armed_step [OF Cons.prems(1) *]
  have IH: "cancel_armed cb (fst (tc_run as (fst (tc_step a s)))) \<and>
    ran cb (snd (tc_run as (fst (tc_step a s)))) =
      (if y_cancelled (s_typed (fst (tc_run as (fst (tc_step a s))))) \<and> \<not> y_cancelled (s_typed (fst (tc_step a s)))
       then [(cb, None)] else []) \<and>
    (y_cancelled (s_typed (fst (tc_step a s))) \<longrightarrow> y_cancelled (s_typed (fst (tc_run as (fst (tc_step a s))))))"
    by (rule Cons.IH) (use st Cons.prems(2) in simp_all)
  have r: "fst (tc_run (a # as) s) = fst (tc_run as (fst (tc_step a s)))"
    "snd (tc_run (a # as) s) = fst (snd (tc_step a s)) @ snd (tc_run as (fst (tc_step a s)))"
    by (simp_all add: Let_def split_beta)
  show ?case unfolding r using st IH
    by (cases "y_cancelled (s_typed s)"; cases "y_cancelled (s_typed (fst (tc_step a s)))") simp_all
qed simp


definition terminal_armed :: "'cb \<Rightarrow> ('cb, 'z) tstate_scheme \<Rightarrow> bool" where
  "terminal_armed cb s \<longleftrightarrow> orderly s \<and> y_on_writable (s_typed s) \<noteq> Some cb \<and> y_on_cancel (s_typed s) \<noteq> Some cb \<and>
     (\<not> y_terminal (s_typed s) \<longrightarrow> y_on_terminal (s_typed s) = Some cb)"

definition terminal_runs :: "'cb \<Rightarrow> ('cb, 'z) tstate_scheme \<Rightarrow> ('cb \<times> ServerTerminalReason option) list" where
  "terminal_runs cb s = (case y_terminal_reason (s_typed s) of None \<Rightarrow> [] | Some r \<Rightarrow> [(cb, Some r)])"

lemma terminal_armed_step:
  assumes "terminal_armed cb s" "\<not> registers cb a" "\<not> sets_on_terminal a"
  shows "terminal_armed cb (fst (tc_step a s)) \<and>
    ran cb (fst (snd (tc_step a s))) =
      (if y_terminal (s_typed s) then [] else terminal_runs cb (fst (tc_step a s))) \<and>
    (y_terminal (s_typed s) \<longrightarrow>
      y_terminal_reason (s_typed (fst (tc_step a s))) = y_terminal_reason (s_typed s))"
proof -
  note o = assms(1) [unfolded terminal_armed_def]
  then have t: "y_terminal (s_typed s) \<Longrightarrow> n_terminal_due (s_native s) = None"
    "y_terminal_reason (s_typed s) = None \<longleftrightarrow> \<not> y_terminal (s_typed s)"
    by (auto simp: orderly_def Let_def)
  have n: "orderly (fst (tc_step a s))" using o by (intro order.step) simp
  show ?thesis
  proof (cases "y_terminal_reason (s_typed s)")
    case None
    with t n o assms(2,3) show ?thesis unfolding terminal_armed_def terminal_runs_def
      by (cases a) (simp_all add: registers_def frame_simps callback_defs Let_def split: option.split)
  next
    case (Some r)
    with t n o assms(2,3) show ?thesis unfolding terminal_armed_def terminal_runs_def
      by (cases a) (simp_all add: registers_def frame_simps callback_defs Let_def)
  qed
qed

lemma orderly_reason: "orderly s \<Longrightarrow> y_terminal_reason (s_typed s) = None \<longleftrightarrow> \<not> y_terminal (s_typed s)"
  by (simp add: orderly_def Let_def)

lemma terminal_armed_run:
  assumes "terminal_armed cb s" "\<forall>a \<in> set as. \<not> registers cb a \<and> \<not> sets_on_terminal a"
  shows "ran cb (snd (tc_run as s)) =
      (if y_terminal (s_typed s) then [] else terminal_runs cb (fst (tc_run as s))) \<and>
    (y_terminal (s_typed s) \<longrightarrow>
      y_terminal_reason (s_typed (fst (tc_run as s))) = y_terminal_reason (s_typed s))"
  using assms
proof (induction as arbitrary: s)
  case Nil
  then show ?case
    using orderly_reason [of s] by (auto simp: terminal_armed_def terminal_runs_def)
next
  case (Cons a as)
  note st = terminal_armed_step [OF Cons.prems(1), of a]
  have "orderly (fst (tc_step a s))" using st Cons.prems(2) by (simp add: terminal_armed_def)
  note r = orderly_reason [OF this]
  have "orderly s" using Cons.prems(1) by (simp add: terminal_armed_def)
  note r' = orderly_reason [OF this]
  show ?case
  proof (cases "y_terminal (s_typed s)")
    case True
    with r r' st Cons.IH [of "fst (tc_step a s)"] Cons.prems(2) show ?thesis
      by (cases "y_terminal_reason (s_typed s)") (simp_all add: Let_def split_beta)
  next
    case False
    with r r' st Cons.IH [of "fst (tc_step a s)"] Cons.prems(2) show ?thesis
      by (cases "y_terminal_reason (s_typed (fst (tc_step a s)))")
        (simp_all add: Let_def split_beta terminal_runs_def)
  qed
qed

lemma cancel_armed_start:
  assumes "orderly s" "unregistered cb s"
  shows "cancel_armed cb (fst (tc_step (A_SetOnCancel (Some cb)) s))"
    "ran cb (fst (snd (tc_step (A_SetOnCancel (Some cb)) s))) = (if y_cancelled (s_typed s) then [(cb, None)] else [])"
    "y_cancelled (s_typed (fst (tc_step (A_SetOnCancel (Some cb)) s))) = y_cancelled (s_typed s)"
  using assms order.step [OF assms(1), of "A_SetOnCancel (Some cb)"]
  by (simp_all add: cancel_armed_def unregistered_def callback_defs Let_def)

lemma terminal_armed_start:
  assumes "orderly s" "unregistered cb s"
  shows "terminal_armed cb (fst (tc_step (A_SetOnTerminal (Some cb)) s))"
    "ran cb (fst (snd (tc_step (A_SetOnTerminal (Some cb)) s))) = terminal_runs cb s"
    "y_terminal (s_typed (fst (tc_step (A_SetOnTerminal (Some cb)) s))) = y_terminal (s_typed s)"
    "y_terminal_reason (s_typed (fst (tc_step (A_SetOnTerminal (Some cb)) s))) = y_terminal_reason (s_typed s)"
  using assms order.step [OF assms(1), of "A_SetOnTerminal (Some cb)"] orderly_reason [OF assms(1)]
  by (cases "y_terminal_reason (s_typed s)";
      simp add: terminal_armed_def unregistered_def terminal_runs_def callback_defs Let_def)+

text \<open>The reports the event loop made in a history, read off its steps and the native call.\<close>

fun cancel_reports :: "'cb tstep list \<Rightarrow> ('cb, 'z) tstate_scheme \<Rightarrow> nat" where
  "cancel_reports [] s = 0"
| "cancel_reports (a # as) s =
     (case a of C_cancel \<Rightarrow> if n_cancel_due (s_native s) then 1 else 0 | _ \<Rightarrow> 0) + cancel_reports as (fst (tc_step a s))"

fun terminal_reports :: "'cb tstep list \<Rightarrow> ('cb, 'z) tstate_scheme \<Rightarrow> ServerTerminalReason list" where
  "terminal_reports [] s = []"
| "terminal_reports (a # as) s =
     (case a of C_terminal \<Rightarrow> (case n_terminal_due (s_native s) of None \<Rightarrow> [] | Some r \<Rightarrow> [r]) | _ \<Rightarrow> []) @
     terminal_reports as (fst (tc_step a s))"

lemma cancel_reports_flag:
  assumes "orderly s"
  shows "cancel_reports as s =
      (if y_cancelled (s_typed (fst (tc_run as s))) \<and> \<not> y_cancelled (s_typed s) then 1 else 0) \<and>
    (y_cancelled (s_typed s) \<longrightarrow> y_cancelled (s_typed (fst (tc_run as s))))"
  using assms
proof (induction as arbitrary: s)
  case (Cons a as)
  have due: "n_cancel_due (s_native s) \<longrightarrow> \<not> y_cancelled (s_typed s)" using Cons.prems by (simp add: orderly_def Let_def)
  have a: "y_cancelled (s_typed (fst (tc_step a s))) \<longleftrightarrow>
      y_cancelled (s_typed s) \<or> a = C_cancel \<and> n_cancel_due (s_native s)"
    by (cases a) (simp_all add: frame_simps callback_defs Let_def split_beta split: option.split)
  from due a Cons.IH [OF order.step [OF Cons.prems, of a]] show ?case
    by (cases a) (simp_all add: Let_def split_beta)
qed simp

lemma terminal_reports_flag:
  assumes "orderly s"
  shows "terminal_reports as s =
      (if y_terminal (s_typed s) then []
       else case y_terminal_reason (s_typed (fst (tc_run as s))) of None \<Rightarrow> [] | Some r \<Rightarrow> [r]) \<and>
    (y_terminal (s_typed s) \<longrightarrow> y_terminal_reason (s_typed (fst (tc_run as s))) = y_terminal_reason (s_typed s))"
  using assms
proof (induction as arbitrary: s)
  case Nil
  then show ?case using orderly_reason [of s] by (auto split: option.split)
next
  case (Cons a as)
  have due: "n_terminal_due (s_native s) \<noteq> None \<longrightarrow> \<not> y_terminal (s_typed s)" using Cons.prems by (auto simp: orderly_def Let_def)
  note o = order.step [OF Cons.prems, of a]
  have a: "y_terminal_reason (s_typed (fst (tc_step a s))) =
      (if a = C_terminal \<and> n_terminal_due (s_native s) \<noteq> None then n_terminal_due (s_native s)
       else y_terminal_reason (s_typed s))"
    by (cases a) (simp_all add: frame_simps callback_defs Let_def split_beta split: option.split)
  from due a Cons.IH [OF o] orderly_reason [OF o] orderly_reason [OF Cons.prems] show ?case
    by (cases a) (auto simp: Let_def split_beta split: option.splits)
qed

text \<open>
  C6. Callbacks of the application run exactly once, whether they are registered before or after
  the event. In every history of a call in which a cancel callback is registered once and not
  replaced, it runs exactly as often as the event loop reported a cancellation, which is at most once;
  a terminal callback registered once and not replaced runs exactly when the event loop reports the end of the
  call, at most once, with the reported reason. The reports are read off the steps of the event loop
  and the native call, not off the call object.
\<close>

theorem callbacks_run_once:
  fixes as bs :: "'cb tstep list"
  assumes "\<forall>a \<in> set (as @ bs). \<not> registers cb a"
  shows "((\<forall>a \<in> set bs. \<not> sets_on_cancel a) \<longrightarrow>
      (let history = as @ A_SetOnCancel (Some cb) # bs; reports = cancel_reports history (typed_start i r paused call) in
       reports \<le> 1 \<and> ran cb (snd (tc_run history (typed_start i r paused call))) = replicate reports (cb, None))) \<and>
    ((\<forall>a \<in> set bs. \<not> sets_on_terminal a) \<longrightarrow>
      (let history = as @ A_SetOnTerminal (Some cb) # bs; reports = terminal_reports history (typed_start i r paused call) in
       length reports \<le> 1 \<and> ran cb (snd (tc_run history (typed_start i r paused call))) = map (\<lambda>r. (cb, Some r)) reports))"
proof (intro conjI)
  let ?s = "typed_start i r paused call :: 'cb tstate"
  define s1 where "s1 = fst (tc_run as ?s)"
  have start: "orderly ?s" "\<not> y_cancelled (s_typed ?s)" "\<not> y_terminal (s_typed ?s)"
    by simp (simp_all add: typed_start_def TypedCallState_new_def)
  have o: "orderly s1" unfolding s1_def by (rule order.run) simp
  have "unregistered cb ?s"
    by (simp add: unregistered_def typed_start_def TypedCallState_new_def)
  then have u: "unregistered cb s1" "ran cb (snd (tc_run as ?s)) = []"
    using unregistered_run [of cb ?s as] assms by (simp_all add: s1_def)
  note reports = cancel_reports_flag [OF start(1)] terminal_reports_flag [OF start(1)]
  show "(\<forall>a \<in> set bs. \<not> sets_on_cancel a) \<longrightarrow>
      (let history = as @ A_SetOnCancel (Some cb) # bs; reports = cancel_reports history ?s in
       reports \<le> 1 \<and> ran cb (snd (tc_run history ?s)) = replicate reports (cb, None))"
    using cancel_armed_start [OF o u(1)] cancel_armed_run [of cb "fst (tc_step (A_SetOnCancel (Some cb)) s1)" bs]
      assms u(2) reports(1) [of "as @ A_SetOnCancel (Some cb) # bs"] start(2)
    by (cases "y_cancelled (s_typed s1)")
      (simp_all add: tc_run_append Let_def split_beta s1_def [symmetric] del: tc_step.simps cancel_reports.simps)
  show "(\<forall>a \<in> set bs. \<not> sets_on_terminal a) \<longrightarrow>
      (let history = as @ A_SetOnTerminal (Some cb) # bs; reports = terminal_reports history ?s in
       length reports \<le> 1 \<and> ran cb (snd (tc_run history ?s)) = map (\<lambda>r. (cb, Some r)) reports)"
    using terminal_armed_start [OF o u(1)] terminal_armed_run [of cb "fst (tc_step (A_SetOnTerminal (Some cb)) s1)" bs]
      assms u(2) orderly_reason [OF o] reports(2) [of "as @ A_SetOnTerminal (Some cb) # bs"] start(3)
    by (cases "y_terminal_reason (s_typed s1)")
      (auto simp: tc_run_append Let_def split_beta s1_def [symmetric] terminal_runs_def simp del: tc_step.simps terminal_reports.simps
        split: option.split)
qed

theorem callbacks_run_once_witness:
  "ran 7 (snd (tc_run sample_history (typed_start 5 busy_once False (Some 0)))) = [(7, None)] \<and>
   ran 8 (snd (tc_run sample_history (typed_start 5 busy_once False (Some 0)))) = [(8, Some R_PeerCancelled)]"
proof -
  have "cancel_reports sample_history (typed_start 5 busy_once False (Some 0)) = 1"
    "terminal_reports sample_history (typed_start 5 busy_once False (Some 0)) = [R_PeerCancelled]"
    by code_simp+
  then show ?thesis
    using callbacks_run_once [of "[]" "tl sample_history" 7 5 busy_once False "Some 0"]
      callbacks_run_once [of "take 5 sample_history" "drop 6 sample_history" 8 5 busy_once False "Some 0"]
    by (simp add: sample_history_def registers_def Let_def del: tc_run.simps cancel_reports.simps terminal_reports.simps)
qed

text \<open>
  C7. A writer is never stranded. The wait in \<^verbatim>\<open>WaitForWritable\<close> looks at its condition only after a
  notification, and still returns exactly where a wait that looks after every step would. In every
  state a history leads to, a writer that has to wait is registered with the native call for a
  writable callback, or that callback is on its way; once the native call has ended and the
  terminal callback comes, every wait returns. The wait answers true only if the call is writable
  and neither cancelled nor over.
\<close>

theorem writer_never_stranded:
  assumes "s = fst (tc_run as (typed_start i r paused call))"
  shows "cv_wait tc_handle writable_or_over s bs = ideal_wait tc_handle writable_or_over s bs \<and>
    (\<not> writable_or_over s \<longrightarrow> n_writable_requested (s_native s) \<or> n_writable_due (s_native s)) \<and>
    (n_terminal_due (s_native s) \<noteq> None \<and> (\<exists>b \<in> set bs. C_terminal \<in> set b) \<longrightarrow> WaitForWritable tc_handle s bs \<noteq> None) \<and>
    (\<forall>s' bs'. WaitForWritable tc_handle s bs = Some (True, s', bs') \<longrightarrow>
       y_writable (s_typed s') \<and> \<not> y_cancelled (s_typed s') \<and> \<not> y_terminal (s_typed s'))"
proof -
  have "wake_pending s" "orderly s"
    unfolding assms by (auto intro: wake.run order.run)
  then have "\<not> writable_or_over s \<longrightarrow> n_writable_requested (s_native s) \<or> n_writable_due (s_native s)"
    and e: "n_terminal_due (s_native s) \<noteq> None \<Longrightarrow> ending s"
    by (auto simp: wake_pending_def writable_or_over_def orderly_def ending_def Let_def)
  moreover have "n_terminal_due (s_native s) \<noteq> None \<and> (\<exists>b \<in> set bs. C_terminal \<in> set b) \<longrightarrow> WaitForWritable tc_handle s bs \<noteq> None"
    using WaitForWritable_returns [of s _ bs] e by blast
  moreover have "writable_now s'" if "WaitForWritable tc_handle s bs = Some (True, s', bs')" for s' bs'
    using that by (auto simp: WaitForWritable_def bind_eq_Some_conv)
  ultimately show ?thesis
    using writable_wait.no_lost_wakeup [of s bs] by (simp add: writable_now_def)
qed

theorem writer_never_stranded_witness:
  "let s = fst (tc_run [A_Send ''a'' Gzip, A_Send ''b'' Gzip] (typed_start 5 busy_once False (Some 0)) :: unit tstate \<times> _)
   in \<not> writable_or_over s \<and> n_writable_requested (s_native s) \<and>
      map_option fst (WaitForWritable tc_handle s [[N_resume], [N_space], [C_writable]]) = Some True"
proof -
  define s where "s = (fst (tc_run [A_Send ''a'' Gzip, A_Send ''b'' Gzip] (typed_start 5 busy_once False (Some 0))) :: unit tstate)"
  have "\<not> writable_or_over s" "\<not> n_writable_due (s_native s)"
    "map_option fst (WaitForWritable tc_handle s [[N_resume], [N_space], [C_writable]]) = Some True"
    unfolding s_def by code_simp+
  with writer_never_stranded [OF s_def] show ?thesis by (simp add: s_def Let_def)
qed

text \<open>What one command adds to the log.\<close>

lemma Ensure_log:
  assumes "EnsureInitialMetadata c s = (e, s')"
  shows "\<exists>l. n_log (s_native s') = n_log (s_native s) @ l"
  using assms by (auto simp: EnsureInitialMetadata_def mark_initial_def tc_command_def
      ServerCall_SendInitialMetadata_def serverCallSendInitialMetadata_def Let_def split: if_splits)

lemma Finish_log:
  assumes "tc_Finish st m s = (e, s')"
  shows "\<exists>l. n_log (s_native s') = n_log (s_native s) @ l @ (if Error_ok e then [(S_finish st (metadata_arg m), EC_Ok)] else [])"
proof (cases "tc_done s")
  case False
  obtain e1 s1 where en: "EnsureInitialMetadata Identity s = (e1, s1)" by fastforce
  from Ensure_log [OF en] obtain l where "n_log (s_native s1) = n_log (s_native s) @ l" by blast
  with assms False en show ?thesis
    by (cases "Error_ok e1") (auto simp: tc_Finish_def tc_command_def ServerCall_Finish_def serverCallFinish_def
        Let_def Error_ok_def split: if_splits)
qed (use assms in \<open>auto simp: tc_Finish_def Error_ok_def\<close>)

lemma Send_log:
  assumes "tc_Send p c s = (e, s')"
  shows "\<exists>l. n_log (s_native s') = n_log (s_native s) @ l @ (if Error_ok e then [(S_send p c, EC_Ok)] else [])"
proof (cases "tc_done s")
  case False
  obtain e1 s1 where en: "EnsureInitialMetadata c s = (e1, s1)" by fastforce
  from Ensure_log [OF en] obtain l where "n_log (s_native s1) = n_log (s_native s) @ l" by blast
  with assms False en show ?thesis
    by (cases "Error_ok e1") (auto simp: tc_Send_def tc_command_def ServerCall_Send_def serverCallSend_def
        Let_def Error_ok_def split: if_splits)
qed (use assms in \<open>auto simp: tc_Send_def Error_ok_def\<close>)

definition log_extends :: "(server_cmd \<times> ErrorCode) list \<Rightarrow> ('cb, 'z) tstate_scheme \<Rightarrow> bool" where
  "log_extends l s \<longleftrightarrow> (\<exists>l'. n_log (s_native s) = l @ l')"

lemma log_extendsI: "n_log (s_native s') = n_log (s_native s) @ k \<Longrightarrow> log_extends l s \<Longrightarrow> log_extends l s'"
  by (auto simp: log_extends_def)

lemma command_extends:
  assumes "log_extends l s"
  shows "log_extends l (snd (tc_SendInitialMetadata m c s))" "log_extends l (snd (tc_Send p c s))"
    "log_extends l (snd (tc_Finish st m s))" "log_extends l (snd (tc_ResumeReceive s))"
proof -
  show "log_extends l (snd (tc_SendInitialMetadata m c s))" "log_extends l (snd (tc_ResumeReceive s))"
    using assms by (auto simp: log_extends_def tc_SendInitialMetadata_def mark_initial_def tc_command_def
        tc_ResumeReceive_def ServerCall_SendInitialMetadata_def serverCallSendInitialMetadata_def
        ServerCall_ResumeReceive_def serverCallResumeReceive_def Let_def)
  show "log_extends l (snd (tc_Send p c s))" "log_extends l (snd (tc_Finish st m s))"
    using Send_log [of p c s "fst (tc_Send p c s)" "snd (tc_Send p c s)"]
      Finish_log [of st m s "fst (tc_Finish st m s)" "snd (tc_Finish st m s)"] log_extendsI [OF _ assms]
    by auto
qed

interpretation extends: call_law "log_extends l" for l
proof (unfold_locales, goal_cases)
  case (1 s a)
  then show ?case
    by (cases a) (auto simp: command_extends, auto simp: log_extends_def callback_defs on_native_def Let_def
        split: option.split)
qed

text \<open>
  C22. A unary response is complete or reported as an error. When \<^verbatim>\<open>FinishResponse\<close> with an OK
  status returns success, the native call accepted the serialized response and later, as the last
  command, the OK status with the trailing metadata; a response that cannot be serialized is
  finished with an internal error. When it returns an error and the call is finished all the same,
  then another thread finished it in between, or the message was refused and the native call
  accepted as its last command the status that refusal maps to, which is not OK. A status that is
  not OK is passed on, and no message is sent. All this holds with any steps of other threads
  between the two commands.
\<close>

theorem finish_response_complete:
  assumes "FinishResponse tc_handle serialize response st m c s bs = (e, s', bs')"
  shows "(\<not> Status_ok st \<longrightarrow> (e, s') = tc_Finish st m s) \<and>
    (Status_ok st \<and> serialize response = None \<and> Error_ok e \<longrightarrow>
      (\<exists>l. n_log (s_native s') =
        l @ [(S_finish \<lparr>s_code = SC_Internal, s_message = ''failed to serialize response''\<rparr> (metadata_arg m), EC_Ok)])) \<and>
    (\<forall>p. Status_ok st \<and> serialize response = Some p \<longrightarrow>
      (if Error_ok e
       then \<exists>l l'. n_log (s_native s') =
          n_log (s_native s) @ l @ [(S_send p c, EC_Ok)] @ l' @ [(S_finish Status_default (metadata_arg m), EC_Ok)]
       else y_finish_submitted (s_typed s') \<longrightarrow>
          y_finish_submitted (s_typed (fst (preempt tc_handle (snd (tc_Send p c s)) bs))) \<or>
          \<not> Status_ok (SendErrorStatus e) \<and>
          (\<exists>l. n_log (s_native s') = l @ [(S_finish (SendErrorStatus e) (metadata_arg m), EC_Ok)])))"
proof (intro conjI impI allI)
  assume "\<not> Status_ok st"
  with assms show "(e, s') = tc_Finish st m s" by (auto simp: FinishResponse_def Let_def split_beta)
next
  assume "Status_ok st \<and> serialize response = None \<and> Error_ok e"
  with assms show "\<exists>l. n_log (s_native s') =
      l @ [(S_finish \<lparr>s_code = SC_Internal, s_message = ''failed to serialize response''\<rparr> (metadata_arg m), EC_Ok)]"
    using Finish_log [of "\<lparr>s_code = SC_Internal, s_message = ''failed to serialize response''\<rparr>" m s e s']
    by (auto simp: FinishResponse_def Let_def split_beta)
next
  fix p assume p: "Status_ok st \<and> serialize response = Some p"
  obtain e1 s1 where s1: "tc_Send p c s = (e1, s1)" by fastforce
  obtain s2 bs2 where s2: "preempt tc_handle s1 bs = (s2, bs2)" by fastforce
  let ?st = "if Error_ok e1 then Status_default else SendErrorStatus e1"
  obtain e3 s3 where s3: "tc_Finish ?st m s2 = (e3, s3)" by fastforce
  have r: "s' = s3" "e = (if \<not> Error_ok e1 \<and> Error_ok e3 then e1 else e3)"
    using assms p s1 s2 s3 by (auto simp: FinishResponse_def split: if_splits)
  have fs: "\<not> Error_ok e3 \<Longrightarrow> y_finish_submitted (s_typed s3) = y_finish_submitted (s_typed s2)"
    using s3 by (auto simp: tc_Finish_def EnsureInitialMetadata_def mark_initial_def tc_command_def Let_def
        split: if_splits prod.splits)
  have "log_extends (n_log (s_native s1)) s2"
    using extends.preempted [of "n_log (s_native s1)" s1 bs] s2 by (simp add: log_extends_def)
  then obtain l2 where l2: "n_log (s_native s2) = n_log (s_native s1) @ l2" by (auto simp: log_extends_def)
  show "if Error_ok e
       then \<exists>l l'. n_log (s_native s') =
          n_log (s_native s) @ l @ [(S_send p c, EC_Ok)] @ l' @ [(S_finish Status_default (metadata_arg m), EC_Ok)]
       else y_finish_submitted (s_typed s') \<longrightarrow>
          y_finish_submitted (s_typed (fst (preempt tc_handle (snd (tc_Send p c s)) bs))) \<or>
          \<not> Status_ok (SendErrorStatus e) \<and>
          (\<exists>l. n_log (s_native s') = l @ [(S_finish (SendErrorStatus e) (metadata_arg m), EC_Ok)])"
    using Send_log [OF s1] Finish_log [OF s3] l2 fs
    by (cases "Error_ok e1"; cases "Error_ok e3") (auto simp: r s1 s2 Status_not_ok_SendErrorStatus, blast)
qed

theorem finish_response_complete_witness:
  "let s0 = fst (tc_run [A_Send ''x'' Gzip] (typed_start 5 busy_once False (Some 0)) :: unit tstate \<times> _);
       r = FinishResponse tc_handle Some ''a'' Status_default None Gzip s0 [[N_space]] in
   fst r = EC_WouldBlock \<and> \<not> Status_ok (SendErrorStatus EC_WouldBlock) \<and>
   (\<exists>l. n_log (s_native (fst (snd r))) = l @ [(S_finish (SendErrorStatus EC_WouldBlock) [], EC_Ok)])"
proof -
  define s0 where "s0 = (fst (tc_run [A_Send ''x'' Gzip] (typed_start 5 busy_once False (Some 0))) :: unit tstate)"
  obtain e s bs where r: "FinishResponse tc_handle Some ''a'' Status_default None Gzip s0 [[N_space]] = (e, s, bs)"
    using prod_cases3 by blast
  have "fst (FinishResponse tc_handle Some ''a'' Status_default None Gzip s0 [[N_space]]) = EC_WouldBlock"
    "y_finish_submitted (s_typed (fst (snd (FinishResponse tc_handle Some ''a'' Status_default None Gzip s0 [[N_space]]))))"
    "\<not> y_finish_submitted (s_typed (fst (preempt tc_handle (snd (tc_Send ''a'' Gzip s0)) [[N_space]])))"
    unfolding s0_def by code_simp+
  with finish_response_complete [OF r] r show ?thesis unfolding Let_def s0_def [symmetric]
    by (simp add: Status_ok_def Status_default_def Error_ok_def metadata_arg_def)
qed

end
