(* ===== verification/Request_Stream.thy ===== *)
theory Request_Stream
  imports Typed_Call
begin

section \<open>Request streams\<close>

text \<open>
  \<^verbatim>\<open>internal::TypedRequestStreamState\<close> of \<^verbatim>\<open>grpc_lite/cpp/typed_service.hpp\<close>: the one-message
  slot between the reactor, which parses incoming messages into it and pauses the reception, and
  the application thread that reads them. The message parser, \<^verbatim>\<open>ParseFromArray\<close>, is a
  parameter.

  \<^verbatim>\<open>OnMessage\<close> finishes the call while it holds the mutex of the stream. The operations of the
  call do not look at the stream, so the callback is one step, taken when it gets the mutex of
  the call.
\<close>

subsection \<open>State and operations\<close>

record 'req trs =
  q_message :: "'req option"
  q_remote_end :: bool
  q_rejected :: bool
  q_cancelled :: bool
  q_terminal :: bool

text \<open>The call with its request stream; \<open>s_delivered\<close> are the payloads the native call delivered.\<close>

record ('cb, 'req) rstate = "'cb tstate" +
  s_stream :: "'req trs"
  s_delivered :: "string list"

definition TypedRequestStreamState_new :: "'req trs" where
  "TypedRequestStreamState_new =
     \<lparr>q_message = None, q_remote_end = False, q_rejected = False, q_cancelled = False, q_terminal = False\<rparr>"

definition reject ::
  "StatusCode \<Rightarrow> string \<Rightarrow> ('cb, 'req) rstate \<Rightarrow> ReceiveAction \<times> ('cb, 'req) rstate \<times> bool" where
  "reject code msg s =
     (let s1 = s\<lparr>s_stream := (s_stream s)\<lparr>q_rejected := True\<rparr>\<rparr>;
          (_, s2) = tc_Finish \<lparr>s_code = code, s_message = msg\<rparr> None s1
      in (Pause, s2, True))"

definition rs_OnMessage ::
  "(string \<Rightarrow> 'req option) \<Rightarrow> string \<Rightarrow> ('cb, 'req) rstate \<Rightarrow> ReceiveAction \<times> ('cb, 'req) rstate \<times> bool" where
  "rs_OnMessage parse payload s =
     (let q = s_stream s in
      if q_rejected q \<or> q_remote_end q \<or> q_terminal q then (Pause, s, False)
      else if q_message q \<noteq> None then reject SC_Internal ''request backpressure violated'' s
      else if INT_MAX < int (length payload) then reject SC_ResourceExhausted ''request is too large to parse'' s
      else case parse payload of
             None \<Rightarrow> reject SC_InvalidArgument ''failed to parse request'' s
           | Some m \<Rightarrow> (Pause, s\<lparr>s_stream := q\<lparr>q_message := Some m\<rparr>\<rparr>, True))"

definition rs_OnRemoteEnd :: "('cb, 'req) rstate \<Rightarrow> ('cb, 'req) rstate" where
  "rs_OnRemoteEnd s = s\<lparr>s_stream := (s_stream s)\<lparr>q_remote_end := True\<rparr>\<rparr>"

definition rs_OnCancel :: "('cb, 'req) rstate \<Rightarrow> ('cb, 'req) rstate" where
  "rs_OnCancel s = s\<lparr>s_stream := (s_stream s)\<lparr>q_cancelled := True\<rparr>\<rparr>"

definition rs_OnTerminal :: "('cb, 'req) rstate \<Rightarrow> ('cb, 'req) rstate" where
  "rs_OnTerminal s = s\<lparr>s_stream := (s_stream s)\<lparr>q_terminal := True\<rparr>\<rparr>"

definition rs_ready :: "('cb, 'req) rstate \<Rightarrow> bool" where
  "rs_ready s \<longleftrightarrow>
     (let q = s_stream s in q_message q \<noteq> None \<or> q_remote_end q \<or> q_rejected q \<or> q_cancelled q \<or> q_terminal q)"

subsection \<open>What the other threads do\<close>

text \<open>
  The steps of the call, and the callbacks of the stream. The native call delivers a message only
  while it is active and the reception is not paused (\<^verbatim>\<open>deliverStreamingMessages\<close>), and pauses
  it when the callback says so; it reports the end of the requests under the same condition, once
  all messages are delivered. The stream's cancel and terminal callbacks follow the native flags.
  \<^verbatim>\<open>ResumeReceive\<close> is not an operation the application has on such a call: only \<^verbatim>\<open>Read\<close> resumes.
\<close>

datatype 'cb rstep =
    R_call "'cb tstep"
  | R_message string
  | R_remote_end
  | R_cancel
  | R_terminal

definition receiving :: "native \<Rightarrow> bool" where
  "receiving n \<longleftrightarrow> n_active n \<and> \<not> n_paused n"

definition pause_if :: "ReceiveAction \<Rightarrow> native \<Rightarrow> native" where
  "pause_if action n = (if action = Pause \<and> n_active n then n\<lparr>n_paused := True\<rparr> else n)"

fun rs_handle :: "(string \<Rightarrow> 'req option) \<Rightarrow> 'cb rstep \<Rightarrow> ('cb, 'req) rstate \<Rightarrow> ('cb, 'req) rstate \<times> bool" where
  "rs_handle parse (R_call a) s = (if a = A_ResumeReceive then s else fst (tc_handle a s), False)"
| "rs_handle parse (R_message payload) s =
     (if receiving (s_native s) \<and> \<not> q_remote_end (s_stream s)
      then let (action, s1, notified) = rs_OnMessage parse payload (s\<lparr>s_delivered := s_delivered s @ [payload]\<rparr>)
           in (on_native (pause_if action) s1, notified)
      else (s, False))"
| "rs_handle parse R_remote_end s =
     (if receiving (s_native s) then (rs_OnRemoteEnd s, True) else (s, False))"
| "rs_handle parse R_cancel s = (if n_cancelled (s_native s) then (rs_OnCancel s, True) else (s, False))"
| "rs_handle parse R_terminal s = (if n_terminal (s_native s) then (rs_OnTerminal s, True) else (s, False))"

text \<open>
  \<^verbatim>\<open>Read\<close>: \<open>out\<close> tells whether the output pointer is not null; the result is the message, if the
  call returns true.
\<close>

definition take_request :: "('cb, 'req) rstate \<Rightarrow> ('cb, 'req) rstate" where
  "take_request s = s\<lparr>s_stream := (s_stream s)\<lparr>q_message := None\<rparr>\<rparr>"

definition resume_failed :: "ErrorCode \<Rightarrow> bool" where
  "resume_failed e \<longleftrightarrow> \<not> Error_ok e \<and> e \<noteq> EC_Closed \<and> e \<noteq> EC_Unavailable"

definition rs_resume ::
  "(string \<Rightarrow> 'req option) \<Rightarrow> ('cb, 'req) rstate \<Rightarrow> 'cb rstep list list \<Rightarrow> ('cb, 'req) rstate \<times> 'cb rstep list list" where
  "rs_resume parse s bs =
     (let (s1, bs1) = preempt (rs_handle parse) s bs; (e, s2) = tc_ResumeReceive s1 in
      if resume_failed e
      then let (s3, bs3) = preempt (rs_handle parse) s2 bs1
           in (snd (tc_Finish \<lparr>s_code = SC_Internal, s_message = ''failed to resume request stream''\<rparr> None s3), bs3)
      else (s2, bs1))"

definition rs_Read ::
  "(string \<Rightarrow> 'req option) \<Rightarrow> bool \<Rightarrow> ('cb, 'req) rstate \<Rightarrow> 'cb rstep list list \<Rightarrow>
   ('req option \<times> ('cb, 'req) rstate \<times> 'cb rstep list list) option" where
  "rs_Read parse out s bs =
     (if \<not> out then Some (None, s, bs)
      else do {
        (s1, bs1) \<leftarrow> cv_wait (rs_handle parse) rs_ready s bs;
        case q_message (s_stream s1) of
          None \<Rightarrow> Some (None, s1, bs1)
        | Some m \<Rightarrow> let (s2, bs2) = rs_resume parse (take_request s1) bs1 in Some (Some m, s2, bs2) })"

subsection \<open>Frames\<close>

text \<open>What the operations of the call leave alone of the native call and of what surrounds it.\<close>

lemma command_native [frame_simps]:
  "n_active (s_native (snd (tc_SendInitialMetadata m c s))) = n_active (s_native s)"
  "n_active (s_native (snd (tc_Send p c s))) = n_active (s_native s)"
  "n_active (s_native (snd (tc_Finish st m s))) = n_active (s_native s)"
  "n_paused (s_native (snd (tc_SendInitialMetadata m c s))) = n_paused (s_native s)"
  "n_paused (s_native (snd (tc_Send p c s))) = n_paused (s_native s)"
  "n_paused (s_native (snd (tc_Finish st m s))) = n_paused (s_native s)"
  "n_resuming (s_native (snd (tc_SendInitialMetadata m c s))) = n_resuming (s_native s)"
  "n_resuming (s_native (snd (tc_Send p c s))) = n_resuming (s_native s)"
  "n_resuming (s_native (snd (tc_Finish st m s))) = n_resuming (s_native s)"
  "n_cancelled (s_native (snd (tc_SendInitialMetadata m c s))) = n_cancelled (s_native s)"
  "n_cancelled (s_native (snd (tc_Send p c s))) = n_cancelled (s_native s)"
  "n_cancelled (s_native (snd (tc_Finish st m s))) = n_cancelled (s_native s)"
  "n_terminal (s_native (snd (tc_SendInitialMetadata m c s))) = n_terminal (s_native s)"
  "n_terminal (s_native (snd (tc_Send p c s))) = n_terminal (s_native s)"
  "n_terminal (s_native (snd (tc_Finish st m s))) = n_terminal (s_native s)"
  by (simp_all add: typed_defs server_command_defs Let_def split_beta)

lemma registration_native [frame_simps]:
  "s_native (snd (SetOnWritable cb s)) = s_native s"
  "s_native (snd (SetOnCancel cb s)) = s_native s"
  "s_native (snd (SetOnTerminal cb s)) = s_native s"
  by (simp_all add: callback_defs Let_def split: option.split)

lemma command_more [frame_simps]:
  "tstate.more (snd (tc_SendInitialMetadata m c s)) = tstate.more s"
  "tstate.more (snd (tc_Send p c s)) = tstate.more s"
  "tstate.more (snd (tc_Finish st m s)) = tstate.more s"
  "tstate.more (snd (tc_ResumeReceive s)) = tstate.more s"
  "tstate.more (snd (SetOnWritable cb s)) = tstate.more s"
  "tstate.more (snd (SetOnCancel cb s)) = tstate.more s"
  "tstate.more (snd (SetOnTerminal cb s)) = tstate.more s"
  "tstate.more (snd (tc_OnWritable s)) = tstate.more s"
  "tstate.more (snd (tc_OnCancel s)) = tstate.more s"
  "tstate.more (snd (tc_OnTerminal r s)) = tstate.more s"
  by (simp_all add: typed_defs Let_def split_beta split: option.split)

lemma step_more [frame_simps]: "tstate.more (fst (tc_handle a s)) = tstate.more s"
  by (cases a) (simp_all add: tc_handle_def frame_simps on_native_def Let_def split_beta split: option.split)

lemma stream_of_more:
  assumes "tstate.more s' = tstate.more s"
  shows "s_stream s' = s_stream s" "s_delivered s' = s_delivered s"
  using assms by (cases s; cases s'; simp)+

lemmas stream_frame [frame_simps] = command_more [THEN stream_of_more(1)] command_more [THEN stream_of_more(2)]
  step_more [THEN stream_of_more(1)] step_more [THEN stream_of_more(2)]

lemma handle_native:
  fixes s :: "('cb, 'z) tstate_scheme"
  assumes "a \<noteq> A_ResumeReceive" and "s' = fst (tc_handle a s)"
  shows "n_active (s_native s') \<longrightarrow> n_active (s_native s)"
    and "n_paused (s_native s) \<and> \<not> n_paused (s_native s') \<longrightarrow> n_resuming (s_native s) \<or> \<not> n_active (s_native s')"
    and "n_resuming (s_native s') \<longrightarrow> n_resuming (s_native s)"
    and "n_paused (s_native s') \<longrightarrow> n_paused (s_native s)"
    and "n_resuming (s_native s') \<longrightarrow> n_paused (s_native s') = n_paused (s_native s)"
    and "n_terminal (s_native s) \<longrightarrow> n_terminal (s_native s')"
    and "n_terminal (s_native s') \<and> n_active (s_native s') \<longrightarrow> n_terminal (s_native s)"
  using assms
  by (cases a; simp add: tc_handle_def frame_simps callback_defs on_native_def reactor_defs Let_def split_beta
      split: option.split if_splits)+

subsection \<open>Laws of the stream\<close>

locale stream_law =
  fixes parse :: "string \<Rightarrow> 'req option" and I :: "('cb, 'req) rstate \<Rightarrow> bool"
  assumes step: "I s \<Longrightarrow> I (fst (rs_handle parse e s))"
begin

lemma preempted: "I s \<Longrightarrow> I (fst (preempt (rs_handle parse) s bs))"
  by (rule preempt_inv) (auto intro: step)

lemma waited: "I s \<Longrightarrow> cv_wait (rs_handle parse) p s bs = Some (s', bs') \<Longrightarrow> I s'"
  by (rule cv_wait_inv [where h = "rs_handle parse"]) (auto intro: step)

end

text \<open>
  The pace of the stream: when the native call may deliver, the slot is empty; a resume is on its
  way only while the reception is paused and the slot is empty.
\<close>

definition paced :: "('cb, 'req) rstate \<Rightarrow> bool" where
  "paced s \<longleftrightarrow>
     (let n = s_native s; q = s_stream s in
      (q_message q \<noteq> None \<longrightarrow> \<not> receiving n) \<and> (n_resuming n \<longrightarrow> n_paused n \<and> q_message q = None) \<and>
      (n_terminal n \<longrightarrow> \<not> n_active n) \<and> (q_terminal q \<longrightarrow> n_terminal n))"

text \<open>A message was taken, and the reception not resumed yet.\<close>

definition held :: "('cb, 'req) rstate \<Rightarrow> bool" where
  "held s \<longleftrightarrow> paced s \<and> q_message (s_stream s) = None \<and> \<not> receiving (s_native s) \<and> \<not> n_resuming (s_native s)"

lemma reject_frame [frame_simps]:
  "fst (reject code msg s) = Pause"
  "s_stream (fst (snd (reject code msg s))) = (s_stream s)\<lparr>q_rejected := True\<rparr>"
  "s_delivered (fst (snd (reject code msg s))) = s_delivered s"
  "n_active (s_native (fst (snd (reject code msg s)))) = n_active (s_native s)"
  "n_paused (s_native (fst (snd (reject code msg s)))) = n_paused (s_native s)"
  "n_resuming (s_native (fst (snd (reject code msg s)))) = n_resuming (s_native s)"
  "n_terminal (s_native (fst (snd (reject code msg s)))) = n_terminal (s_native s)"
  by (simp_all add: reject_def Let_def split_beta frame_simps)

lemma call_step_paced:
  assumes "paced s" "a \<noteq> A_ResumeReceive"
  shows "paced (fst (tc_handle a s))"
  using assms handle_native [OF assms(2) refl, of s]
  by (auto simp: paced_def Let_def frame_simps receiving_def)


interpretation pace: stream_law parse paced for parse
proof (unfold_locales, goal_cases)
  case (1 s e)
  then show ?case
  proof (cases e)
    case (R_call a)
    with 1 show ?thesis by (simp add: call_step_paced)
  next
    case (R_message payload)
    with 1 show ?thesis
      by (auto simp: paced_def rs_OnMessage_def receiving_def pause_if_def on_native_def frame_simps Let_def split_beta
          split: option.split)
  qed (auto simp: paced_def rs_OnRemoteEnd_def rs_OnCancel_def rs_OnTerminal_def Let_def)
qed

interpretation hold: stream_law parse held for parse
proof (unfold_locales, goal_cases)
  case (1 s e)
  then have p: "paced (fst (rs_handle parse e s))" by (intro pace.step) (simp add: held_def)
  show ?case
  proof (cases e)
    case (R_call a)
    have h: "\<not> receiving (s_native (fst (tc_handle a s))) \<and> \<not> n_resuming (s_native (fst (tc_handle a s)))"
      if "a \<noteq> A_ResumeReceive"
      using handle_native(1-3) [OF that refl, of s] 1 by (auto simp: held_def receiving_def)
    show ?thesis
    proof (cases "a = A_ResumeReceive")
      case True
      with 1 R_call show ?thesis by simp
    next
      case False
      with 1 p R_call h show ?thesis by (simp add: held_def frame_simps)
    qed
  qed (use 1 p in \<open>simp_all add: held_def rs_OnRemoteEnd_def rs_OnCancel_def rs_OnTerminal_def\<close>)
qed

text \<open>
  The messages in order: those read so far and the one in the slot are the parsed payloads of a
  prefix of what was delivered, and that prefix is everything unless the next payload was refused.
\<close>

definition slot_list :: "('cb, 'req) rstate \<Rightarrow> 'req list" where
  "slot_list s = (case q_message (s_stream s) of None \<Rightarrow> [] | Some m \<Rightarrow> [m])"

definition bad_payload :: "(string \<Rightarrow> 'req option) \<Rightarrow> string \<Rightarrow> bool" where
  "bad_payload parse p \<longleftrightarrow> parse p = None \<or> INT_MAX < int (length p)"

definition in_order :: "(string \<Rightarrow> 'req option) \<Rightarrow> 'req list \<Rightarrow> ('cb, 'req) rstate \<Rightarrow> bool" where
  "in_order parse ts s \<longleftrightarrow>
     (\<exists>k \<le> length (s_delivered s).
        map parse (take k (s_delivered s)) = map Some (ts @ slot_list s) \<and>
        (\<forall>p \<in> set (take k (s_delivered s)). \<not> bad_payload parse p) \<and>
        (if q_rejected (s_stream s) then k < length (s_delivered s) \<and> bad_payload parse (s_delivered s ! k)
         else k = length (s_delivered s)))"

definition ordered :: "(string \<Rightarrow> 'req option) \<Rightarrow> 'req list \<Rightarrow> ('cb, 'req) rstate \<Rightarrow> bool" where
  "ordered parse ts s \<longleftrightarrow> paced s \<and> in_order parse ts s"

lemma in_order_same:
  assumes "in_order parse ts s" "s_delivered s' = s_delivered s" "q_message (s_stream s') = q_message (s_stream s)"
    "q_rejected (s_stream s') = q_rejected (s_stream s)"
  shows "in_order parse ts s'"
  using assms(1) unfolding in_order_def slot_list_def assms(2-4) .

lemma in_order_append:
  assumes "in_order parse ts s" "\<not> q_rejected (s_stream s)" "q_message (s_stream s) = None"
    and d: "s_delivered s' = s_delivered s @ [p]"
    and new: "if bad_payload parse p then q_rejected (s_stream s') \<and> q_message (s_stream s') = None
              else \<not> q_rejected (s_stream s') \<and> q_message (s_stream s') = parse p"
  shows "in_order parse ts s'"
proof -
  from assms(1-3) have o: "map parse (s_delivered s) = map Some ts" "\<forall>p \<in> set (s_delivered s). \<not> bad_payload parse p"
    by (auto simp: in_order_def slot_list_def)
  show ?thesis
  proof (cases "bad_payload parse p")
    case True
    with o d new show ?thesis
      unfolding in_order_def by (intro exI [of _ "length (s_delivered s)"]) (simp add: slot_list_def)
  next
    case False
    then obtain m where "parse p = Some m" by (auto simp: bad_payload_def)
    with False o d new show ?thesis
      unfolding in_order_def by (intro exI [of _ "length (s_delivered s) + 1"]) (simp add: slot_list_def)
  qed
qed

lemma in_order_ignored:
  assumes "in_order parse ts s" "q_rejected (s_stream s)"
    and d: "s_delivered s' = s_delivered s @ ps" and same: "s_stream s' = s_stream s"
  shows "in_order parse ts s'"
proof -
  from assms(1,2) obtain k where k: "k < length (s_delivered s)" "bad_payload parse (s_delivered s ! k)"
    "map parse (take k (s_delivered s)) = map Some (ts @ slot_list s)"
    "\<forall>p \<in> set (take k (s_delivered s)). \<not> bad_payload parse p"
    by (auto simp: in_order_def)
  with assms(2) d same show ?thesis
    unfolding in_order_def by (intro exI [of _ k]) (simp add: slot_list_def nth_append)
qed

lemma OnMessage_delivered [simp]: "s_delivered (fst (snd (rs_OnMessage parse p s))) = s_delivered s"
  by (simp add: rs_OnMessage_def frame_simps Let_def split: option.split)

lemma OnMessage_stream:
  assumes "\<not> q_rejected (s_stream s)" "\<not> q_remote_end (s_stream s)" "\<not> q_terminal (s_stream s)" "q_message (s_stream s) = None"
  shows "s_stream (fst (snd (rs_OnMessage parse p s))) =
    (if bad_payload parse p then (s_stream s)\<lparr>q_rejected := True\<rparr> else (s_stream s)\<lparr>q_message := parse p\<rparr>)"
  using assms by (cases "parse p") (simp_all add: rs_OnMessage_def bad_payload_def frame_simps Let_def)

lemma in_order_message:
  assumes "ordered parse ts s" "receiving (s_native s)" "\<not> q_remote_end (s_stream s)"
    and s': "s' = fst (snd (rs_OnMessage parse p (s\<lparr>s_delivered := s_delivered s @ [p]\<rparr>)))"
  shows "in_order parse ts s'"
proof (cases "q_rejected (s_stream s)")
  case True
  then have "s' = s\<lparr>s_delivered := s_delivered s @ [p]\<rparr>" by (simp add: s' rs_OnMessage_def)
  with True assms(1) show ?thesis
    by (intro in_order_ignored [of parse ts s s' "[p]"]) (simp_all add: ordered_def)
next
  case False
  from assms have e: "q_message (s_stream s) = None" "\<not> q_terminal (s_stream s)"
    by (auto simp: ordered_def paced_def receiving_def Let_def)
  have st: "s_stream s' =
    (if bad_payload parse p then (s_stream s)\<lparr>q_rejected := True\<rparr> else (s_stream s)\<lparr>q_message := parse p\<rparr>)"
    unfolding s' by (subst OnMessage_stream) (use False assms(3) e in simp_all)
  have d: "s_delivered s' = s_delivered s @ [p]" by (simp add: s')
  show ?thesis
    by (rule in_order_append [OF _ False e(1) d]) (use assms(1) False e in \<open>simp_all add: ordered_def st\<close>)
qed

interpretation order_law: stream_law parse "ordered parse ts" for parse ts
proof (unfold_locales, goal_cases)
  case (1 s e)
  then have p: "paced (fst (rs_handle parse e s))" by (intro pace.step) (simp add: ordered_def)
  moreover have "in_order parse ts (fst (rs_handle parse e s))"
  proof (cases e)
    case (R_message payload)
    show ?thesis
    proof (cases "receiving (s_native s) \<and> \<not> q_remote_end (s_stream s)")
      case True
      let ?s1 = "fst (snd (rs_OnMessage parse payload (s\<lparr>s_delivered := s_delivered s @ [payload]\<rparr>)))"
      have "in_order parse ts ?s1" using 1 True by (intro in_order_message) auto
      then have "in_order parse ts (on_native f ?s1)" for f by (rule in_order_same) (simp_all add: on_native_def)
      with True R_message show ?thesis by (simp add: split_beta Let_def)
    next
      case False
      with 1 R_message show ?thesis by (auto simp: ordered_def)
    qed
  qed (use 1 in \<open>auto simp: ordered_def frame_simps rs_OnRemoteEnd_def rs_OnCancel_def rs_OnTerminal_def
         elim!: in_order_same\<close>)
  ultimately show ?case by (simp add: ordered_def)
qed

lemma slot_take: "q_message (s_stream s) = Some m \<Longrightarrow> ordered parse ts s \<Longrightarrow> ordered parse (ts @ [m]) (take_request s)"
  by (auto simp: ordered_def in_order_def slot_list_def take_request_def paced_def Let_def)

lemma take_held: "q_message (s_stream s) = Some m \<Longrightarrow> paced s \<Longrightarrow> held (take_request s)"
  by (auto simp: held_def paced_def take_request_def Let_def)

lemma resume_paced:
  assumes "held s"
  shows "paced (snd (tc_ResumeReceive s))"
  using assms by (auto simp: held_def paced_def tc_ResumeReceive_def tc_command_def ServerCall_ResumeReceive_def
      serverCallResumeReceive_def receiving_def call_closed_def Error_ok_def Let_def)

lemma Finish_ordered: "ordered parse ts s \<Longrightarrow> ordered parse ts (snd (tc_Finish st m s))"
  using order_law.step [of parse ts s "R_call (A_Finish st m)"] by (simp add: tc_handle_def)

lemma Read_cases:
  assumes "rs_Read parse out s bs = Some (m, s', bs')"
  obtains (null) "m = None" "s' = s" "bs' = bs"
  | (over) "cv_wait (rs_handle parse) rs_ready s bs = Some (s', bs')" "q_message (s_stream s') = None" "m = None"
  | (request) s1 bs1 x where "cv_wait (rs_handle parse) rs_ready s bs = Some (s1, bs1)" "q_message (s_stream s1) = Some x"
      "m = Some x" "rs_resume parse (take_request s1) bs1 = (s', bs')"
  using assms by (auto simp: rs_Read_def bind_eq_Some_conv split_beta Let_def split: if_splits option.splits)

lemma Read_ordered:
  assumes "rs_Read parse out s bs = Some (m, s', bs')" "ordered parse ts s"
  shows "ordered parse (ts @ (case m of None \<Rightarrow> [] | Some x \<Rightarrow> [x])) s'"
  using assms(1)
proof (cases rule: Read_cases)
  case over
  with assms(2) show ?thesis using order_law.waited [OF assms(2)] by simp
next
  case (request s1 bs1 x)
  have o: "ordered parse ts s1" by (rule order_law.waited [OF assms(2) request(1)])
  let ?s2 = "fst (preempt (rs_handle parse) (take_request s1) bs1)"
  have o2: "ordered parse (ts @ [x]) ?s2" by (rule order_law.preempted [OF slot_take [OF request(2) o]])
  have "held ?s2" by (rule hold.preempted [OF take_held [OF request(2)]]) (use o in \<open>simp add: ordered_def\<close>)
  then have "paced (snd (tc_ResumeReceive ?s2))" by (rule resume_paced)
  with o2 have "ordered parse (ts @ [x]) (snd (tc_ResumeReceive ?s2))"
    by (auto simp: ordered_def frame_simps elim!: in_order_same)
  then have "ordered parse (ts @ [x]) (fst (rs_resume parse (take_request s1) bs1))"
    by (auto simp: rs_resume_def split_beta Let_def intro: Finish_ordered order_law.preempted)
  with request show ?thesis by simp
qed (use assms(2) in simp)

text \<open>The native call never refuses a resume as out of place.\<close>

definition resumes_in_place :: "('cb, 'req) rstate \<Rightarrow> bool" where
  "resumes_in_place s \<longleftrightarrow>
     (\<forall>i. n_resource (s_native s) i \<noteq> EC_InvalidState) \<and> (S_resume, EC_InvalidState) \<notin> set (n_log (s_native s))"

lemma command_log_resume [frame_simps]:
  "(S_resume, e) \<in> set (n_log (s_native (snd (tc_SendInitialMetadata m c s)))) \<longleftrightarrow> (S_resume, e) \<in> set (n_log (s_native s))"
  "(S_resume, e) \<in> set (n_log (s_native (snd (tc_Send p c s)))) \<longleftrightarrow> (S_resume, e) \<in> set (n_log (s_native s))"
  "(S_resume, e) \<in> set (n_log (s_native (snd (tc_Finish st m s)))) \<longleftrightarrow> (S_resume, e) \<in> set (n_log (s_native s))"
  "n_resource (s_native (snd (tc_SendInitialMetadata m c s))) = n_resource (s_native s)"
  "n_resource (s_native (snd (tc_Send p c s))) = n_resource (s_native s)"
  "n_resource (s_native (snd (tc_Finish st m s))) = n_resource (s_native s)"
  by (simp_all add: typed_defs server_command_defs Let_def split_beta)

lemma call_step_resumes:
  assumes "a \<noteq> A_ResumeReceive"
  shows "n_resource (s_native (fst (tc_handle a s))) = n_resource (s_native s)"
    "(S_resume, e) \<in> set (n_log (s_native (fst (tc_handle a s)))) \<longleftrightarrow> (S_resume, e) \<in> set (n_log (s_native s))"
  using assms
  by (cases a; simp add: tc_handle_def frame_simps callback_defs on_native_def Let_def split_beta split: option.split)+

lemma reject_resumes [frame_simps]:
  "n_resource (s_native (fst (snd (reject code msg s)))) = n_resource (s_native s)"
  "(S_resume, e) \<in> set (n_log (s_native (fst (snd (reject code msg s))))) \<longleftrightarrow> (S_resume, e) \<in> set (n_log (s_native s))"
  by (simp_all add: reject_def Let_def split_beta frame_simps)

interpretation resumes: stream_law parse resumes_in_place for parse
proof (unfold_locales, goal_cases)
  case (1 s e)
  then show ?case
    by (cases e) (auto simp: resumes_in_place_def call_step_resumes rs_OnMessage_def rs_OnRemoteEnd_def rs_OnCancel_def
        rs_OnTerminal_def pause_if_def on_native_def frame_simps Let_def split_beta split: option.split)
qed

lemma resume_in_place:
  assumes "held s" "resumes_in_place s"
  shows "resumes_in_place (snd (tc_ResumeReceive s))"
  using assms
  by (auto simp: held_def receiving_def resumes_in_place_def tc_ResumeReceive_def tc_command_def
      ServerCall_ResumeReceive_def serverCallResumeReceive_def call_closed_def resource_def memory_def Error_ok_def Let_def
      split: if_splits, metis)

lemma Read_resumes:
  assumes "rs_Read parse out s bs = Some (m, s', bs')" "paced s" "resumes_in_place s"
  shows "resumes_in_place s'"
  using assms(1)
proof (cases rule: Read_cases)
  case over
  then show ?thesis using resumes.waited [OF assms(3)] by simp
next
  case (request s1 bs1 x)
  have o: "paced s1" "resumes_in_place s1"
    by (rule pace.waited [OF assms(2) request(1)], rule resumes.waited [OF assms(3) request(1)])
  let ?s2 = "fst (preempt (rs_handle parse) (take_request s1) bs1)"
  have "resumes_in_place ?s2"
    by (rule resumes.preempted) (use o in \<open>simp add: resumes_in_place_def take_request_def\<close>)
  moreover have "held ?s2" by (rule hold.preempted [OF take_held [OF request(2) o(1)]])
  ultimately have "resumes_in_place (snd (tc_ResumeReceive ?s2))" by (intro resume_in_place)
  then have "resumes_in_place (fst (rs_resume parse (take_request s1) bs1))"
    using resumes.preempted [of "snd (tc_ResumeReceive ?s2)" parse]
    by (simp add: rs_resume_def split_beta Let_def resumes_in_place_def frame_simps)
  with request show ?thesis by simp
qed (use assms(3) in simp)

interpretation ready_wait: stable_monitor "rs_handle parse" rs_ready for parse
proof (unfold_locales, goal_cases)
  case (1 s e)
  then show ?case
    by (cases e) (auto simp: rs_ready_def rs_OnMessage_def rs_OnRemoteEnd_def rs_OnCancel_def rs_OnTerminal_def
        reject_def on_native_def frame_simps Let_def split_beta split: option.splits if_splits)
next
  case (2 s e)
  then show ?case
    by (cases e) (auto simp: rs_ready_def rs_OnMessage_def rs_OnRemoteEnd_def rs_OnCancel_def rs_OnTerminal_def
        reject_def on_native_def frame_simps Let_def split_beta split: option.splits if_splits)
qed

interpretation ended: stream_law parse "\<lambda>s. n_terminal (s_native s)" for parse
proof (unfold_locales, goal_cases)
  case (1 s e)
  show ?case
  proof (cases e)
    case (R_call a)
    with 1 handle_native(6) [of a _ s] show ?thesis by (cases "a = A_ResumeReceive") auto
  qed (use 1 in \<open>auto simp: rs_OnMessage_def rs_OnRemoteEnd_def rs_OnCancel_def rs_OnTerminal_def pause_if_def
      on_native_def frame_simps Let_def split_beta split: option.split\<close>)
qed


subsection \<open>Properties\<close>

text \<open>
  The states a client-streaming call can reach, with the requests its reader got so far: one
  thread reads, anything may happen between and during the reads.
\<close>

definition rs_start :: "nat \<Rightarrow> (nat \<Rightarrow> ErrorCode) \<Rightarrow> ServerCall \<Rightarrow> ('cb, 'req) rstate" where
  "rs_start i r call =
     tstate.extend (typed_start i r False call)
       \<lparr>s_stream = TypedRequestStreamState_new, s_delivered = []\<rparr>"

inductive rs_reach :: "(string \<Rightarrow> 'req option) \<Rightarrow> (nat \<Rightarrow> ErrorCode) \<Rightarrow> ('cb, 'req) rstate \<Rightarrow> 'req list \<Rightarrow> bool"
  for parse r where
  start: "rs_reach parse r (rs_start i r call) []"
| event: "rs_reach parse r s ts \<Longrightarrow> rs_reach parse r (fst (rs_handle parse e s)) ts"
| read: "rs_reach parse r s ts \<Longrightarrow> rs_Read parse out s bs = Some (m, s', bs') \<Longrightarrow>
    rs_reach parse r s' (ts @ (case m of None \<Rightarrow> [] | Some x \<Rightarrow> [x]))"

lemma rs_reach_ordered: "rs_reach parse r s ts \<Longrightarrow> ordered parse ts s"
proof (induction rule: rs_reach.induct)
  case (start i call)
  show ?case
    by (simp add: rs_start_def typed_start_def startStreaming_def TypedRequestStreamState_new_def ordered_def
        paced_def in_order_def slot_list_def tstate.defs)
next
  case (event s ts e)
  then show ?case by (intro order_law.step)
next
  case (read s ts out bs m s' bs')
  then show ?case by (intro Read_ordered)
qed

lemma rs_reach_resumes:
  "rs_reach parse r s ts \<Longrightarrow> \<forall>i. r i \<noteq> EC_InvalidState \<Longrightarrow> resumes_in_place s"
proof (induction rule: rs_reach.induct)
  case (start i call)
  then show ?case
    by (simp add: rs_start_def typed_start_def startStreaming_def resumes_in_place_def tstate.defs)
next
  case (event s ts e)
  then show ?case by (intro resumes.step) simp
next
  case (read s ts out bs m s' bs')
  then show ?case using rs_reach_ordered [of parse r s ts] Read_resumes by (auto simp: ordered_def)
qed

text \<open>A concrete parser (a payload that starts with a letter is a request) and a call that reads two requests.\<close>

definition sample_parse :: "string \<Rightarrow> string option" where
  "sample_parse p = (case p of [] \<Rightarrow> None | c # cs \<Rightarrow> Some cs)"

text \<open>The events after which a reader has something to return with.\<close>

fun reader_event :: "'cb rstep \<Rightarrow> native \<Rightarrow> bool" where
  "reader_event (R_message _) n = receiving n"
| "reader_event R_remote_end n = receiving n"
| "reader_event R_cancel n = n_cancelled n"
| "reader_event R_terminal n = n_terminal n"
| "reader_event (R_call _) n = False"

lemma reader_event_ready: "reader_event e (s_native s) \<Longrightarrow> rs_ready (fst (rs_handle parse e s))"
  by (cases e) (auto simp: rs_ready_def rs_OnRemoteEnd_def rs_OnCancel_def rs_OnTerminal_def rs_OnMessage_def on_native_def
      frame_simps Let_def split_beta split: option.split)

definition sample_stream :: "(unit, string) rstate" where
  "sample_stream = rs_start 1 (\<lambda>_. EC_Ok) (Some 0)"

definition sample_batches :: "unit rstep list list" where
  "sample_batches = [[R_message ''ab'', R_message ''zz''], [], [R_call N_resume, R_message ''cd''], []]"

text \<open>
  C4. Requests are neither lost, duplicated nor reordered, and the reader sets the pace. In every
  reachable state of a client-streaming call, the requests \<^verbatim>\<open>Read\<close> returned so far, followed by the
  one in the slot, are the payloads the native call delivered, parsed, in order; if the call was
  rejected, up to the first payload that is too large or does not parse. When the native call may
  deliver a message the slot is empty, so \<^verbatim>\<open>request backpressure violated\<close> cannot happen, and the
  native call never refuses a resume as out of place.
\<close>

theorem request_stream_in_order:
  assumes "rs_reach parse r s ts" and "\<forall>i. r i \<noteq> EC_InvalidState"
  shows "(\<exists>k \<le> length (s_delivered s).
       map parse (take k (s_delivered s)) = map Some (ts @ slot_list s) \<and>
       (if q_rejected (s_stream s) then k < length (s_delivered s) \<and> bad_payload parse (s_delivered s ! k)
        else k = length (s_delivered s))) \<and>
    (receiving (s_native s) \<longrightarrow> q_message (s_stream s) = None) \<and>
    (S_resume, EC_InvalidState) \<notin> set (n_log (s_native s))"
proof -
  from rs_reach_ordered [OF assms(1)] have "in_order parse ts s" "paced s" by (auto simp: ordered_def)
  moreover have "resumes_in_place s" by (rule rs_reach_resumes [OF assms])
  ultimately show ?thesis by (auto simp: in_order_def paced_def resumes_in_place_def Let_def)
qed

theorem request_stream_in_order_witness:
  "case rs_Read sample_parse True sample_stream sample_batches of
     Some (Some m, s, bs) \<Rightarrow>
       m = ''b'' \<and> s_delivered s = [''ab''] \<and> \<not> receiving (s_native s) \<and>
       map sample_parse [''ab''] = map Some ([m] @ slot_list s)
   | _ \<Rightarrow> False"
proof -
  have c: "case rs_Read sample_parse True sample_stream sample_batches of
     Some (Some m, s, bs) \<Rightarrow> m = ''b'' \<and> s_delivered s = [''ab''] \<and> \<not> receiving (s_native s) \<and> \<not> q_rejected (s_stream s)
   | _ \<Rightarrow> False"
    by code_simp
  then obtain s bs where r: "rs_Read sample_parse True sample_stream sample_batches = Some (Some ''b'', s, bs)"
    by (auto split: option.splits prod.splits)
  have "rs_reach sample_parse (\<lambda>_. EC_Ok) s ([] @ [''b''])"
    using rs_reach.read [OF rs_reach.start r [unfolded sample_stream_def]] by simp
  from request_stream_in_order [OF this] c r show ?thesis by auto
qed

text \<open>
  C8. Reading comes back. The wait of \<^verbatim>\<open>TypedRequestStreamState::Read\<close> loses no wake-up, and it
  returns under every schedule that holds, at any place, an event that concerns the reader: a message
  or the end of the requests that the native call still delivers, the callback of a cancellation, or
  the terminal callback of an ended call, whether the call was over before the wait or ends during
  it. A \<^verbatim>\<open>Read\<close> that returns false through the wait means that no request is left and that the
  client half-closed, the call was rejected, cancelled or is over.
\<close>

theorem request_read_returns:
  "cv_wait (rs_handle parse) rs_ready s bs = ideal_wait (rs_handle parse) rs_ready s bs \<and>
   (concat bs = es @ e # es' \<and> reader_event e (s_native (fst (deliver (rs_handle parse) es s))) \<longrightarrow>
      rs_Read parse out s bs \<noteq> None) \<and>
   (n_terminal (s_native s) \<and> (\<exists>b \<in> set bs. R_terminal \<in> set b) \<longrightarrow> rs_Read parse out s bs \<noteq> None) \<and>
   (\<forall>s' bs'. rs_Read parse True s bs = Some (None, s', bs') \<longrightarrow>
      q_message (s_stream s') = None \<and>
      (q_remote_end (s_stream s') \<or> q_rejected (s_stream s') \<or> q_cancelled (s_stream s') \<or> q_terminal (s_stream s')))"
proof (intro conjI impI allI)
  show "cv_wait (rs_handle parse) rs_ready s bs = ideal_wait (rs_handle parse) rs_ready s bs"
    by (rule ready_wait.no_lost_wakeup)
next
  have read: "rs_Read parse out s bs \<noteq> None" if "cv_wait (rs_handle parse) rs_ready s bs \<noteq> None"
    using that by (auto simp: rs_Read_def split: option.split prod.split)
  {
    assume e: "concat bs = es @ e # es' \<and> reader_event e (s_native (fst (deliver (rs_handle parse) es s)))"
    then have "rs_ready (fst (deliver (rs_handle parse) (es @ [e]) s))"
      by (simp add: deliver_append reader_event_ready Let_def split_beta)
    then show "rs_Read parse out s bs \<noteq> None" using e ready_wait.wait_returns_at [of parse "es @ [e]" s bs es'] read by simp
  next
    assume "n_terminal (s_native s) \<and> (\<exists>b \<in> set bs. R_terminal \<in> set b)"
    then have "cv_wait (rs_handle parse) rs_ready s bs \<noteq> None"
      by (intro ready_wait.wait_returns [where J = "\<lambda>s. n_terminal (s_native s)" and e = R_terminal])
        (auto simp: promised_def rs_ready_def rs_OnTerminal_def Let_def intro: ended.step)
    then show "rs_Read parse out s bs \<noteq> None" by (rule read)
  }
next
  fix s' bs' assume "rs_Read parse True s bs = Some (None, s', bs')"
  then have "rs_ready s'" "q_message (s_stream s') = None"
    using cv_wait_holds [of "rs_handle parse" rs_ready s bs]
    by (auto simp: rs_Read_def bind_eq_Some_conv split_beta Let_def split: option.splits)
  then show "q_message (s_stream s') = None"
    "q_remote_end (s_stream s') \<or> q_rejected (s_stream s') \<or> q_cancelled (s_stream s') \<or> q_terminal (s_stream s')"
    by (auto simp: rs_ready_def Let_def)
qed

theorem request_read_returns_witness:
  "rs_Read sample_parse True sample_stream [[R_message ''ab'']] \<noteq> None \<and>
   rs_Read sample_parse True sample_stream [[R_call N_space], [R_remote_end]] \<noteq> None \<and>
   rs_Read sample_parse True sample_stream [[R_call N_cancel, R_cancel]] \<noteq> None \<and>
   rs_Read sample_parse True (on_native (retireStream R_Completed) sample_stream) [[R_remote_end], [R_terminal]] \<noteq> None"
proof -
  have e: "reader_event (R_message ''ab'' :: unit rstep) (s_native (fst (deliver (rs_handle sample_parse) [] sample_stream)))"
    "reader_event (R_remote_end :: unit rstep) (s_native (fst (deliver (rs_handle sample_parse) [R_call N_space] sample_stream)))"
    "reader_event (R_cancel :: unit rstep) (s_native (fst (deliver (rs_handle sample_parse) [R_call N_cancel] sample_stream)))"
    "n_terminal (s_native (on_native (retireStream R_Completed) sample_stream))" by code_simp+
  then show ?thesis
    using request_read_returns [of sample_parse sample_stream "[[R_message ''ab'']]" "[]" "R_message ''ab''" "[]" True]
      request_read_returns [of sample_parse sample_stream "[[R_call N_space], [R_remote_end]]" "[R_call N_space]" R_remote_end "[]" True]
      request_read_returns [of sample_parse sample_stream "[[R_call N_cancel, R_cancel]]" "[R_call N_cancel]" R_cancel "[]" True]
      request_read_returns [of sample_parse "on_native (retireStream R_Completed) sample_stream" "[[R_remote_end], [R_terminal]]" "[]" R_cancel "[]" True]
    by (simp del: rs_handle.simps deliver.simps reader_event.simps)
qed

end
