(* ===== verification/Typed_Wrappers.thy ===== *)
theory Typed_Wrappers
  imports Request_Stream
begin

section \<open>The handles an application holds on a call\<close>

text \<open>
  \<^verbatim>\<open>UnaryCall\<close>, \<^verbatim>\<open>ServerStreamingCall\<close>, \<^verbatim>\<open>ClientStreamingCall\<close> and
  \<^verbatim>\<open>BidirectionalStreamingCall\<close> of \<^verbatim>\<open>grpc_lite/cpp/typed_service.hpp\<close>: move-only handles whose
  shared state may be missing (default construction, or after a move). \<open>has\<close> tells whether the
  handle has a state. The classes differ in the operations they offer and in whether the state is
  the call itself or its request stream.
\<close>

subsection \<open>\<^verbatim>\<open>UnaryCall\<close>\<close>

definition UnaryCall_cancelled :: "bool \<Rightarrow> ('cb, 'z) tstate_scheme \<Rightarrow> bool" where
  "UnaryCall_cancelled has s \<longleftrightarrow> has \<and> tc_cancelled s"

definition UnaryCall_terminal :: "bool \<Rightarrow> ('cb, 'z) tstate_scheme \<Rightarrow> bool" where
  "UnaryCall_terminal has s \<longleftrightarrow> \<not> has \<or> tc_terminal s"

definition UnaryCall_SendInitialMetadata ::
  "bool \<Rightarrow> md_handle option \<Rightarrow> Compression \<Rightarrow> ('cb, 'z) tstate_scheme \<Rightarrow> ErrorCode \<times> ('cb, 'z) tstate_scheme" where
  "UnaryCall_SendInitialMetadata has m c s =
     (if \<not> has then (EC_InvalidState, s) else tc_SendInitialMetadata m c s)"

definition UnaryCall_FinishResponse ::
  "('e, ('cb, 'z) tstate_scheme) handler \<Rightarrow> ('resp \<Rightarrow> string option) \<Rightarrow> bool \<Rightarrow> 'resp \<Rightarrow> Status \<Rightarrow> md_handle option \<Rightarrow> Compression \<Rightarrow>
   ('cb, 'z) tstate_scheme \<Rightarrow> 'e list list \<Rightarrow> ErrorCode \<times> ('cb, 'z) tstate_scheme \<times> 'e list list" where
  "UnaryCall_FinishResponse h serialize has response st m c s bs =
     (if \<not> has then (EC_InvalidState, s, bs) else FinishResponse h serialize response st m c s bs)"

definition UnaryCall_Finish ::
  "bool \<Rightarrow> Status \<Rightarrow> md_handle option \<Rightarrow> ('cb, 'z) tstate_scheme \<Rightarrow> ErrorCode \<times> ('cb, 'z) tstate_scheme" where
  "UnaryCall_Finish has st m s =
     (if \<not> has then (EC_InvalidState, s) else tc_Finish st m s)"

definition UnaryCall_SetOnCancel ::
  "bool \<Rightarrow> 'cb option \<Rightarrow> ('cb, 'z) tstate_scheme \<Rightarrow> 'cb option \<times> ('cb, 'z) tstate_scheme" where
  "UnaryCall_SetOnCancel has cb s =
     (if has then SetOnCancel cb s else (None, s))"

definition UnaryCall_SetOnTerminal ::
  "bool \<Rightarrow> 'cb option \<Rightarrow> ('cb, 'z) tstate_scheme \<Rightarrow> ('cb \<times> ServerTerminalReason) option \<times> ('cb, 'z) tstate_scheme" where
  "UnaryCall_SetOnTerminal has cb s =
     (if has then SetOnTerminal cb s else (None, s))"

subsection \<open>\<^verbatim>\<open>ServerStreamingCall\<close>\<close>

definition ServerStreamingCall_cancelled :: "bool \<Rightarrow> ('cb, 'z) tstate_scheme \<Rightarrow> bool" where
  "ServerStreamingCall_cancelled has s \<longleftrightarrow> has \<and> tc_cancelled s"

definition ServerStreamingCall_terminal :: "bool \<Rightarrow> ('cb, 'z) tstate_scheme \<Rightarrow> bool" where
  "ServerStreamingCall_terminal has s \<longleftrightarrow> \<not> has \<or> tc_terminal s"

definition ServerStreamingCall_SendInitialMetadata ::
  "bool \<Rightarrow> md_handle option \<Rightarrow> Compression \<Rightarrow> ('cb, 'z) tstate_scheme \<Rightarrow> ErrorCode \<times> ('cb, 'z) tstate_scheme" where
  "ServerStreamingCall_SendInitialMetadata has m c s =
     (if \<not> has then (EC_InvalidState, s) else tc_SendInitialMetadata m c s)"

definition ServerStreamingCall_TryWrite ::
  "('resp \<Rightarrow> string option) \<Rightarrow> bool \<Rightarrow> 'resp \<Rightarrow> Compression \<Rightarrow> ('cb, 'z) tstate_scheme \<Rightarrow> ErrorCode \<times> ('cb, 'z) tstate_scheme" where
  "ServerStreamingCall_TryWrite serialize has response c s =
     (if \<not> has then (EC_InvalidState, s)
      else case serialize response of
             None \<Rightarrow>
               let (finish_error, s') =
                 tc_Finish \<lparr>s_code = SC_Internal, s_message = ''failed to serialize response''\<rparr> None s
               in (if Error_ok finish_error then EC_Internal else finish_error, s')
           | Some payload \<Rightarrow> tc_Send payload c s)"

definition ServerStreamingCall_WaitForWritable ::
  "('e, ('cb, 'z) tstate_scheme) handler \<Rightarrow> bool \<Rightarrow> ('cb, 'z) tstate_scheme \<Rightarrow> 'e list list \<Rightarrow> (bool \<times> ('cb, 'z) tstate_scheme \<times> 'e list list) option" where
  "ServerStreamingCall_WaitForWritable h has s bs =
     (if has then WaitForWritable h s bs else Some (False, s, bs))"

definition ServerStreamingCall_Finish ::
  "bool \<Rightarrow> Status \<Rightarrow> md_handle option \<Rightarrow> ('cb, 'z) tstate_scheme \<Rightarrow> ErrorCode \<times> ('cb, 'z) tstate_scheme" where
  "ServerStreamingCall_Finish has st m s =
     (if \<not> has then (EC_InvalidState, s) else tc_Finish st m s)"

definition ServerStreamingCall_SetOnWritable ::
  "bool \<Rightarrow> 'cb option \<Rightarrow> ('cb, 'z) tstate_scheme \<Rightarrow> 'cb option \<times> ('cb, 'z) tstate_scheme" where
  "ServerStreamingCall_SetOnWritable has cb s =
     (if has then SetOnWritable cb s else (None, s))"

definition ServerStreamingCall_SetOnCancel ::
  "bool \<Rightarrow> 'cb option \<Rightarrow> ('cb, 'z) tstate_scheme \<Rightarrow> 'cb option \<times> ('cb, 'z) tstate_scheme" where
  "ServerStreamingCall_SetOnCancel has cb s =
     (if has then SetOnCancel cb s else (None, s))"

definition ServerStreamingCall_SetOnTerminal ::
  "bool \<Rightarrow> 'cb option \<Rightarrow> ('cb, 'z) tstate_scheme \<Rightarrow> ('cb \<times> ServerTerminalReason) option \<times> ('cb, 'z) tstate_scheme" where
  "ServerStreamingCall_SetOnTerminal has cb s =
     (if has then SetOnTerminal cb s else (None, s))"

subsection \<open>\<^verbatim>\<open>ClientStreamingCall\<close>\<close>

definition ClientStreamingCall_cancelled :: "bool \<Rightarrow> ('cb, 'req) rstate \<Rightarrow> bool" where
  "ClientStreamingCall_cancelled has s \<longleftrightarrow> has \<and> tc_cancelled s"

definition ClientStreamingCall_terminal :: "bool \<Rightarrow> ('cb, 'req) rstate \<Rightarrow> bool" where
  "ClientStreamingCall_terminal has s \<longleftrightarrow> \<not> has \<or> tc_terminal s"

definition ClientStreamingCall_SendInitialMetadata ::
  "bool \<Rightarrow> md_handle option \<Rightarrow> Compression \<Rightarrow> ('cb, 'req) rstate \<Rightarrow> ErrorCode \<times> ('cb, 'req) rstate" where
  "ClientStreamingCall_SendInitialMetadata has m c s =
     (if \<not> has then (EC_InvalidState, s) else tc_SendInitialMetadata m c s)"

definition ClientStreamingCall_Read ::
  "(string \<Rightarrow> 'req option) \<Rightarrow> bool \<Rightarrow> bool \<Rightarrow> ('cb, 'req) rstate \<Rightarrow> 'cb rstep list list \<Rightarrow>
   ('req option \<times> ('cb, 'req) rstate \<times> 'cb rstep list list) option" where
  "ClientStreamingCall_Read parse has out s bs =
     (if has then rs_Read parse out s bs else Some (None, s, bs))"

definition ClientStreamingCall_FinishResponse ::
  "('e, ('cb, 'req) rstate) handler \<Rightarrow> ('resp \<Rightarrow> string option) \<Rightarrow> bool \<Rightarrow> 'resp \<Rightarrow> Status \<Rightarrow> md_handle option \<Rightarrow> Compression \<Rightarrow>
   ('cb, 'req) rstate \<Rightarrow> 'e list list \<Rightarrow> ErrorCode \<times> ('cb, 'req) rstate \<times> 'e list list" where
  "ClientStreamingCall_FinishResponse h serialize has response st m c s bs =
     (if \<not> has then (EC_InvalidState, s, bs) else FinishResponse h serialize response st m c s bs)"

definition ClientStreamingCall_Finish ::
  "bool \<Rightarrow> Status \<Rightarrow> md_handle option \<Rightarrow> ('cb, 'req) rstate \<Rightarrow> ErrorCode \<times> ('cb, 'req) rstate" where
  "ClientStreamingCall_Finish has st m s =
     (if \<not> has then (EC_InvalidState, s) else tc_Finish st m s)"

definition ClientStreamingCall_SetOnCancel ::
  "bool \<Rightarrow> 'cb option \<Rightarrow> ('cb, 'req) rstate \<Rightarrow> 'cb option \<times> ('cb, 'req) rstate" where
  "ClientStreamingCall_SetOnCancel has cb s =
     (if has then SetOnCancel cb s else (None, s))"

definition ClientStreamingCall_SetOnTerminal ::
  "bool \<Rightarrow> 'cb option \<Rightarrow> ('cb, 'req) rstate \<Rightarrow> ('cb \<times> ServerTerminalReason) option \<times> ('cb, 'req) rstate" where
  "ClientStreamingCall_SetOnTerminal has cb s =
     (if has then SetOnTerminal cb s else (None, s))"

subsection \<open>\<^verbatim>\<open>BidirectionalStreamingCall\<close>\<close>

definition BidirectionalStreamingCall_cancelled :: "bool \<Rightarrow> ('cb, 'req) rstate \<Rightarrow> bool" where
  "BidirectionalStreamingCall_cancelled has s \<longleftrightarrow> has \<and> tc_cancelled s"

definition BidirectionalStreamingCall_terminal :: "bool \<Rightarrow> ('cb, 'req) rstate \<Rightarrow> bool" where
  "BidirectionalStreamingCall_terminal has s \<longleftrightarrow> \<not> has \<or> tc_terminal s"

definition BidirectionalStreamingCall_SendInitialMetadata ::
  "bool \<Rightarrow> md_handle option \<Rightarrow> Compression \<Rightarrow> ('cb, 'req) rstate \<Rightarrow> ErrorCode \<times> ('cb, 'req) rstate" where
  "BidirectionalStreamingCall_SendInitialMetadata has m c s =
     (if \<not> has then (EC_InvalidState, s) else tc_SendInitialMetadata m c s)"

definition BidirectionalStreamingCall_TryWrite ::
  "('resp \<Rightarrow> string option) \<Rightarrow> bool \<Rightarrow> 'resp \<Rightarrow> Compression \<Rightarrow> ('cb, 'req) rstate \<Rightarrow> ErrorCode \<times> ('cb, 'req) rstate" where
  "BidirectionalStreamingCall_TryWrite serialize has response c s =
     (if \<not> has then (EC_InvalidState, s)
      else case serialize response of
             None \<Rightarrow>
               let (finish_error, s') =
                 tc_Finish \<lparr>s_code = SC_Internal, s_message = ''failed to serialize response''\<rparr> None s
               in (if Error_ok finish_error then EC_Internal else finish_error, s')
           | Some payload \<Rightarrow> tc_Send payload c s)"

definition BidirectionalStreamingCall_WaitForWritable ::
  "('e, ('cb, 'req) rstate) handler \<Rightarrow> bool \<Rightarrow> ('cb, 'req) rstate \<Rightarrow> 'e list list \<Rightarrow> (bool \<times> ('cb, 'req) rstate \<times> 'e list list) option" where
  "BidirectionalStreamingCall_WaitForWritable h has s bs =
     (if has then WaitForWritable h s bs else Some (False, s, bs))"

definition BidirectionalStreamingCall_Read ::
  "(string \<Rightarrow> 'req option) \<Rightarrow> bool \<Rightarrow> bool \<Rightarrow> ('cb, 'req) rstate \<Rightarrow> 'cb rstep list list \<Rightarrow>
   ('req option \<times> ('cb, 'req) rstate \<times> 'cb rstep list list) option" where
  "BidirectionalStreamingCall_Read parse has out s bs =
     (if has then rs_Read parse out s bs else Some (None, s, bs))"

definition BidirectionalStreamingCall_Finish ::
  "bool \<Rightarrow> Status \<Rightarrow> md_handle option \<Rightarrow> ('cb, 'req) rstate \<Rightarrow> ErrorCode \<times> ('cb, 'req) rstate" where
  "BidirectionalStreamingCall_Finish has st m s =
     (if \<not> has then (EC_InvalidState, s) else tc_Finish st m s)"

definition BidirectionalStreamingCall_SetOnWritable ::
  "bool \<Rightarrow> 'cb option \<Rightarrow> ('cb, 'req) rstate \<Rightarrow> 'cb option \<times> ('cb, 'req) rstate" where
  "BidirectionalStreamingCall_SetOnWritable has cb s =
     (if has then SetOnWritable cb s else (None, s))"

definition BidirectionalStreamingCall_SetOnCancel ::
  "bool \<Rightarrow> 'cb option \<Rightarrow> ('cb, 'req) rstate \<Rightarrow> 'cb option \<times> ('cb, 'req) rstate" where
  "BidirectionalStreamingCall_SetOnCancel has cb s =
     (if has then SetOnCancel cb s else (None, s))"

definition BidirectionalStreamingCall_SetOnTerminal ::
  "bool \<Rightarrow> 'cb option \<Rightarrow> ('cb, 'req) rstate \<Rightarrow> ('cb \<times> ServerTerminalReason) option \<times> ('cb, 'req) rstate" where
  "BidirectionalStreamingCall_SetOnTerminal has cb s =
     (if has then SetOnTerminal cb s else (None, s))"

end
