(* ===== verification/Admission_Gate.thy ===== *)
theory Admission_Gate
  imports Prelude
begin

section \<open>The admission gate of a queued call\<close>

text \<open>
  \<^verbatim>\<open>internal::CallAdmissionGate\<close> of \<^verbatim>\<open>grpc_lite/cpp/sync_service.hpp\<close>: one atomic variable that
  decides between the executor's task, which starts the handler of a call, and the callbacks of a
  cancelled or ended call, which stop it from starting.

  A strong compare-and-exchange is one step on the variable. The loop of \<^verbatim>\<open>Stop\<close> uses the weak
  form, which may fail although the value is the expected one, and other threads act between its
  iterations: both are given by a list with one element for each iteration.
\<close>

datatype gate = G_Queued | G_Starting | G_Running | G_Stopped

definition BeginStart :: "gate \<Rightarrow> bool \<times> gate" where
  "BeginStart g = (if g = G_Queued then (True, G_Starting) else (False, g))"

definition CommitStart :: "gate \<Rightarrow> bool \<times> gate" where
  "CommitStart g = (if g = G_Starting then (True, G_Running) else (False, g))"

text \<open>What \<^verbatim>\<open>Stop\<close> does to the variable, at the moment its exchange succeeds or it gives up.\<close>

definition stopped :: "gate \<Rightarrow> gate" where
  "stopped g = (if g = G_Queued \<or> g = G_Starting then G_Stopped else g)"

datatype gact = GA_begin | GA_commit | GA_stop

fun gate_act :: "gact \<Rightarrow> gate \<Rightarrow> gate" where
  "gate_act GA_begin g = snd (BeginStart g)"
| "gate_act GA_commit g = snd (CommitStart g)"
| "gate_act GA_stop g = stopped g"

text \<open>
  \<^verbatim>\<open>Stop\<close>: \<open>state\<close> is the local variable, \<open>g\<close> the atomic one; an iteration of the list holds what
  other threads do before the exchange, and whether the exchange fails spuriously. A failed
  exchange loads the current value. \<^const>\<open>None\<close> is a loop that is still running.
\<close>

fun Stop_loop :: "gate \<Rightarrow> gate \<Rightarrow> (gact list \<times> bool) list \<Rightarrow> gate option" where
  "Stop_loop state g its =
     (if state = G_Queued \<or> state = G_Starting
      then case its of
             [] \<Rightarrow> None
           | (acts, spurious) # its' \<Rightarrow>
               let g' = fold gate_act acts g in
               if g' = state \<and> \<not> spurious then Some G_Stopped else Stop_loop g' g' its'
      else Some g)"

declare Stop_loop.simps [simp del]

definition gate_Stop :: "gate \<Rightarrow> (gact list \<times> bool) list \<Rightarrow> gate option" where
  "gate_Stop g its = Stop_loop g g its"

subsection \<open>Lemmas\<close>

lemmas gate_defs = BeginStart_def CommitStart_def stopped_def

text \<open>The variable only moves forward.\<close>

fun gate_rank :: "gate \<Rightarrow> nat" where
  "gate_rank G_Queued = 0"
| "gate_rank G_Starting = 1"
| "gate_rank G_Running = 2"
| "gate_rank G_Stopped = 2"

definition settled :: "gate \<Rightarrow> bool" where
  "settled g \<longleftrightarrow> g = G_Running \<or> g = G_Stopped"

lemma settled_act [simp]: "settled g \<Longrightarrow> gate_act a g = g"
  by (cases a) (auto simp: settled_def gate_defs)

lemma settled_acts [simp]: "settled g \<Longrightarrow> fold gate_act as g = g"
  by (induction as) auto

lemma gate_act_rank: "gate_act a g \<noteq> g \<Longrightarrow> gate_rank g < gate_rank (gate_act a g)"
  by (cases a; cases g) (auto simp: gate_defs)

lemma gate_acts_rank: "fold gate_act as g = g \<or> gate_rank g < gate_rank (fold gate_act as g)"
proof (induction as arbitrary: g)
  case (Cons a as)
  then show ?case using gate_act_rank [of a g] Cons.IH [of "gate_act a g"] by fastforce
qed simp

text \<open>The exchanges that do not fail for no reason.\<close>

definition sound_tries :: "(gact list \<times> bool) list \<Rightarrow> nat" where
  "sound_tries its = length (filter (\<lambda>it. \<not> snd it) its)"

lemma Stop_loop_returns:
  assumes "2 - gate_rank state < sound_tries its \<or> settled state" and "state = g"
  shows "Stop_loop state g its \<noteq> None"
  using assms
proof (induction its arbitrary: state g)
  case Nil
  then show ?case by (subst Stop_loop.simps) (auto simp: sound_tries_def settled_def)
next
  case (Cons it its)
  obtain acts spurious where it: "it = (acts, spurious)" by fastforce
  let ?g = "fold gate_act acts g"
  show ?case
  proof (cases "settled g")
    case True
    with Cons.prems show ?thesis by (subst Stop_loop.simps) (auto simp: settled_def)
  next
    case False
    have "Stop_loop ?g ?g its \<noteq> None" if "\<not> (?g = g \<and> \<not> spurious)"
    proof (rule Cons.IH)
      show "2 - gate_rank ?g < sound_tries its \<or> settled ?g"
        using gate_acts_rank [of acts g] Cons.prems False that it
        by (cases "settled ?g"; cases g; cases ?g; cases spurious) (auto simp: sound_tries_def settled_def)
    qed simp
    with False Cons.prems(2) it show ?thesis
      by (subst Stop_loop.simps) (auto simp: Let_def settled_def)
  qed
qed

lemma Stop_loop_effect:
  assumes "Stop_loop state g its = Some g'" and "state = g"
  shows "settled g' \<and> (\<exists>as. g' = stopped (fold gate_act as g))"
  using assms
proof (induction its arbitrary: state g)
  case Nil
  then show ?case
    by (subst (asm) Stop_loop.simps) (cases g; auto simp: settled_def stopped_def intro: exI [of _ "[]"])
next
  case (Cons it its)
  obtain acts spurious where it: "it = (acts, spurious)" by fastforce
  show ?case
  proof (cases "g = G_Queued \<or> g = G_Starting")
    case False
    with Cons.prems show ?thesis
      by (subst (asm) Stop_loop.simps) (cases g; auto simp: settled_def stopped_def intro: exI [of _ "[]"])
  next
    case True
    let ?g = "fold gate_act acts g"
    show ?thesis
    proof (cases "?g = g \<and> \<not> spurious")
      case stop: True
      with True Cons.prems it have "g' = G_Stopped" by (subst (asm) Stop_loop.simps) (auto simp: Let_def)
      with stop True show ?thesis by (auto simp: settled_def stopped_def intro: exI [of _ acts])
    next
      case retry: False
      with True Cons.prems it have "Stop_loop ?g ?g its = Some g'"
        by (subst (asm) Stop_loop.simps) (auto simp: Let_def)
      from Cons.IH [OF this refl] obtain as where "settled g'" "g' = stopped (fold gate_act as ?g)" by blast
      then show ?thesis by (auto intro: exI [of _ "acts @ as"])
    qed
  qed
qed

subsection \<open>Properties\<close>

text \<open>
  C23. \<^verbatim>\<open>Stop\<close> always comes to an end. Whatever other threads do to the gate in between, the loop
  returns once three of its exchanges have not failed spuriously; when it returns, the gate is
  running or stopped for good, and the whole loop had the effect of one atomic stop after some of
  the other threads' steps.
\<close>

theorem gate_stop_returns:
  assumes "3 \<le> sound_tries its"
  shows "\<exists>g'. gate_Stop g its = Some g' \<and> settled g' \<and> (\<exists>as. g' = stopped (fold gate_act as g))"
proof -
  have "Stop_loop g g its \<noteq> None" by (rule Stop_loop_returns) (use assms in \<open>cases g; simp\<close>, simp)
  then obtain g' where "Stop_loop g g its = Some g'" by auto
  with Stop_loop_effect [OF this refl] show ?thesis by (simp add: gate_Stop_def)
qed

theorem gate_stop_returns_witness:
  "let its = [([], True), ([GA_begin], False), ([GA_commit], False), ([], False)] in
   3 \<le> sound_tries its \<and> (\<exists>g'. gate_Stop G_Queued its = Some g' \<and> settled g') \<and> gate_Stop G_Queued its = Some G_Running"
proof -
  have "3 \<le> sound_tries [([], True), ([GA_begin], False), ([GA_commit], False), ([], False)]"
    "gate_Stop G_Queued [([], True), ([GA_begin], False), ([GA_commit], False), ([], False)] = Some G_Running"
    by code_simp+
  with gate_stop_returns [OF this(1), of G_Queued] show ?thesis by (auto simp: Let_def)
qed

end
