(* ===== verification/Sync_Service.thy ===== *)
theory Sync_Service
  imports Typed_Wrappers Admission_Gate
begin

section \<open>Synchronous services\<close>

text \<open>
  The dispatchers of \<^verbatim>\<open>grpc_lite/cpp/sync_service.hpp\<close>, which run a blocking handler of a grpcpp
  service on an executor thread, the context it is given (\<^verbatim>\<open>grpcpp/server_context.h\<close>) and the
  streams it reads and writes (\<^verbatim>\<open>grpcpp/support/sync_stream.h\<close>).

  The state of a dispatched call is the structure \<^verbatim>\<open>State\<close> of the dispatchers around the call;
  \<^typ>\<open>'c\<close> is the type of calls, with or without a request stream, and a handler \<open>h\<close> says what other
  threads do to it. The executor is the application's: whether it accepts a task is an argument,
  and an accepted task may run at any later time, or several times.
\<close>

subsection \<open>The context of a handler\<close>

record gctx =
  gx_client_metadata :: "entry list"
  gx_initial_metadata :: "entry list"
  gx_trailing_metadata :: "entry list"
  gx_compression :: grpc_compression_algorithm

definition grpc_ServerContext_new :: "ServerContext \<Rightarrow> grpc_compression_algorithm \<Rightarrow> gctx" where
  "grpc_ServerContext_new context compression =
     \<lparr>gx_client_metadata = mm_of_entries (x_request_metadata context), gx_initial_metadata = [],
      gx_trailing_metadata = [], gx_compression = compression\<rparr>"

definition AddInitialMetadata :: "string \<Rightarrow> string \<Rightarrow> gctx \<Rightarrow> gctx" where
  "AddInitialMetadata key value g =
     g\<lparr>gx_initial_metadata := mm_emplace (key, value) (gx_initial_metadata g)\<rparr>"

definition AddTrailingMetadata :: "string \<Rightarrow> string \<Rightarrow> gctx \<Rightarrow> gctx" where
  "AddTrailingMetadata key value g =
     g\<lparr>gx_trailing_metadata := mm_emplace (key, value) (gx_trailing_metadata g)\<rparr>"

definition set_compression_algorithm :: "grpc_compression_algorithm \<Rightarrow> gctx \<Rightarrow> gctx" where
  "set_compression_algorithm algorithm g = g\<lparr>gx_compression := algorithm\<rparr>"

subsection \<open>The state of a dispatched call\<close>

record 'c dstate =
  d_call :: 'c
  d_context :: gctx
  d_heap :: heap
  d_initial_metadata_sent :: bool
  d_gate :: gate
  d_handled :: nat

text \<open>\<open>d_handled\<close> counts how often the handler was started.\<close>

definition dispatch_state :: "'c \<Rightarrow> ServerContext \<Rightarrow> Compression \<Rightarrow> heap \<Rightarrow> 'c dstate" where
  "dispatch_state call native_context response_compression hp =
     \<lparr>d_call = call, d_context = grpc_ServerContext_new native_context (GrpcCompression response_compression),
      d_heap = hp, d_initial_metadata_sent = False, d_gate = G_Queued, d_handled = 0\<rparr>"

definition on_call :: "('c \<Rightarrow> 'r \<times> 'c) \<Rightarrow> 'c dstate \<Rightarrow> 'r \<times> 'c dstate" where
  "on_call f s = (let (r, c) = f (d_call s) in (r, s\<lparr>d_call := c\<rparr>))"

definition d_lift :: "('e, 'c) handler \<Rightarrow> ('e, 'c dstate) handler" where
  "d_lift h e s = (let (c, notified) = h e (d_call s) in (s\<lparr>d_call := c\<rparr>, notified))"

abbreviation pre :: "('e, 'c) handler \<Rightarrow> 'c dstate \<Rightarrow> 'e list list \<Rightarrow> 'c dstate \<times> 'e list list" where
  "pre h \<equiv> preempt (d_lift h)"

subsection \<open>Metadata and final status\<close>

text \<open>
  The two function templates are used with each kind of call: \<open>send\<close> and \<open>fin\<close> are its
  \<^verbatim>\<open>SendInitialMetadata\<close> and \<^verbatim>\<open>Finish\<close>. The local metadata object is destroyed on every path.
\<close>

definition svc_SendInitialMetadata ::
  "(md_handle option \<Rightarrow> Compression \<Rightarrow> 'c \<Rightarrow> ErrorCode \<times> 'c) \<Rightarrow> 'c dstate \<Rightarrow> ErrorCode \<times> 'c dstate" where
  "svc_SendInitialMetadata send s =
     (let (error, metadata, hp) = CopyMetadata (gx_initial_metadata (d_context s)) None (d_heap s);
          s1 = s\<lparr>d_heap := grpc_lite_metadata_destroy metadata hp\<rparr> in
      if \<not> Error_ok error then (error, s1)
      else on_call (send (Some metadata) (NativeCompression (gx_compression (d_context s)))) s1)"

definition svc_Finish ::
  "(Status \<Rightarrow> md_handle option \<Rightarrow> 'c \<Rightarrow> ErrorCode \<times> 'c) \<Rightarrow> GrpcStatus \<Rightarrow> 'c dstate \<Rightarrow> ErrorCode \<times> 'c dstate" where
  "svc_Finish fin st s =
     (let (error, trailing, hp) = CopyMetadata (gx_trailing_metadata (d_context s)) None (d_heap s);
          s1 = s\<lparr>d_heap := grpc_lite_metadata_destroy trailing hp\<rparr> in
      if \<not> Error_ok error
      then on_call (fin \<lparr>s_code = SC_Internal, s_message = ''failed to copy metadata''\<rparr> None) s1
      else on_call (fin (ToNativeStatus st) (Some trailing)) s1)"

text \<open>
  The end of a call with one response: the branch on the handler's status in the two \<^verbatim>\<open>Run\<close>
  functions that have a response; \<open>finr\<close> is the call's \<^verbatim>\<open>Finish\<close> with a response.
\<close>

definition respond ::
  "(Status \<Rightarrow> md_handle option \<Rightarrow> 'c \<Rightarrow> ErrorCode \<times> 'c) \<Rightarrow>
   ('resp \<Rightarrow> Status \<Rightarrow> md_handle option \<Rightarrow> Compression \<Rightarrow> 'c \<Rightarrow> 'e list list \<Rightarrow> ErrorCode \<times> 'c \<times> 'e list list) \<Rightarrow>
   GrpcStatus \<Rightarrow> 'resp \<Rightarrow> 'c dstate \<Rightarrow> 'e list list \<Rightarrow> 'c dstate \<times> 'e list list" where
  "respond fin finr st response s bs =
     (if g_is_ok st
      then let (trailing_error, trailing, hp) = CopyMetadata (gx_trailing_metadata (d_context s)) None (d_heap s);
               s1 = s\<lparr>d_heap := grpc_lite_metadata_destroy trailing hp\<rparr> in
           if \<not> Error_ok trailing_error
           then (snd (on_call (fin \<lparr>s_code = SC_Internal, s_message = ''failed to copy metadata''\<rparr> None) s1), bs)
           else let (_, c, bs') = finr response Status_default (Some trailing)
                      (NativeCompression (gx_compression (d_context s))) (d_call s1) bs
                in (s1\<lparr>d_call := c\<rparr>, bs')
      else (snd (svc_Finish fin st s), bs))"

text \<open>The end of a call that streams its responses.\<close>

definition end_stream ::
  "('e, 'c) handler \<Rightarrow> (md_handle option \<Rightarrow> Compression \<Rightarrow> 'c \<Rightarrow> ErrorCode \<times> 'c) \<Rightarrow>
   (Status \<Rightarrow> md_handle option \<Rightarrow> 'c \<Rightarrow> ErrorCode \<times> 'c) \<Rightarrow>
   GrpcStatus \<Rightarrow> 'c dstate \<Rightarrow> 'e list list \<Rightarrow> 'c dstate \<times> 'e list list" where
  "end_stream h send fin st s bs =
     (if d_initial_metadata_sent s then (snd (svc_Finish fin st s), bs)
      else let (error, s1) = svc_SendInitialMetadata send s; (s2, bs2) = pre h s1 bs in
      if \<not> Error_ok error
      then (snd (on_call (fin \<lparr>s_code = SC_Internal, s_message = ''failed to send initial metadata''\<rparr> None) s2), bs2)
      else (snd (svc_Finish fin st (s2\<lparr>d_initial_metadata_sent := True\<rparr>)), bs2))"

subsection \<open>Writing and reading\<close>

text \<open>The dispatchers' \<^verbatim>\<open>TryWrite\<close>: the initial metadata goes before the first message.\<close>

definition d_TryWrite ::
  "('e, 'c) handler \<Rightarrow> (md_handle option \<Rightarrow> Compression \<Rightarrow> 'c \<Rightarrow> ErrorCode \<times> 'c) \<Rightarrow>
   ('resp \<Rightarrow> Compression \<Rightarrow> 'c \<Rightarrow> ErrorCode \<times> 'c) \<Rightarrow> 'resp \<Rightarrow> 'c dstate \<Rightarrow> 'e list list \<Rightarrow>
   ErrorCode \<times> 'c dstate \<times> 'e list list" where
  "d_TryWrite h send try response s bs =
     (let (error, s1) = (if d_initial_metadata_sent s then (EC_Ok, s) else svc_SendInitialMetadata send s) in
      if \<not> Error_ok error then (error, s1, bs)
      else let s2 = s1\<lparr>d_initial_metadata_sent := True\<rparr>;
               (s3, bs3) = (if d_initial_metadata_sent s then (s2, bs) else pre h s2 bs);
               (e, s4) = on_call (try response (NativeCompression (gx_compression (d_context s3)))) s3
           in (e, s4, bs3))"

text \<open>\<^verbatim>\<open>ServerWriter::Write\<close> and \<^verbatim>\<open>ServerReaderWriter::Write\<close>, over the functions they are built with.\<close>

partial_function (option) ServerWriter_Write ::
  "('e, 'c) handler \<Rightarrow> ('c \<Rightarrow> bool) \<Rightarrow>
   ('resp \<Rightarrow> 'c dstate \<Rightarrow> 'e list list \<Rightarrow> ErrorCode \<times> 'c dstate \<times> 'e list list) \<Rightarrow>
   ('c dstate \<Rightarrow> 'e list list \<Rightarrow> (bool \<times> 'c dstate \<times> 'e list list) option) \<Rightarrow>
   'resp \<Rightarrow> 'c dstate \<Rightarrow> 'e list list \<Rightarrow> (bool \<times> 'c dstate \<times> 'e list list) option" where
  "ServerWriter_Write h cancelled try_write wait_for_writable response s bs =
     (let (s0, bs0) = pre h s bs in
      if cancelled (d_call s0) then Some (False, s0, bs0)
      else let (s1, bs1) = pre h s0 bs0; (e, s2, bs2) = try_write response s1 bs1 in
      if Error_ok e then Some (True, s2, bs2)
      else if e \<noteq> EC_WouldBlock then Some (False, s2, bs2)
      else do {
        (w, s3, bs3) \<leftarrow> wait_for_writable s2 bs2;
        if \<not> w then Some (False, s3, bs3)
        else ServerWriter_Write h cancelled try_write wait_for_writable response s3 bs3 })"

declare ServerWriter_Write.simps [code]

text \<open>\<^verbatim>\<open>ServerReader::Read\<close> and \<^verbatim>\<open>ServerReaderWriter::Read\<close>; \<open>out\<close>: the pointer is not null.\<close>

definition ServerReader_Read ::
  "('e, 'c) handler \<Rightarrow> ('c \<Rightarrow> bool) \<Rightarrow>
   ('c dstate \<Rightarrow> 'e list list \<Rightarrow> ('req option \<times> 'c dstate \<times> 'e list list) option) \<Rightarrow> bool \<Rightarrow>
   'c dstate \<Rightarrow> 'e list list \<Rightarrow> ('req option \<times> 'c dstate \<times> 'e list list) option" where
  "ServerReader_Read h cancelled read out s bs =
     (if \<not> out then Some (None, s, bs)
      else let (s1, bs1) = pre h s bs in
      if cancelled (d_call s1) then Some (None, s1, bs1) else read s1 bs1)"

definition d_wait ::
  "('c \<Rightarrow> 'e list list \<Rightarrow> (bool \<times> 'c \<times> 'e list list) option) \<Rightarrow>
   'c dstate \<Rightarrow> 'e list list \<Rightarrow> (bool \<times> 'c dstate \<times> 'e list list) option" where
  "d_wait wait s bs = do { (w, c, bs') \<leftarrow> wait (d_call s) bs; Some (w, s\<lparr>d_call := c\<rparr>, bs') }"

definition d_read ::
  "('c \<Rightarrow> 'e list list \<Rightarrow> ('req option \<times> 'c \<times> 'e list list) option) \<Rightarrow>
   'c dstate \<Rightarrow> 'e list list \<Rightarrow> ('req option \<times> 'c dstate \<times> 'e list list) option" where
  "d_read read s bs = do { (m, c, bs') \<leftarrow> read (d_call s) bs; Some (m, s\<lparr>d_call := c\<rparr>, bs') }"

subsection \<open>Handlers\<close>

text \<open>
  A handler is code of the application: a machine that, in each of its states, does one thing
  with the context or the stream it was given and goes on with the answer, until it returns a
  status (with the response, where there is one).
\<close>

datatype ('h, 'req, 'resp, 'out) hact =
    H_return GrpcStatus 'out
  | H_context "gctx \<Rightarrow> gctx" 'h
  | H_cancelled "bool \<Rightarrow> 'h"
  | H_write 'resp "bool \<Rightarrow> 'h"
  | H_read bool "'req option \<Rightarrow> 'h"

text \<open>What a handler runs with: its code, the other threads, and the functions of its stream.\<close>

record ('h, 'req, 'resp, 'out, 'e, 'c) henv =
  he_act :: "'h \<Rightarrow> ('h, 'req, 'resp, 'out) hact"
  he_threads :: "('e, 'c) handler"
  he_cancelled :: "'c \<Rightarrow> bool"
  he_write :: "'resp \<Rightarrow> 'c dstate \<Rightarrow> 'e list list \<Rightarrow> (bool \<times> 'c dstate \<times> 'e list list) option"
  he_read :: "bool \<Rightarrow> 'c dstate \<Rightarrow> 'e list list \<Rightarrow> ('req option \<times> 'c dstate \<times> 'e list list) option"

partial_function (option) run_handler ::
  "('h, 'req, 'resp, 'out, 'e, 'c) henv \<Rightarrow> 'h \<Rightarrow> 'c dstate \<Rightarrow> 'e list list \<Rightarrow>
   ((GrpcStatus \<times> 'out) \<times> 'c dstate \<times> 'e list list) option" where
  "run_handler env hs s bs =
     (case he_act env hs of
        H_return st out \<Rightarrow> Some ((st, out), s, bs)
      | H_context f hs' \<Rightarrow> run_handler env hs' (s\<lparr>d_context := f (d_context s)\<rparr>) bs
      | H_cancelled k \<Rightarrow>
          let (s1, bs1) = pre (he_threads env) s bs in run_handler env (k (he_cancelled env (d_call s1))) s1 bs1
      | H_write response k \<Rightarrow>
          do { (ok, s1, bs1) \<leftarrow> he_write env response s bs; run_handler env (k ok) s1 bs1 }
      | H_read out k \<Rightarrow>
          do { (m, s1, bs1) \<leftarrow> he_read env out s bs; run_handler env (k m) s1 bs1 })"

declare run_handler.simps [code]

subsection \<open>Dispatch\<close>

text \<open>
  What all dispatchers do on the reactor thread: ask for admission, arrange that a cancelled or
  ended call stops the gate, and submit the task; the result tells whether it was accepted. The
  one callback there is, \<open>()\<close>, stops the gate.
\<close>

definition stop_if :: "'x option \<Rightarrow> 'c dstate \<Rightarrow> 'c dstate" where
  "stop_if cb s = (if cb = None then s else s\<lparr>d_gate := stopped (d_gate s)\<rparr>)"

definition dispatch_call ::
  "(Status \<Rightarrow> md_handle option \<Rightarrow> 'c \<Rightarrow> ErrorCode \<times> 'c) \<Rightarrow> (unit option \<Rightarrow> 'c \<Rightarrow> unit option \<times> 'c) \<Rightarrow>
   (unit option \<Rightarrow> 'c \<Rightarrow> (unit \<times> ServerTerminalReason) option \<times> 'c) \<Rightarrow> Status option \<Rightarrow> bool \<Rightarrow>
   'c dstate \<Rightarrow> bool \<times> 'c dstate" where
  "dispatch_call fin set_cancel set_terminal admission submitted s =
     (if admission \<noteq> None \<and> \<not> Status_ok (the admission)
      then (False, snd (on_call (fin (the admission) None) s))
      else let (cb1, s1) = on_call (set_cancel (Some ())) s; s2 = stop_if cb1 s1;
               (cb2, s3) = on_call (set_terminal (Some ())) s2; s4 = stop_if cb2 s3 in
      if submitted then (True, s4)
      else (False, snd (on_call (fin \<lparr>s_code = SC_ResourceExhausted, s_message = ''executor rejected the call''\<rparr> None)
                        (s4\<lparr>d_gate := stopped (d_gate s4)\<rparr>))))"

text \<open>
  Until the handler runs, a step \<open>k\<close> of the call also tells whether it ran a callback. The task:
  both exchanges on the gate must succeed, other threads in between.
\<close>

definition d_event :: "('e \<Rightarrow> 'c \<Rightarrow> 'c \<times> bool) \<Rightarrow> ('e, 'c dstate) handler" where
  "d_event k e s =
     (let (c, ran) = k e (d_call s)
      in (s\<lparr>d_call := c, d_gate := (if ran then stopped (d_gate s) else d_gate s)\<rparr>, False))"

definition gated ::
  "('e \<Rightarrow> 'c \<Rightarrow> 'c \<times> bool) \<Rightarrow> ('c dstate \<Rightarrow> 'e list list \<Rightarrow> ('c dstate \<times> 'e list list) option) \<Rightarrow>
   'c dstate \<Rightarrow> 'e list list \<Rightarrow> ('c dstate \<times> 'e list list) option" where
  "gated k body s bs =
     (let (begun, g) = BeginStart (d_gate s) in
      if \<not> begun then Some (s, bs)
      else let (s1, bs1) = preempt (d_event k) (s\<lparr>d_gate := g\<rparr>) bs; (committed, g1) = CommitStart (d_gate s1) in
      if \<not> committed then Some (s1, bs1)
      else body (s1\<lparr>d_gate := g1, d_handled := d_handled s1 + 1\<rparr>) bs1)"

definition tc_ran :: "unit tstep \<Rightarrow> (unit, 'z) tstate_scheme \<Rightarrow> (unit, 'z) tstate_scheme \<times> bool" where
  "tc_ran a s = (let (s', is, _) = tc_step a s in (s', is \<noteq> []))"

definition rs_ran :: "(string \<Rightarrow> 'req option) \<Rightarrow> unit rstep \<Rightarrow> (unit, 'req) rstate \<Rightarrow> (unit, 'req) rstate \<times> bool" where
  "rs_ran parse e s =
     (case e of R_call a \<Rightarrow> if a = A_ResumeReceive then (s, False) else tc_ran a s
      | _ \<Rightarrow> (fst (rs_handle parse e s), False))"

text \<open>The handler of a call with a request stream, for a thread that waits until it may write.\<close>

definition rs_handle_w :: "(string \<Rightarrow> 'req option) \<Rightarrow> ('cb rstep, ('cb, 'req) rstate) handler" where
  "rs_handle_w parse e s =
     (case e of R_call a \<Rightarrow> if a = A_ResumeReceive then (s, False) else tc_handle a s
      | _ \<Rightarrow> (fst (rs_handle parse e s), False))"

subsection \<open>The four dispatchers\<close>

text \<open>A unary handler: what it leaves of the context, its response and its status.\<close>

definition DispatchUnary_Run ::
  "('resp \<Rightarrow> string option) \<Rightarrow> (gctx \<Rightarrow> 'req \<Rightarrow> GrpcStatus \<times> 'resp \<times> gctx) \<Rightarrow> 'req \<Rightarrow>
   unit tstate dstate \<Rightarrow> unit tstep list list \<Rightarrow> (unit tstate dstate \<times> unit tstep list list) option" where
  "DispatchUnary_Run serialize handler request =
     gated tc_ran (\<lambda>s bs.
       let (st, response, g) = handler (d_context s) request;
           (s1, bs1) = pre tc_handle (s\<lparr>d_context := g\<rparr>) bs in
       if UnaryCall_cancelled True (d_call s1) then Some (s1, bs1)
       else let (s2, bs2) = pre tc_handle s1 bs1;
                (metadata_error, s3) = svc_SendInitialMetadata (UnaryCall_SendInitialMetadata True) s2;
                (s4, bs4) = pre tc_handle s3 bs2 in
       if \<not> Error_ok metadata_error
       then Some (snd (on_call (UnaryCall_Finish True
                    \<lparr>s_code = SC_Internal, s_message = ''failed to send initial metadata''\<rparr> None) s4), bs4)
       else Some (respond (UnaryCall_Finish True) (UnaryCall_FinishResponse tc_handle serialize True) st response s4 bs4))"

definition DispatchUnary :: "Status option \<Rightarrow> bool \<Rightarrow> unit tstate dstate \<Rightarrow> bool \<times> unit tstate dstate" where
  "DispatchUnary = dispatch_call (UnaryCall_Finish True) (UnaryCall_SetOnCancel True) (UnaryCall_SetOnTerminal True)"

definition DispatchServerStreaming_Run ::
  "('resp \<Rightarrow> string option) \<Rightarrow> ('h \<Rightarrow> ('h, unit, 'resp, unit) hact) \<Rightarrow> ('req \<Rightarrow> 'h) \<Rightarrow> 'req \<Rightarrow>
   unit tstate dstate \<Rightarrow> unit tstep list list \<Rightarrow> (unit tstate dstate \<times> unit tstep list list) option" where
  "DispatchServerStreaming_Run serialize act handler request =
     gated tc_ran (\<lambda>s bs.
       let try = d_TryWrite tc_handle (ServerStreamingCall_SendInitialMetadata True) (ServerStreamingCall_TryWrite serialize True);
           wait = d_wait (ServerStreamingCall_WaitForWritable tc_handle True);
           write = ServerWriter_Write tc_handle (ServerStreamingCall_cancelled True) try wait in
       do { ((st, _), s1, bs1) \<leftarrow> run_handler
              \<lparr>he_act = act, he_threads = tc_handle, he_cancelled = ServerStreamingCall_cancelled True,
               he_write = write, he_read = (\<lambda>_ s bs. Some (None, s, bs))\<rparr> (handler request) s bs;
            let (s2, bs2) = pre tc_handle s1 bs1;
            if ServerStreamingCall_cancelled True (d_call s2) then Some (s2, bs2)
            else let (s3, bs3) = pre tc_handle s2 bs2
                 in Some (end_stream tc_handle (ServerStreamingCall_SendInitialMetadata True)
                            (ServerStreamingCall_Finish True) st s3 bs3) })"

definition DispatchServerStreaming :: "Status option \<Rightarrow> bool \<Rightarrow> unit tstate dstate \<Rightarrow> bool \<times> unit tstate dstate" where
  "DispatchServerStreaming =
     dispatch_call (ServerStreamingCall_Finish True) (ServerStreamingCall_SetOnCancel True)
       (ServerStreamingCall_SetOnTerminal True)"

definition DispatchClientStreaming_Run ::
  "(string \<Rightarrow> 'req option) \<Rightarrow> ('resp \<Rightarrow> string option) \<Rightarrow> ('h \<Rightarrow> ('h, 'req, unit, 'resp) hact) \<Rightarrow> 'h \<Rightarrow>
   (unit, 'req) rstate dstate \<Rightarrow> unit rstep list list \<Rightarrow> ((unit, 'req) rstate dstate \<times> unit rstep list list) option" where
  "DispatchClientStreaming_Run parse serialize act handler =
     gated (rs_ran parse) (\<lambda>s bs.
       let read = ServerReader_Read (rs_handle parse) (ClientStreamingCall_cancelled True) in
       do { ((st, response), s1, bs1) \<leftarrow> run_handler
              \<lparr>he_act = act, he_threads = rs_handle parse, he_cancelled = ClientStreamingCall_cancelled True,
               he_write = (\<lambda>_ s bs. Some (False, s, bs)),
               he_read = (\<lambda>out. read (d_read (ClientStreamingCall_Read parse True out)) out)\<rparr> handler s bs;
            let (s2, bs2) = pre (rs_handle parse) s1 bs1;
            if ClientStreamingCall_cancelled True (d_call s2) \<or> ClientStreamingCall_terminal True (d_call s2)
            then Some (s2, bs2)
            else let (s3, bs3) = pre (rs_handle parse) s2 bs2;
                     (metadata_error, s4) = svc_SendInitialMetadata (ClientStreamingCall_SendInitialMetadata True) s3;
                     (s5, bs5) = pre (rs_handle parse) s4 bs3 in
            if \<not> Error_ok metadata_error
            then Some (snd (on_call (ClientStreamingCall_Finish True
                         \<lparr>s_code = SC_Internal, s_message = ''failed to send initial metadata''\<rparr> None) s5), bs5)
            else Some (respond (ClientStreamingCall_Finish True)
                         (ClientStreamingCall_FinishResponse (rs_handle parse) serialize True) st response s5 bs5) })"

definition DispatchClientStreaming ::
  "Status option \<Rightarrow> bool \<Rightarrow> (unit, 'req) rstate dstate \<Rightarrow> bool \<times> (unit, 'req) rstate dstate" where
  "DispatchClientStreaming =
     dispatch_call (ClientStreamingCall_Finish True) (ClientStreamingCall_SetOnCancel True)
       (ClientStreamingCall_SetOnTerminal True)"

definition DispatchBidirectionalStreaming_Run ::
  "(string \<Rightarrow> 'req option) \<Rightarrow> ('resp \<Rightarrow> string option) \<Rightarrow> ('h \<Rightarrow> ('h, 'req, 'resp, unit) hact) \<Rightarrow> 'h \<Rightarrow>
   (unit, 'req) rstate dstate \<Rightarrow> unit rstep list list \<Rightarrow> ((unit, 'req) rstate dstate \<times> unit rstep list list) option" where
  "DispatchBidirectionalStreaming_Run parse serialize act handler =
     gated (rs_ran parse) (\<lambda>s bs.
       let try = d_TryWrite (rs_handle parse) (BidirectionalStreamingCall_SendInitialMetadata True)
                   (BidirectionalStreamingCall_TryWrite serialize True);
           wait = d_wait (BidirectionalStreamingCall_WaitForWritable (rs_handle_w parse) True);
           write = ServerWriter_Write (rs_handle parse) (BidirectionalStreamingCall_cancelled True) try wait;
           read = ServerReader_Read (rs_handle parse) (BidirectionalStreamingCall_cancelled True) in
       do { ((st, _), s1, bs1) \<leftarrow> run_handler
              \<lparr>he_act = act, he_threads = rs_handle parse, he_cancelled = BidirectionalStreamingCall_cancelled True,
               he_write = write,
               he_read = (\<lambda>out. read (d_read (BidirectionalStreamingCall_Read parse True out)) out)\<rparr> handler s bs;
            let (s2, bs2) = pre (rs_handle parse) s1 bs1;
            if BidirectionalStreamingCall_cancelled True (d_call s2) \<or> BidirectionalStreamingCall_terminal True (d_call s2)
            then Some (s2, bs2)
            else let (s3, bs3) = pre (rs_handle parse) s2 bs2
                 in Some (end_stream (rs_handle parse) (BidirectionalStreamingCall_SendInitialMetadata True)
                            (BidirectionalStreamingCall_Finish True) st s3 bs3) })"

definition DispatchBidirectionalStreaming ::
  "Status option \<Rightarrow> bool \<Rightarrow> (unit, 'req) rstate dstate \<Rightarrow> bool \<times> (unit, 'req) rstate dstate" where
  "DispatchBidirectionalStreaming =
     dispatch_call (BidirectionalStreamingCall_Finish True) (BidirectionalStreamingCall_SetOnCancel True)
       (BidirectionalStreamingCall_SetOnTerminal True)"

subsection \<open>Frames\<close>

text \<open>Only the dispatcher and the task touch the gate and the handler count.\<close>

definition same_gate :: "'c dstate \<Rightarrow> 'c dstate \<Rightarrow> bool" where
  "same_gate s t \<longleftrightarrow> d_gate t = d_gate s \<and> d_handled t = d_handled s"

lemma same_gate_refl [simp]: "same_gate s s"
  by (simp add: same_gate_def)

lemma same_gate_trans: "same_gate s t \<Longrightarrow> same_gate t u \<Longrightarrow> same_gate s u"
  by (simp add: same_gate_def)

lemma same_gate_update [simp]:
  "same_gate s (t\<lparr>d_call := c\<rparr>) = same_gate s t" "same_gate s (t\<lparr>d_context := g\<rparr>) = same_gate s t"
  "same_gate s (t\<lparr>d_heap := hp\<rparr>) = same_gate s t" "same_gate s (t\<lparr>d_initial_metadata_sent := b\<rparr>) = same_gate s t"
  by (simp_all add: same_gate_def)

lemma same_gate_on_call [simp]: "same_gate s (snd (on_call f t)) = same_gate s t"
  by (simp add: on_call_def split_beta Let_def)

lemma same_gate_pre [simp]: "same_gate s (fst (pre h t bs)) = same_gate s t"
proof -
  have "same_gate t (fst (pre h t bs))"
    by (rule preempt_inv) (auto simp: d_lift_def split_beta Let_def)
  then show ?thesis by (auto simp: same_gate_def)
qed

lemma same_gate_metadata [simp]:
  "same_gate s (snd (svc_SendInitialMetadata send t)) = same_gate s t"
  "same_gate s (snd (svc_Finish fin st t)) = same_gate s t"
  by (simp_all add: svc_SendInitialMetadata_def svc_Finish_def split_beta Let_def)

lemma same_gate_respond [simp]:
  "same_gate s (fst (respond fin finr st response t bs)) = same_gate s t"
  "same_gate s (fst (end_stream h send fin st t bs)) = same_gate s t"
  by (simp_all add: respond_def end_stream_def split_beta Let_def)

lemma same_gate_TryWrite [simp]: "same_gate s (fst (snd (d_TryWrite h send try response t bs))) = same_gate s t"
  by (simp add: d_TryWrite_def split_beta Let_def)

lemma same_gate_wait: "d_wait wait t bs = Some (w, u, bs') \<Longrightarrow> same_gate s u = same_gate s t"
  by (auto simp: d_wait_def bind_eq_Some_conv)

lemma same_gate_read: "d_read read t bs = Some (m, u, bs') \<Longrightarrow> same_gate s u = same_gate s t"
  by (auto simp: d_read_def bind_eq_Some_conv)

lemma same_gate_ServerReader:
  assumes "ServerReader_Read h cancelled (d_read read) out s bs = Some (m, t, bs')"
  shows "same_gate s t"
proof -
  obtain s1 bs1 where p: "pre h s bs = (s1, bs1)" by fastforce
  then have "same_gate s s1" using same_gate_pre [of s h s bs] by simp
  with assms p same_gate_read [of read s1 bs1 m t bs' s] show ?thesis
    by (auto simp: ServerReader_Read_def split: if_splits)
qed

text \<open>What the pieces of a loop keep, the loop keeps.\<close>

lemma Write_inv:
  assumes "ServerWriter_Write h cancelled tw wait response s bs = Some (ok, t, bs')" and "I s"
    and p: "\<And>s bs. I s \<Longrightarrow> I (fst (pre h s bs))"
    and tr: "\<And>s bs. I s \<Longrightarrow> I (fst (snd (tw response s bs)))"
    and w: "\<And>s bs w t bs'. I s \<Longrightarrow> wait s bs = Some (w, t, bs') \<Longrightarrow> I t"
  shows "I t"
proof -
  have "h' = h \<and> cancelled' = cancelled \<and> tw' = tw \<and> wait' = wait \<and> response' = response \<longrightarrow> I s \<longrightarrow> I (fst (snd y))"
    if "ServerWriter_Write h' cancelled' tw' wait' response' s bs = Some y" for h' cancelled' tw' wait' response' s bs y
  proof (rule ServerWriter_Write.raw_induct [where P = "\<lambda>h' cancelled' tw' wait' response' s bs y.
      h' = h \<and> cancelled' = cancelled \<and> tw' = tw \<and> wait' = wait \<and> response' = response \<longrightarrow> I s \<longrightarrow> I (fst (snd y))",
      OF _ that], goal_cases)
    case (1 F h' cancelled' tw' wait' response' s bs y)
    show ?case
    proof (intro impI)
      assume eq: "h' = h \<and> cancelled' = cancelled \<and> tw' = tw \<and> wait' = wait \<and> response' = response" and "I s"
      obtain s0 bs0 where s0: "pre h s bs = (s0, bs0)" by fastforce
      obtain s1 bs1 where s1: "pre h s0 bs0 = (s1, bs1)" by fastforce
      obtain e s2 bs2 where s2: "tw response s1 bs1 = (e, s2, bs2)" using prod_cases3 by blast
      have i: "I s0" "I s1" "I s2"
        using p [OF \<open>I s\<close>, of bs] s0 p [of s0 bs0] s1 tr [of s1 bs1] s2 by auto
      from 1(2) eq s0 s1 s2 i show "I (fst (snd y))"
        by (auto simp: bind_eq_Some_conv split: if_splits dest!: 1(1) dest: w)
    qed
  qed
  from this [OF assms(1)] assms(2) show ?thesis by simp
qed

lemma run_handler_inv:
  assumes "run_handler env x s bs = Some (r, t, bs')" and "I s"
    and p: "\<And>s bs. I s \<Longrightarrow> I (fst (pre (he_threads env) s bs))"
    and g: "\<And>s f. I s \<Longrightarrow> I (s\<lparr>d_context := f (d_context s)\<rparr>)"
    and wr: "\<And>m s bs ok t bs'. I s \<Longrightarrow> he_write env m s bs = Some (ok, t, bs') \<Longrightarrow> I t"
    and rd: "\<And>m s bs ok t bs'. I s \<Longrightarrow> he_read env m s bs = Some (ok, t, bs') \<Longrightarrow> I t"
  shows "I t"
proof -
  have "env' = env \<longrightarrow> I s \<longrightarrow> I (fst (snd y))" if "run_handler env' x s bs = Some y" for env' x s bs y
  proof (rule run_handler.raw_induct [where P = "\<lambda>env' x s bs y. env' = env \<longrightarrow> I s \<longrightarrow> I (fst (snd y))", OF _ that],
      goal_cases)
    case (1 F env' x s bs y)
    show ?case
    proof (intro impI)
      assume eq: "env' = env" and "I s"
      obtain s0 bs0 where s0: "pre (he_threads env) s bs = (s0, bs0)" by fastforce
      have "I s0" using p [OF \<open>I s\<close>, of bs] s0 by simp
      with 1(2) eq s0 \<open>I s\<close> show "I (fst (snd y))"
        by (cases "he_act env x") (auto simp: bind_eq_Some_conv dest!: 1(1) dest: wr rd g)
    qed
  qed
  from this [OF assms(1)] assms(2) show ?thesis by simp
qed


subsection \<open>The life of a dispatched call\<close>

text \<open>
  The reactor's steps, as opposed to those of the application: in a synchronous service nobody
  but the dispatcher has the call.
\<close>

fun reactor_step :: "'cb tstep \<Rightarrow> bool" where
  "reactor_step N_space = True"
| "reactor_step N_resume = True"
| "reactor_step N_cancel = True"
| "reactor_step N_fail = True"
| "reactor_step (N_retire _) = True"
| "reactor_step C_writable = True"
| "reactor_step C_cancel = True"
| "reactor_step C_terminal = True"
| "reactor_step _ = False"

fun reactor_rstep :: "'cb rstep \<Rightarrow> bool" where
  "reactor_rstep (R_call a) = reactor_step a"
| "reactor_rstep _ = True"

text \<open>From the dispatch on: steps of the reactor, and runs of the task at any time and any number of times.\<close>

inductive served ::
  "('e \<Rightarrow> bool) \<Rightarrow> ('e \<Rightarrow> 'c \<Rightarrow> 'c \<times> bool) \<Rightarrow>
   ('c dstate \<Rightarrow> 'e list list \<Rightarrow> ('c dstate \<times> 'e list list) option) \<Rightarrow> 'c dstate \<Rightarrow> 'c dstate \<Rightarrow> bool"
  for reactor k run where
  now: "served reactor k run s s"
| event: "served reactor k run s t \<Longrightarrow> reactor e \<Longrightarrow> served reactor k run s (fst (d_event k e t))"
| task: "served reactor k run s t \<Longrightarrow> \<forall>b \<in> set bs. \<forall>e \<in> set b. reactor e \<Longrightarrow> run t bs = Some (u, bs') \<Longrightarrow>
    served reactor k run s u"

lemma served_trans: "served reactor k run t u \<Longrightarrow> served reactor k run s t \<Longrightarrow> served reactor k run s u"
  by (induction rule: served.induct) (auto intro: served.intros)

text \<open>A call whose end the dispatcher watches.\<close>

definition watching :: "(unit, 'z) tstate_scheme \<Rightarrow> bool" where
  "watching c \<longleftrightarrow> orderly c \<and>
     (\<not> y_cancelled (s_typed c) \<and> \<not> y_terminal (s_typed c) \<longrightarrow> y_on_cancel (s_typed c) \<noteq> None) \<and>
     (\<not> y_terminal (s_typed c) \<longrightarrow> y_on_terminal (s_typed c) \<noteq> None)"

definition ceased :: "(unit, 'z) tstate_scheme \<Rightarrow> bool" where
  "ceased c \<longleftrightarrow> y_cancelled (s_typed c) \<or> y_terminal (s_typed c)"

definition gate_guarded :: "(unit, 'z) tstate_scheme dstate \<Rightarrow> bool" where
  "gate_guarded s \<longleftrightarrow>
     d_handled s = (if d_gate s = G_Running then 1 else 0) \<and>
     (settled (d_gate s) \<or> watching (d_call s) \<and> \<not> ceased (d_call s))"

text \<open>
  The contract between the call and the gate: the steps of the call keep it watched, and one that
  ends it runs a callback. What follows from it holds for all four kinds of calls.
\<close>

locale watched =
  fixes reactor :: "'e \<Rightarrow> bool" and k :: "'e \<Rightarrow> (unit, 'z) tstate_scheme \<Rightarrow> (unit, 'z) tstate_scheme \<times> bool"
  assumes watch: "reactor e \<Longrightarrow> watching c \<Longrightarrow> \<not> ceased c \<Longrightarrow> watching (fst (k e c))"
    and ends: "reactor e \<Longrightarrow> watching c \<Longrightarrow> \<not> ceased c \<Longrightarrow> ceased (fst (k e c)) \<Longrightarrow> snd (k e c)"
begin

lemma event_guarded:
  assumes "reactor e" "gate_guarded s"
  shows "gate_guarded (fst (d_event k e s))"
  using assms watch [of e "d_call s"] ends [of e "d_call s"]
  by (cases "d_gate s")
    (auto simp: gate_guarded_def d_event_def split_beta Let_def settled_def stopped_def)

lemma batch_guarded:
  assumes "\<forall>e \<in> set b. reactor e" "gate_guarded s"
  shows "gate_guarded (fst (deliver (d_event k) b s))"
  using assms
proof (induction b arbitrary: s)
  case (Cons e b)
  then show ?case using event_guarded [of e s] by (simp add: split_beta Let_def)
qed simp

lemma preempt_guarded:
  assumes "\<forall>b \<in> set bs. \<forall>e \<in> set b. reactor e" "gate_guarded s"
  shows "gate_guarded (fst (preempt (d_event k) s bs))"
  using assms batch_guarded by (cases bs) auto

lemma task_guarded:
  assumes run: "gated k body s bs = Some (u, bs')" and r: "\<forall>b \<in> set bs. \<forall>e \<in> set b. reactor e"
    and s: "gate_guarded s" and body: "\<And>s bs u bs'. body s bs = Some (u, bs') \<Longrightarrow> same_gate s u"
  shows "gate_guarded u"
proof (cases "d_gate s = G_Queued")
  case False
  with run s show ?thesis by (auto simp: gated_def BeginStart_def)
next
  case True
  obtain s1 bs1 where p: "preempt (d_event k) (s\<lparr>d_gate := G_Starting\<rparr>) bs = (s1, bs1)" by fastforce
  have "gate_guarded (s\<lparr>d_gate := G_Starting\<rparr>)" using s True by (simp add: gate_guarded_def settled_def)
  with p have s1: "gate_guarded s1" using preempt_guarded [OF r] by fastforce
  show ?thesis
  proof (cases "d_gate s1 = G_Starting")
    case False
    with run True p s1 show ?thesis by (simp add: gated_def BeginStart_def CommitStart_def)
  next
    case started: True
    with run True p have "body (s1\<lparr>d_gate := G_Running, d_handled := d_handled s1 + 1\<rparr>) bs1 = Some (u, bs')"
      by (simp add: gated_def BeginStart_def CommitStart_def)
    from body [OF this] s1 started show ?thesis by (simp add: gate_guarded_def same_gate_def settled_def)
  qed
qed

lemma served_guarded:
  assumes body: "\<And>s bs u bs'. body s bs = Some (u, bs') \<Longrightarrow> same_gate s u"
  shows "served reactor k (gated k body) s t \<Longrightarrow> gate_guarded s \<Longrightarrow> gate_guarded t"
proof (induction rule: served.induct)
  case (event s t e)
  then show ?case by (simp add: event_guarded)
next
  case (task s t bs u bs')
  show ?case
  proof (rule task_guarded [OF task.hyps(3,2)])
    show "gate_guarded t" using task by simp
    show "same_gate s u" if "body s bs = Some (u, bs')" for s bs u bs' by (rule body [OF that])
  qed
qed

text \<open>A settled gate stays as it is.\<close>

lemma served_settled:
  assumes body: "\<And>s bs u bs'. body s bs = Some (u, bs') \<Longrightarrow> same_gate s u"
  shows "served reactor k (gated k body) s t \<Longrightarrow> settled (d_gate s) \<Longrightarrow> same_gate s t"
proof (induction rule: served.induct)
  case (event s t e)
  then show ?case by (auto simp: same_gate_def d_event_def split_beta Let_def settled_def stopped_def)
next
  case (task s t bs u bs')
  then have "u = t" by (auto simp: same_gate_def gated_def BeginStart_def settled_def)
  with task show ?case by simp
qed simp

lemma started_once:
  assumes body: "\<And>s bs u bs'. body s bs = Some (u, bs') \<Longrightarrow> same_gate s u"
    and "gate_guarded s" "served reactor k (gated k body) s t" "served reactor k (gated k body) t u"
  shows "d_handled u \<le> 1 \<and> d_handled t \<le> d_handled u \<and>
    (ceased (d_call t) \<or> d_gate t = G_Stopped \<longrightarrow> d_handled u = d_handled t)"
proof -
  have t: "gate_guarded t" by (rule served_guarded [OF body assms(3,2)])
  have u: "gate_guarded u" by (rule served_guarded [OF body assms(4) t])
  have "same_gate t u" if "settled (d_gate t)" by (rule served_settled [OF body assms(4) that])
  with t u show ?thesis
    by (cases "settled (d_gate t)") (auto simp: gate_guarded_def same_gate_def settled_def split: if_splits)
qed

end

interpretation unary_watch: watched reactor_step tc_ran
proof (unfold_locales, goal_cases)
  case (1 e c)
  then have "orderly (fst (tc_ran e c))"
    using order.step [of c e] by (simp add: watching_def tc_ran_def split_beta Let_def)
  with 1 show ?case
    by (cases e) (auto simp: watching_def ceased_def tc_ran_def callback_defs on_native_def Let_def split: option.splits)
next
  case (2 e c)
  then show ?case
    by (cases e) (auto simp: watching_def ceased_def orderly_def tc_ran_def callback_defs on_native_def plain_def reasoned_def
        Let_def split: option.splits if_splits)
qed

lemma stream_update_typed [simp]:
  "s_typed (s\<lparr>s_stream := q\<rparr>) = s_typed s" "s_native (s\<lparr>s_stream := q\<rparr>) = s_native s"
  "s_typed (s\<lparr>s_delivered := d\<rparr>) = s_typed s" "s_native (s\<lparr>s_delivered := d\<rparr>) = s_native s"
  by simp_all

lemma orderly_cong:
  assumes "orderly s" "s_typed t = s_typed s" "n_cancel_due (s_native t) = n_cancel_due (s_native s)"
    "n_cancelled (s_native t) = n_cancelled (s_native s)" "n_terminal (s_native t) = n_terminal (s_native s)"
    "n_terminal_due (s_native t) = n_terminal_due (s_native s)"
  shows "orderly t"
  using assms by (simp add: orderly_def Let_def)

lemma pause_frame [simp]:
  "n_cancel_due (pause_if x n) = n_cancel_due n" "n_cancelled (pause_if x n) = n_cancelled n"
  "n_terminal (pause_if x n) = n_terminal n" "n_terminal_due (pause_if x n) = n_terminal_due n"
  by (simp_all add: pause_if_def)

lemma OnMessage_typed:
  assumes "orderly s"
  shows "orderly (fst (snd (rs_OnMessage parse p s)))"
    "y_cancelled (s_typed (fst (snd (rs_OnMessage parse p s)))) = y_cancelled (s_typed s)"
    "y_terminal (s_typed (fst (snd (rs_OnMessage parse p s)))) = y_terminal (s_typed s)"
    "y_on_cancel (s_typed (fst (snd (rs_OnMessage parse p s)))) = y_on_cancel (s_typed s)"
    "y_on_terminal (s_typed (fst (snd (rs_OnMessage parse p s)))) = y_on_terminal (s_typed s)"
proof -
  have "orderly (s\<lparr>s_stream := q\<rparr>)" for q by (rule orderly_cong [OF assms]) simp_all
  then have "orderly (snd (tc_Finish st m (s\<lparr>s_stream := q\<rparr>)))" for st m q by (rule order.operations(3))
  with assms \<open>\<And>q. orderly (s\<lparr>s_stream := q\<rparr>)\<close> show "orderly (fst (snd (rs_OnMessage parse p s)))"
    by (auto simp: rs_OnMessage_def reject_def split_beta Let_def split: option.split)
qed (auto simp: rs_OnMessage_def reject_def frame_simps split_beta Let_def split: option.split)

lemma watching_cong:
  assumes "watching c" "\<not> ceased c" "orderly c'"
    "y_cancelled (s_typed c') = y_cancelled (s_typed c)" "y_terminal (s_typed c') = y_terminal (s_typed c)"
    "y_on_cancel (s_typed c') = y_on_cancel (s_typed c)" "y_on_terminal (s_typed c') = y_on_terminal (s_typed c)"
  shows "watching c' \<and> \<not> ceased c'"
  using assms by (simp add: watching_def ceased_def)

lemma rs_ran_other:
  assumes "\<forall>a. e \<noteq> R_call a" "watching c" "\<not> ceased c"
  shows "watching (fst (rs_ran parse e c)) \<and> \<not> ceased (fst (rs_ran parse e c))"
proof -
  note w = watching_cong [OF assms(2,3)]
  have o: "orderly c" using assms(2) by (simp add: watching_def)
  have stream: "watching (c\<lparr>s_stream := q\<rparr>) \<and> \<not> ceased (c\<lparr>s_stream := q\<rparr>)" for q
    by (rule w) (simp_all add: orderly_cong [OF o])
  show ?thesis
  proof (cases e)
    case (R_message p)
    let ?c = "c\<lparr>s_delivered := s_delivered c @ [p]\<rparr>"
    have "orderly ?c" by (rule orderly_cong [OF o]) simp_all
    note m = OnMessage_typed [OF this, of parse p]
    have "watching (on_native (pause_if x) (fst (snd (rs_OnMessage parse p ?c)))) \<and>
      \<not> ceased (on_native (pause_if x) (fst (snd (rs_OnMessage parse p ?c))))" for x
      by (rule w, rule orderly_cong [OF m(1)]) (simp_all add: m(2-5) frame_simps, simp_all add: on_native_def)
    with R_message assms(2,3) show ?thesis by (simp add: rs_ran_def split_beta Let_def)
  qed (use assms stream in \<open>simp_all add: rs_ran_def rs_OnRemoteEnd_def rs_OnCancel_def rs_OnTerminal_def\<close>)
qed

interpretation stream_watch: watched reactor_rstep "rs_ran parse" for parse
proof (unfold_locales, goal_cases)
  case (1 e c)
  show ?case
  proof (cases e)
    case (R_call a)
    with 1 show ?thesis using unary_watch.watch [of a c] by (simp add: rs_ran_def)
  qed (use 1 rs_ran_other [of e c parse] in auto)
next
  case (2 e c)
  show ?case
  proof (cases e)
    case (R_call a)
    with 2 show ?thesis using unary_watch.ends [of a c] by (simp add: rs_ran_def split: if_splits)
  qed (use 2 rs_ran_other [of e c parse] in auto)
qed

text \<open>The four tasks start at the gate and leave it alone afterwards.\<close>

lemma same_gate_results:
  "pre h t bs = (u, bs') \<Longrightarrow> \<forall>s. same_gate s u = same_gate s t"
  "respond fin finr st response t bs = (u, bs') \<Longrightarrow> \<forall>s. same_gate s u = same_gate s t"
  "end_stream h send fin st t bs = (u, bs') \<Longrightarrow> \<forall>s. same_gate s u = same_gate s t"
  using same_gate_pre [of _ h t bs] same_gate_respond(1) [of _ fin finr st response t bs]
    same_gate_respond(2) [of _ h send fin st t bs]
  by auto

lemma unary_gated:
  "\<exists>body. DispatchUnary_Run serialize handler request = gated tc_ran body \<and>
     (\<forall>s bs u bs'. body s bs = Some (u, bs') \<longrightarrow> same_gate s u)"
  unfolding DispatchUnary_Run_def
proof (rule exI, rule conjI, rule refl, intro allI impI, goal_cases)
  case (1 s bs u bs')
  then show ?case
    by (auto simp: split_beta Let_def split: if_splits dest: same_gate_results)
qed


lemma handler_gate:
  assumes "run_handler env hs s bs = Some (r, t, bs')"
    and "\<And>m s bs ok t bs'. he_write env m s bs = Some (ok, t, bs') \<Longrightarrow> same_gate s t"
    and "\<And>out s bs m t bs'. he_read env out s bs = Some (m, t, bs') \<Longrightarrow> same_gate s t"
  shows "same_gate s t"
  by (rule run_handler_inv [where I = "same_gate s", OF assms(1)])
    (auto intro: same_gate_trans [OF _ assms(2)] same_gate_trans [OF _ assms(3)])

lemma write_gate:
  "ServerWriter_Write h c (d_TryWrite h' send tw) (d_wait wait) m s bs = Some (ok, t, bs') \<Longrightarrow> same_gate s t"
  by (rule Write_inv [where I = "same_gate s"]) (auto dest: same_gate_wait)

lemma server_streaming_gated:
  "\<exists>body. DispatchServerStreaming_Run serialize act handler request = gated tc_ran body \<and>
     (\<forall>s bs u bs'. body s bs = Some (u, bs') \<longrightarrow> same_gate s u)"
  unfolding DispatchServerStreaming_Run_def
proof (rule exI, rule conjI, rule refl, intro allI impI, goal_cases)
  case (1 s bs u bs')
  then obtain r s1 bs1 where h: "run_handler
      \<lparr>he_act = act, he_threads = tc_handle, he_cancelled = ServerStreamingCall_cancelled True,
       he_write = ServerWriter_Write tc_handle (ServerStreamingCall_cancelled True)
         (d_TryWrite tc_handle (ServerStreamingCall_SendInitialMetadata True) (ServerStreamingCall_TryWrite serialize True))
         (d_wait (ServerStreamingCall_WaitForWritable tc_handle True)),
       he_read = (\<lambda>_ s bs. Some (None, s, bs))\<rparr> (handler request) s bs = Some (r, s1, bs1)"
    by (auto simp: Let_def bind_eq_Some_conv)
  have "same_gate s s1" by (rule handler_gate [OF h]) (auto dest: write_gate)
  with 1 h show ?case
    by (auto simp: split_beta Let_def split: if_splits dest: same_gate_results)
qed

lemma client_streaming_gated:
  "\<exists>body. DispatchClientStreaming_Run parse serialize act handler = gated (rs_ran parse) body \<and>
     (\<forall>s bs u bs'. body s bs = Some (u, bs') \<longrightarrow> same_gate s u)"
  unfolding DispatchClientStreaming_Run_def
proof (rule exI, rule conjI, rule refl, intro allI impI, goal_cases)
  case (1 s bs u bs')
  then obtain r s1 bs1 where h: "run_handler
      \<lparr>he_act = act, he_threads = rs_handle parse, he_cancelled = ClientStreamingCall_cancelled True,
       he_write = (\<lambda>_ s bs. Some (False, s, bs)),
       he_read = (\<lambda>out. ServerReader_Read (rs_handle parse) (ClientStreamingCall_cancelled True)
         (d_read (ClientStreamingCall_Read parse True out)) out)\<rparr> handler s bs = Some (r, s1, bs1)"
    by (auto simp: Let_def bind_eq_Some_conv)
  have "same_gate s s1" by (rule handler_gate [OF h]) (auto dest: same_gate_ServerReader)
  with 1 h show ?case
    by (auto simp: split_beta Let_def split: if_splits dest: same_gate_results)
qed

lemma bidirectional_streaming_gated:
  "\<exists>body. DispatchBidirectionalStreaming_Run parse serialize act handler = gated (rs_ran parse) body \<and>
     (\<forall>s bs u bs'. body s bs = Some (u, bs') \<longrightarrow> same_gate s u)"
  unfolding DispatchBidirectionalStreaming_Run_def
proof (rule exI, rule conjI, rule refl, intro allI impI, goal_cases)
  case (1 s bs u bs')
  then obtain r s1 bs1 where h: "run_handler
      \<lparr>he_act = act, he_threads = rs_handle parse, he_cancelled = BidirectionalStreamingCall_cancelled True,
       he_write = ServerWriter_Write (rs_handle parse) (BidirectionalStreamingCall_cancelled True)
         (d_TryWrite (rs_handle parse) (BidirectionalStreamingCall_SendInitialMetadata True)
            (BidirectionalStreamingCall_TryWrite serialize True))
         (d_wait (BidirectionalStreamingCall_WaitForWritable (rs_handle_w parse) True)),
       he_read = (\<lambda>out. ServerReader_Read (rs_handle parse) (BidirectionalStreamingCall_cancelled True)
         (d_read (BidirectionalStreamingCall_Read parse True out)) out)\<rparr> handler s bs = Some (r, s1, bs1)"
    by (auto simp: Let_def bind_eq_Some_conv)
  have "same_gate s s1" by (rule handler_gate [OF h]) (auto dest: write_gate same_gate_ServerReader)
  with 1 h show ?case
    by (auto simp: split_beta Let_def split: if_splits dest: same_gate_results)
qed

lemma watch_call:
  assumes "orderly c"
  defines "c1 \<equiv> snd (SetOnCancel (Some ()) c)"
  defines "c2 \<equiv> snd (SetOnTerminal (Some ()) c1)"
  shows "watching c2" "ceased c2 \<longleftrightarrow> fst (SetOnCancel (Some ()) c) \<noteq> None \<or> fst (SetOnTerminal (Some ()) c1) \<noteq> None"
proof -
  have o: "orderly c1" "orderly c2" unfolding c1_def c2_def using assms(1) by (auto intro: order.operations)
  have 1: "y_cancelled (s_typed c1) = y_cancelled (s_typed c)" "fst (SetOnCancel (Some ()) c) \<noteq> None \<longleftrightarrow> y_cancelled (s_typed c)"
    "\<not> y_cancelled (s_typed c1) \<and> \<not> y_terminal (s_typed c1) \<longrightarrow> y_on_cancel (s_typed c1) = Some ()"
    by (simp_all add: c1_def SetOnCancel_def Let_def)
  have 2: "y_cancelled (s_typed c2) = y_cancelled (s_typed c1)" "y_terminal (s_typed c2) = y_terminal (s_typed c1)"
    "y_on_cancel (s_typed c2) = y_on_cancel (s_typed c1)"
    "fst (SetOnTerminal (Some ()) c1) \<noteq> None \<longleftrightarrow> y_terminal_reason (s_typed c1) \<noteq> None"
    "y_terminal_reason (s_typed c1) = None \<longrightarrow> y_on_terminal (s_typed c2) = Some ()"
    by (simp_all add: c2_def SetOnTerminal_def Let_def split: option.split)
  from o 1 2 orderly_reason [OF o(1)] show "watching c2"
    "ceased c2 \<longleftrightarrow> fst (SetOnCancel (Some ()) c) \<noteq> None \<or> fst (SetOnTerminal (Some ()) c1) \<noteq> None"
    by (simp_all add: watching_def ceased_def)
qed

lemma dispatch_call_result:
  assumes "dispatch_call fin SetOnCancel SetOnTerminal admission submitted (dispatch_state c x cp hp) = (acc, s)"
    and "admission = None \<or> Status_ok (the admission)"
  defines "c1 \<equiv> snd (SetOnCancel (Some ()) c)"
  shows "acc = submitted" "d_handled s = 0"
    "d_gate s = (if \<not> submitted \<or> fst (SetOnCancel (Some ()) c) \<noteq> None \<or> fst (SetOnTerminal (Some ()) c1) \<noteq> None
      then G_Stopped else G_Queued)"
    "submitted \<longrightarrow> d_call s = snd (SetOnTerminal (Some ()) c1)"
proof -
  define r1 where "r1 = fst (SetOnCancel (Some ()) c)"
  have 1: "SetOnCancel (Some ()) c = (r1, c1)" by (simp add: c1_def r1_def)
  obtain r2 c2 where 2: "SetOnTerminal (Some ()) c1 = (r2, c2)" by fastforce
  have "\<not> (admission \<noteq> None \<and> \<not> Status_ok (the admission))" using assms(2) by blast
  note s = assms(1) [unfolded dispatch_call_def if_not_P [OF this]]
  show "acc = submitted" "d_handled s = 0"
    "d_gate s = (if \<not> submitted \<or> fst (SetOnCancel (Some ()) c) \<noteq> None \<or> fst (SetOnTerminal (Some ()) c1) \<noteq> None
      then G_Stopped else G_Queued)"
    "submitted \<longrightarrow> d_call s = snd (SetOnTerminal (Some ()) c1)"
    using s [symmetric] by (cases submitted; cases r1; cases r2;
        simp add: 1 2 dispatch_state_def on_call_def stop_if_def stopped_def split_beta Let_def)+
qed

lemma dispatch_guarded:
  assumes "dispatch_call fin SetOnCancel SetOnTerminal admission submitted (dispatch_state c x cp hp) = (acc, s)"
    and "orderly c" "admission = None \<or> Status_ok (the admission)"
  shows "gate_guarded s \<and> acc = submitted \<and> (\<not> submitted \<longrightarrow> d_gate s = G_Stopped)"
  using dispatch_call_result [OF assms(1,3)] watch_call [OF assms(2)]
  by (cases submitted) (simp_all add: gate_guarded_def settled_def)

lemma wrapped_same:
  "UnaryCall_Finish True = tc_Finish" "UnaryCall_SetOnCancel True = SetOnCancel" "UnaryCall_SetOnTerminal True = SetOnTerminal"
  "ServerStreamingCall_Finish True = tc_Finish" "ServerStreamingCall_SetOnCancel True = SetOnCancel" "ServerStreamingCall_SetOnTerminal True = SetOnTerminal"
  "ClientStreamingCall_Finish True = tc_Finish" "ClientStreamingCall_SetOnCancel True = SetOnCancel" "ClientStreamingCall_SetOnTerminal True = SetOnTerminal"
  "BidirectionalStreamingCall_Finish True = tc_Finish" "BidirectionalStreamingCall_SetOnCancel True = SetOnCancel" "BidirectionalStreamingCall_SetOnTerminal True = SetOnTerminal"
  by (simp_all add: fun_eq_iff
      UnaryCall_Finish_def UnaryCall_SetOnCancel_def UnaryCall_SetOnTerminal_def
      ServerStreamingCall_Finish_def ServerStreamingCall_SetOnCancel_def ServerStreamingCall_SetOnTerminal_def
      ClientStreamingCall_Finish_def ClientStreamingCall_SetOnCancel_def ClientStreamingCall_SetOnTerminal_def
      BidirectionalStreamingCall_Finish_def BidirectionalStreamingCall_SetOnCancel_def BidirectionalStreamingCall_SetOnTerminal_def)

lemma dispatch_same:
  "DispatchUnary = dispatch_call tc_Finish SetOnCancel SetOnTerminal"
  "DispatchServerStreaming = dispatch_call tc_Finish SetOnCancel SetOnTerminal"
  "DispatchClientStreaming = dispatch_call tc_Finish SetOnCancel SetOnTerminal"
  "DispatchBidirectionalStreaming = dispatch_call tc_Finish SetOnCancel SetOnTerminal"
  unfolding DispatchUnary_def DispatchServerStreaming_def DispatchClientStreaming_def
    DispatchBidirectionalStreaming_def wrapped_same by (rule refl)+

end
