(* ===== verification/Dispatch_Properties.thy ===== *)
theory Dispatch_Properties
  imports Sync_Service
begin

section \<open>Properties of dispatched calls\<close>

text \<open>
  What the dispatchers of synchronous services guarantee: a handler starts at most once and never
  after its call ceased, its result reaches the wire exactly, refused calls are answered at once,
  and a handler that writes gets every message through in order or is told that it did not.
\<close>

text \<open>
  A call that accepts every command: the commands so far were all accepted, it has not ended and
  nobody cancelled it.
\<close>

definition answering :: "('cb, 'z) tstate_scheme \<Rightarrow> server_cmd list \<Rightarrow> bool" where
  "answering c ks \<longleftrightarrow>
     n_log (s_native c) = map (\<lambda>k. (k, EC_Ok)) ks \<and> (\<forall>i. n_resource (s_native c) i = EC_Ok) \<and>
     n_explicit (s_native c) \<and> \<not> call_closed (s_native c) \<and> n_headers_queued (s_native c) = (ks \<noteq> []) \<and>
     \<not> n_cancelled (s_native c) \<and> y_call (s_typed c) \<noteq> None \<and> \<not> tc_done c \<and> \<not> y_cancelled (s_typed c) \<and>
     y_initial_metadata_sent (s_typed c) = (ks \<noteq> [])"

definition opened :: "server_cmd list \<Rightarrow> server_cmd list" where
  "opened ks = (if ks = [] then [S_initial [] Identity] else ks)"

definition accepted :: "server_cmd list \<Rightarrow> (server_cmd \<times> ErrorCode) list" where
  "accepted ks = map (\<lambda>k. (k, EC_Ok)) ks"

lemma answering_start: "answering (typed_start i (\<lambda>_. EC_Ok) paused (Some k)) []"
  by (simp add: answering_def typed_start_def startStreaming_def TypedCallState_new_def call_closed_def tc_done_def)

lemma answering_initial:
  "answering c [] \<Longrightarrow> \<exists>c'. tc_SendInitialMetadata m k c = (EC_Ok, c') \<and> answering c' [S_initial (metadata_arg m) k]"
  by (simp add: answering_def tc_SendInitialMetadata_def mark_initial_def tc_command_def ServerCall_SendInitialMetadata_def
      serverCallSendInitialMetadata_def memory_def resource_def n_record_def Error_ok_def call_closed_def tc_done_def Let_def)

lemma answering_send:
  "answering c ks \<Longrightarrow> ks \<noteq> [] \<Longrightarrow> \<exists>c'. tc_Send p k c = (EC_Ok, c') \<and> answering c' (ks @ [S_send p k])"
  by (simp add: answering_def tc_Send_def EnsureInitialMetadata_def tc_command_def ServerCall_Send_def
      serverCallSend_def resource_def n_record_def Error_ok_def call_closed_def tc_done_def Let_def)

lemma answering_finish:
  assumes "answering c ks" "StatusCode_value (s_code st) \<in> {0..16}"
  shows "\<exists>c'. tc_Finish st m c = (EC_Ok, c') \<and> n_log (s_native c') = accepted (opened ks @ [S_finish st (metadata_arg m)])"
proof -
  have "\<exists>c1. EnsureInitialMetadata Identity c = (EC_Ok, c1) \<and> answering c1 (opened ks)"
    using assms(1)
    by (cases "ks = []") (simp_all add: opened_def answering_def EnsureInitialMetadata_def mark_initial_def tc_command_def
        ServerCall_SendInitialMetadata_def serverCallSendInitialMetadata_def memory_def resource_def n_record_def
        Error_ok_def call_closed_def tc_done_def metadata_arg_def Let_def)
  then obtain c1 where c1: "EnsureInitialMetadata Identity c = (EC_Ok, c1)" "answering c1 (opened ks)" by blast
  have "opened ks \<noteq> []" by (simp add: opened_def)
  with c1 assms show ?thesis
    by (simp add: answering_def tc_Finish_def tc_command_def ServerCall_Finish_def serverCallFinish_def memory_def
        resource_def n_record_def Error_ok_def accepted_def Let_def)
qed

lemma answering_watch:
  assumes "answering c ks"
  shows "\<exists>c'. SetOnCancel cb c = (None, c') \<and> answering c' ks"
    "orderly c \<Longrightarrow> \<exists>c'. SetOnTerminal cb c = (None, c') \<and> answering c' ks"
  using assms orderly_reason [of c]
  by (auto simp: answering_def SetOnCancel_def SetOnTerminal_def tc_done_def Let_def)


lemma rs_handle_orderly:
  assumes "orderly s"
  shows "orderly (fst (rs_handle parse e s))"
proof -
  note o = orderly_cong [OF assms]
  have stream: "orderly (s\<lparr>s_stream := q\<rparr>)" for q by (rule o) simp_all
  show ?thesis
  proof (cases e)
    case (R_call a)
    with assms order.handle [of s a] show ?thesis by simp
  next
    case (R_message p)
    let ?c = "s\<lparr>s_delivered := s_delivered s @ [p]\<rparr>"
    have "orderly ?c" by (rule o) simp_all
    note m = OnMessage_typed(1) [OF this, of parse p]
    have "orderly (on_native (pause_if x) (fst (snd (rs_OnMessage parse p ?c))))" for x
      by (rule orderly_cong [OF m]) (simp_all add: on_native_def)
    with R_message assms show ?thesis by (simp add: split_beta Let_def)
  qed (use assms stream in \<open>simp_all add: rs_OnRemoteEnd_def rs_OnCancel_def rs_OnTerminal_def\<close>)
qed

lemma rs_start_orderly: "orderly (rs_start i r call)"
  by (simp add: rs_start_def typed_start_def startStreaming_def TypedCallState_new_def orderly_def tstate.defs)

lemma answering_cancelled: "answering c ks \<Longrightarrow> \<not> tc_cancelled c"
  by (simp add: answering_def tc_cancelled_def ServerCall_cancelled_def)

lemma svc_initial:
  assumes "answering (d_call s) []" and "CopyMetadata (gx_initial_metadata (d_context s)) None (d_heap s) = (e, m, hp)"
  shows "\<exists>c. svc_SendInitialMetadata tc_SendInitialMetadata s =
      (e, s\<lparr>d_heap := grpc_lite_metadata_destroy m hp, d_call := c\<rparr>) \<and>
    answering c (if Error_ok e then [S_initial (gx_initial_metadata (d_context s)) (NativeCompression (gx_compression (d_context s)))]
      else [])"
proof (cases "Error_ok e")
  case True
  then have "e = EC_Ok" "m = Some (gx_initial_metadata (d_context s))"
    using CopyMetadata_balanced(2) [OF assms(2)] by (auto simp: Error_ok_def)
  with assms answering_initial [OF assms(1), of "Some m" "NativeCompression (gx_compression (d_context s))"] True show ?thesis
    by (auto simp: svc_SendInitialMetadata_def on_call_def metadata_arg_def)
next
  case False
  with assms show ?thesis
    by (auto simp: svc_SendInitialMetadata_def intro!: exI [of _ "d_call s"])
qed

subsection \<open>Properties\<close>

text \<open>
  C2. A handler is started at most once, and never after the call ceased. For a unary or a
  server-streaming call that was dispatched, whatever happened to the call before, whatever the
  reactor does and however often and whenever the executor runs the task: the handler starts at
  most once; it does not start any more once the reactor reported the call cancelled or over, and
  it never starts if the executor had rejected the task.
\<close>

theorem handler_starts_at_most_once:
  assumes c: "c = fst (tc_run as (typed_start i r paused call))" and "admission = None \<or> Status_ok (the admission)"
    and d: "dispatch = DispatchUnary \<and> run = DispatchUnary_Run serialize handler request \<or>
      dispatch = DispatchServerStreaming \<and> run = DispatchServerStreaming_Run serialize act start request"
    and s: "s = snd (dispatch admission submitted (dispatch_state c x compression hp))"
    and tu: "served reactor_step tc_ran run s t" "served reactor_step tc_ran run t u"
  shows "d_handled u \<le> 1 \<and> d_handled t \<le> d_handled u \<and>
    (ceased (d_call t) \<or> \<not> submitted \<longrightarrow> d_handled u = d_handled t) \<and> (\<not> submitted \<longrightarrow> d_handled u = 0)"
proof -
  obtain body where run: "run = gated tc_ran body" and
    body: "\<And>s bs u bs'. body s bs = Some (u, bs') \<Longrightarrow> same_gate s u"
    using unary_gated [of serialize handler request] server_streaming_gated [of serialize act start request] d by blast
  have "orderly c" unfolding c by (rule order.run) simp
  then have g: "gate_guarded s" "\<not> submitted \<longrightarrow> d_gate s = G_Stopped"
    using dispatch_guarded [of tc_Finish admission submitted c x compression hp _ s] s d assms(2)
      prod.collapse [of "dispatch_call tc_Finish SetOnCancel SetOnTerminal admission submitted (dispatch_state c x compression hp)"]
    by (metis dispatch_same(1,2))+
  have "same_gate s t" if "\<not> submitted"
    by (rule unary_watch.served_settled [OF body tu(1) [unfolded run]]) (use that g in \<open>simp_all add: settled_def\<close>)
  with g unary_watch.started_once [OF body g(1) tu [unfolded run]] show ?thesis
    by (auto simp: gate_guarded_def same_gate_def)
qed

text \<open>
  C31. The same for calls that stream their requests: whatever the reactor did before the dispatch
  and does after it, messages included, the handler of a client-streaming or bidirectional call
  starts at most once, not after the call was reported cancelled or over, and not at all if the
  executor rejected it.
\<close>

theorem stream_handler_starts_at_most_once:
  assumes c: "c = fst (deliver (rs_handle parse) es (rs_start i r call))" and "admission = None \<or> Status_ok (the admission)"
    and d: "dispatch = DispatchClientStreaming \<and> run = DispatchClientStreaming_Run parse serialize act start \<or>
      dispatch = DispatchBidirectionalStreaming \<and> run = DispatchBidirectionalStreaming_Run parse serialize' act' start'"
    and s: "s = snd (dispatch admission submitted (dispatch_state c x compression hp))"
    and tu: "served reactor_rstep (rs_ran parse) run s t" "served reactor_rstep (rs_ran parse) run t u"
  shows "d_handled u \<le> 1 \<and> d_handled t \<le> d_handled u \<and>
    (ceased (d_call t) \<or> \<not> submitted \<longrightarrow> d_handled u = d_handled t) \<and> (\<not> submitted \<longrightarrow> d_handled u = 0)"
proof -
  obtain body where run: "run = gated (rs_ran parse) body" and
    body: "\<And>s bs u bs'. body s bs = Some (u, bs') \<Longrightarrow> same_gate s u"
    using client_streaming_gated [of parse serialize act start]
      bidirectional_streaming_gated [of parse serialize' act' start'] d by blast
  have "orderly c" unfolding c by (rule deliver_inv) (simp_all add: rs_handle_orderly rs_start_orderly)
  then have g: "gate_guarded s" "\<not> submitted \<longrightarrow> d_gate s = G_Stopped"
    using dispatch_guarded [of tc_Finish admission submitted c x compression hp _ s] s d assms(2)
      prod.collapse [of "dispatch_call tc_Finish SetOnCancel SetOnTerminal admission submitted (dispatch_state c x compression hp)"]
    by (metis dispatch_same(3,4))+
  have "same_gate s t" if "\<not> submitted"
    by (rule stream_watch.served_settled [OF body tu(1) [unfolded run]]) (use that g in \<open>simp_all add: settled_def\<close>)
  with g stream_watch.started_once [OF body g(1) tu [unfolded run]] show ?thesis
    by (auto simp: gate_guarded_def same_gate_def)
qed

text \<open>A sample call, and a handler that answers with its request.\<close>

lemma served_run:
  "run s bs = Some (u, bs') \<Longrightarrow> \<forall>b \<in> set bs. \<forall>e \<in> set b. reactor e \<Longrightarrow> served reactor k run s u"
  by (rule served.task [where t = s]) (auto intro: served.now)

definition sample_context :: ServerContext where
  "sample_context =
     \<lparr>x_request_metadata = [], x_request_compression = Identity, x_has_deadline = False, x_remaining_time_ns = 0\<rparr>"

definition sample_dispatch :: "bool \<Rightarrow> unit tstate dstate" where
  "sample_dispatch submitted =
     snd (DispatchUnary None submitted (dispatch_state (typed_start 5 (\<lambda>_. EC_Ok) True (Some 0))
       sample_context Identity \<lparr>h_outcomes = [], h_live = 0\<rparr>))"

definition echo :: "gctx \<Rightarrow> string \<Rightarrow> GrpcStatus \<times> string \<times> gctx" where
  "echo g request = (grpc_ok, request, AddInitialMetadata ''k'' ''v'' g)"

theorem handler_starts_at_most_once_witness:
  "let run = DispatchUnary_Run Some echo ''a''; t = fst (the (run (sample_dispatch True) []));
       u = fst (the (run t [])) in
   d_handled u = 1 \<and> n_log (s_native (d_call u)) =
     [(S_initial [(''k'', ''v'')] Identity, EC_Ok), (S_send ''a'' Identity, EC_Ok), (S_finish Status_default [], EC_Ok)]"
proof -
  define run where "run = DispatchUnary_Run Some echo ''a''"
  define t where "t = fst (the (run (sample_dispatch True) []))"
  define u where "u = fst (the (run t []))"
  have e: "\<not> Option.is_none (run (sample_dispatch True) [])" "\<not> Option.is_none (run t [])" "d_handled t = 1"
    "n_log (s_native (d_call u)) =
      [(S_initial [(''k'', ''v'')] Identity, EC_Ok), (S_send ''a'' Identity, EC_Ok), (S_finish Status_default [], EC_Ok)]"
    unfolding u_def t_def run_def by code_simp+
  then obtain bs bs' where r: "run (sample_dispatch True) [] = Some (t, bs)" "run t [] = Some (u, bs')"
    unfolding t_def u_def by (auto simp: Option.is_none_def)
  have "served reactor_step tc_ran run (sample_dispatch True) t" "served reactor_step tc_ran run t u"
    using served_run [of run, OF r(1)] served_run [of run, OF r(2)] by auto
  then have "d_handled t \<le> d_handled u \<and> d_handled u \<le> 1"
    using handler_starts_at_most_once [of "typed_start 5 (\<lambda>_. EC_Ok) True (Some 0)" "[]" 5 "\<lambda>_. EC_Ok" True "Some 0"
        None DispatchUnary run Some echo "''a''" "\<lambda>_. H_return grpc_ok ()" id "sample_dispatch True" True sample_context
        Identity "\<lparr>h_outcomes = [], h_live = 0\<rparr>" t u]
    by (simp add: run_def sample_dispatch_def)
  with e show ?thesis by (simp add: run_def t_def u_def Let_def)
qed


text \<open>A handler that answers with its requests joined, and a schedule that delivers two.\<close>

definition join :: "string \<times> bool \<Rightarrow> (string \<times> bool, string, unit, string) hact" where
  "join h = (if snd h then H_return grpc_ok (fst h)
     else H_read True (\<lambda>m. case m of None \<Rightarrow> (fst h, True) | Some p \<Rightarrow> (fst h @ p, False)))"

definition stream_dispatch :: "(unit, string) rstate dstate" where
  "stream_dispatch =
     snd (DispatchClientStreaming None True (dispatch_state
       (fst (deliver (rs_handle Some) [R_message ''a''] (rs_start 5 (\<lambda>_. EC_Ok) (Some 0))))
       sample_context Identity \<lparr>h_outcomes = [], h_live = 0\<rparr>))"

definition two_requests :: "unit rstep list list" where
  "two_requests = [[], [], [], [R_call N_resume, R_message ''b''], [], [R_call N_resume, R_remote_end]]"

theorem stream_handler_starts_at_most_once_witness:
  "let run = DispatchClientStreaming_Run Some Some join ([], False);
       t = fst (the (run stream_dispatch two_requests)); u = fst (the (run t [])) in
   d_handled u = 1 \<and> n_log (s_native (d_call u)) =
     [(S_resume, EC_Ok), (S_resume, EC_Ok), (S_initial [] Identity, EC_Ok), (S_send ''ab'' Identity, EC_Ok),
      (S_finish Status_default [], EC_Ok)]"
proof -
  define run where "run = DispatchClientStreaming_Run Some Some join ([], False)"
  define t where "t = fst (the (run stream_dispatch two_requests))"
  define u where "u = fst (the (run t []))"
  have e: "\<not> Option.is_none (run stream_dispatch two_requests)" "\<not> Option.is_none (run t [])" "d_handled t = 1"
    "n_log (s_native (d_call u)) =
     [(S_resume, EC_Ok), (S_resume, EC_Ok), (S_initial [] Identity, EC_Ok), (S_send ''ab'' Identity, EC_Ok),
      (S_finish Status_default [], EC_Ok)]"
    unfolding u_def t_def run_def by code_simp+
  then obtain bs bs' where r: "run stream_dispatch two_requests = Some (t, bs)" "run t [] = Some (u, bs')"
    unfolding t_def u_def by (auto simp: Option.is_none_def)
  have "\<forall>b \<in> set two_requests. \<forall>e \<in> set b. reactor_rstep e" by (simp add: two_requests_def)
  then have "served reactor_rstep (rs_ran Some) run stream_dispatch t" "served reactor_rstep (rs_ran Some) run t u"
    using served_run [of run, OF r(1)] served_run [of run, OF r(2)] by auto
  then have "d_handled t \<le> d_handled u \<and> d_handled u \<le> 1"
    using stream_handler_starts_at_most_once [where parse = Some and dispatch = DispatchClientStreaming and run = run and
        serialize = Some and act = join and start = "([], False)", OF refl _ _ stream_dispatch_def]
    by (simp add: run_def)
  with e show ?thesis by (simp add: run_def t_def u_def Let_def)
qed

text \<open>
  What a unary handler's result means on the wire, as a function of what it left in the context,
  its status and its response; the two flags tell whether there was memory for copying the
  metadata.
\<close>

definition internal_error :: "string \<Rightarrow> Status" where
  "internal_error m = \<lparr>s_code = SC_Internal, s_message = m\<rparr>"

definition final_answer ::
  "('resp \<Rightarrow> string option) \<Rightarrow> bool \<Rightarrow> gctx \<Rightarrow> GrpcStatus \<Rightarrow> 'resp \<Rightarrow> server_cmd list" where
  "final_answer serialize trailing_copied g st response =
     (if \<not> trailing_copied then [S_finish (internal_error ''failed to copy metadata'') []]
      else if \<not> g_is_ok st then [S_finish (ToNativeStatus st) (gx_trailing_metadata g)]
      else case serialize response of
             None \<Rightarrow> [S_finish (internal_error ''failed to serialize response'') (gx_trailing_metadata g)]
           | Some payload \<Rightarrow>
               [S_send payload (NativeCompression (gx_compression g)), S_finish Status_default (gx_trailing_metadata g)])"

definition unary_answer ::
  "('resp \<Rightarrow> string option) \<Rightarrow> bool \<Rightarrow> bool \<Rightarrow> gctx \<Rightarrow> GrpcStatus \<Rightarrow> 'resp \<Rightarrow> server_cmd list" where
  "unary_answer serialize initial_copied trailing_copied g st response =
     (if initial_copied
      then S_initial (gx_initial_metadata g) (NativeCompression (gx_compression g)) #
             final_answer serialize trailing_copied g st response
      else [S_initial [] Identity, S_finish (internal_error ''failed to send initial metadata'') []])"

lemma answer_codes [simp]:
  "StatusCode_value (s_code (ToNativeStatus st)) \<in> {0..16}" "StatusCode_value (s_code (internal_error m)) \<in> {0..16}"
  "StatusCode_value (s_code Status_default) \<in> {0..16}"
  using GrpcCode_value_range [of "g_code st"]
  by (simp_all add: ToNativeStatus_def internal_error_def Status_default_def)

lemma Status_default_ok [simp]: "Status_ok Status_default"
  by (simp add: Status_ok_def Status_default_def)

lemma unary_same:
  "UnaryCall_SendInitialMetadata True = tc_SendInitialMetadata" "UnaryCall_FinishResponse h serialize True = FinishResponse h serialize"
  by (simp_all add: fun_eq_iff UnaryCall_SendInitialMetadata_def UnaryCall_FinishResponse_def)

lemma svc_respond:
  assumes "answering (d_call s) ks" "ks \<noteq> []"
    and "CopyMetadata (gx_trailing_metadata (d_context s)) None (d_heap s) = (e, m, hp)"
  shows "\<exists>c. respond tc_Finish (FinishResponse tc_handle serialize) st response s [] =
      (s\<lparr>d_heap := grpc_lite_metadata_destroy m hp, d_call := c\<rparr>, []) \<and>
    n_log (s_native c) = accepted (ks @ final_answer serialize (Error_ok e) (d_context s) st response)"
proof (cases "Error_ok e")
  case False
  with assms answering_finish [OF assms(1) answer_codes(2) [of "''failed to copy metadata''"], of None] show ?thesis
    by (auto simp: respond_def svc_Finish_def on_call_def opened_def final_answer_def metadata_arg_def internal_error_def)
next
  case True
  then have m: "m = Some (gx_trailing_metadata (d_context s))" using CopyMetadata_balanced(2) [OF assms(3)] by (auto simp: Error_ok_def)
  show ?thesis
  proof (cases "g_is_ok st")
    case False
    with True m assms answering_finish [OF assms(1) answer_codes(1) [of st], of "Some m"] show ?thesis
      by (auto simp: respond_def svc_Finish_def on_call_def opened_def final_answer_def metadata_arg_def)
  next
    case ok: True
    show ?thesis
    proof (cases "serialize response")
      case None
      with ok True m assms answering_finish [OF assms(1) answer_codes(2) [of "''failed to serialize response''"], of "Some m"]
      show ?thesis by (auto simp: respond_def FinishResponse_def opened_def final_answer_def metadata_arg_def internal_error_def
          Let_def)
    next
      case (Some p)
      obtain c1 where c1: "tc_Send p (NativeCompression (gx_compression (d_context s))) (d_call s) = (EC_Ok, c1)"
        "answering c1 (ks @ [S_send p (NativeCompression (gx_compression (d_context s)))])"
        using answering_send [OF assms(1,2)] by blast
      from Some ok True m assms c1 answering_finish [OF c1(2) answer_codes(3), of "Some m"] show ?thesis
        by (auto simp: respond_def FinishResponse_def opened_def final_answer_def metadata_arg_def Error_ok_def
            Let_def)
    qed
  qed
qed





subsection \<open>Writing\<close>

text \<open>The two writers a streaming handler may get, as the dispatchers build them.\<close>

abbreviation server_write where
  "server_write serialize \<equiv> ServerWriter_Write tc_handle (ServerStreamingCall_cancelled True)
     (d_TryWrite tc_handle (ServerStreamingCall_SendInitialMetadata True) (ServerStreamingCall_TryWrite serialize True))
     (d_wait (ServerStreamingCall_WaitForWritable tc_handle True))"

abbreviation bidi_write where
  "bidi_write parse serialize \<equiv> ServerWriter_Write (rs_handle parse) (BidirectionalStreamingCall_cancelled True)
     (d_TryWrite (rs_handle parse) (BidirectionalStreamingCall_SendInitialMetadata True)
       (BidirectionalStreamingCall_TryWrite serialize True))
     (d_wait (BidirectionalStreamingCall_WaitForWritable (rs_handle_w parse) True))"

text \<open>The messages the native call has accepted.\<close>

fun message_of :: "server_cmd \<times> ErrorCode \<Rightarrow> string list" where
  "message_of (S_send p k, e) = (if Error_ok e then [p] else [])"
| "message_of _ = []"

definition sent :: "('cb, 'z) tstate_scheme \<Rightarrow> string list" where
  "sent c = concat (map message_of (n_log (s_native c)))"

definition by_reactor :: "('e \<Rightarrow> bool) \<Rightarrow> 'e list list \<Rightarrow> bool" where
  "by_reactor reactor bs \<longleftrightarrow> (\<forall>b \<in> set bs. \<forall>e \<in> set b. reactor e)"

text \<open>
  What a writer needs of its call: the steps of the other threads send no message, and an attempt
  to send adds its message exactly if it succeeds.
\<close>

locale writing =
  fixes reactor :: "'e \<Rightarrow> bool" and h hw :: "('e, ('cb, 'z) tstate_scheme) handler"
    and send :: "md_handle option \<Rightarrow> Compression \<Rightarrow> ('cb, 'z) tstate_scheme \<Rightarrow> ErrorCode \<times> ('cb, 'z) tstate_scheme"
    and attempt :: "'resp \<Rightarrow> Compression \<Rightarrow> ('cb, 'z) tstate_scheme \<Rightarrow> ErrorCode \<times> ('cb, 'z) tstate_scheme"
    and serialize :: "'resp \<Rightarrow> string option"
  assumes quiet: "reactor e \<Longrightarrow> sent (fst (h e c)) = sent c"
    and quiet_wait: "reactor e \<Longrightarrow> sent (fst (hw e c)) = sent c"
    and no_message: "sent (snd (send m k c)) = sent c"
    and attempt: "attempt r k c = (x, c') \<Longrightarrow>
      sent c' = sent c @ (if Error_ok x then [the (serialize r)] else []) \<and> (Error_ok x \<longrightarrow> serialize r \<noteq> None)"
begin

lemma batch_sent: "\<forall>e \<in> set b. reactor e \<Longrightarrow> sent (d_call (fst (deliver (d_lift h) b s))) = sent (d_call s)"
  by (induction b arbitrary: s) (simp_all add: quiet d_lift_def split_beta Let_def)

lemma pre_sent:
  assumes "pre h s bs = (s', bs')" "by_reactor reactor bs"
  shows "sent (d_call s') = sent (d_call s) \<and> by_reactor reactor bs'"
  using assms batch_sent by (cases bs) (auto simp: by_reactor_def)

lemma TryWrite_sent:
  assumes "d_TryWrite h send attempt r s bs = (e, s', bs')" "by_reactor reactor bs"
  shows "sent (d_call s') = sent (d_call s) @ (if Error_ok e then [the (serialize r)] else []) \<and>
    (Error_ok e \<longrightarrow> serialize r \<noteq> None) \<and> by_reactor reactor bs'"
proof -
  obtain e1 s1 where 1: "(if d_initial_metadata_sent s then (EC_Ok, s) else svc_SendInitialMetadata send s) = (e1, s1)"
    by fastforce
  then have s1: "sent (d_call s1) = sent (d_call s)"
    using no_message by (auto simp: svc_SendInitialMetadata_def on_call_def split_beta Let_def split: if_splits)
  show ?thesis
  proof (cases "Error_ok e1")
    case False
    with assms 1 s1 show ?thesis by (simp add: d_TryWrite_def)
  next
    case True
    let ?s2 = "s1\<lparr>d_initial_metadata_sent := True\<rparr>"
    obtain s3 bs3 where 3: "(if d_initial_metadata_sent s then (?s2, bs) else pre h ?s2 bs) = (s3, bs3)" by fastforce
    then have s3: "sent (d_call s3) = sent (d_call s)" "by_reactor reactor bs3"
      using s1 assms(2) pre_sent [of ?s2 bs s3 bs3] by (auto split: if_splits)
    obtain e4 c4 where 4: "attempt r (NativeCompression (gx_compression (d_context s3))) (d_call s3) = (e4, c4)" by fastforce
    from assms(1) True 1 3 4 have "e = e4" "s' = s3\<lparr>d_call := c4\<rparr>" "bs' = bs3"
      by (auto simp: d_TryWrite_def on_call_def)
    with attempt [OF 4] s3 show ?thesis by simp
  qed
qed

lemma sleep_sent:
  "cv_sleep hw p c bs = Some (c', bs') \<Longrightarrow> by_reactor reactor bs \<Longrightarrow> sent c' = sent c \<and> by_reactor reactor bs'"
proof (induction bs arbitrary: c)
  case (Cons b bs)
  have "sent (fst (deliver hw b c)) = sent c"
  proof -
    have "\<forall>e \<in> set b. reactor e" using Cons.prems by (simp add: by_reactor_def)
    then show ?thesis by (induction b arbitrary: c) (simp_all add: quiet_wait split_beta Let_def)
  qed
  with Cons show ?case by (auto simp: by_reactor_def split_beta Let_def split: if_splits)
qed simp

lemma wait_sent:
  assumes "d_wait (WaitForWritable hw) s bs = Some (w, s', bs')" "by_reactor reactor bs"
  shows "sent (d_call s') = sent (d_call s) \<and> by_reactor reactor bs'"
  using assms sleep_sent [of _ "d_call s" bs]
  by (auto simp: d_wait_def WaitForWritable_def cv_wait_def bind_eq_Some_conv split: if_splits)

lemma write_sent:
  assumes "ServerWriter_Write h cancelled (d_TryWrite h send attempt) (d_wait (WaitForWritable hw)) r s bs = Some (ok, t, bs')"
    and "by_reactor reactor bs"
  shows "sent (d_call t) = sent (d_call s) @ (if ok then [the (serialize r)] else []) \<and> (ok \<longrightarrow> serialize r \<noteq> None)"
proof -
  define tw where "tw = d_TryWrite h send attempt"
  define wait where "wait = d_wait (WaitForWritable hw)"
  have "h' = h \<and> tw' = tw \<and> wait' = wait \<and> r' = r \<longrightarrow> by_reactor reactor bs \<longrightarrow>
      sent (d_call (fst (snd y))) = sent (d_call s) @ (if fst y then [the (serialize r)] else []) \<and> (fst y \<longrightarrow> serialize r \<noteq> None)"
    if "ServerWriter_Write h' cancelled' tw' wait' r' s bs = Some y" for h' cancelled' tw' wait' r' s bs y
  proof (rule ServerWriter_Write.raw_induct [where P = "\<lambda>h' cancelled' tw' wait' r' s bs y.
      h' = h \<and> tw' = tw \<and> wait' = wait \<and> r' = r \<longrightarrow> by_reactor reactor bs \<longrightarrow>
      sent (d_call (fst (snd y))) = sent (d_call s) @ (if fst y then [the (serialize r)] else []) \<and> (fst y \<longrightarrow> serialize r \<noteq> None)",
      OF _ that], goal_cases)
    case (1 F h' cancelled' tw' wait' r' s bs y)
    show ?case
    proof (intro impI)
      assume eq: "h' = h \<and> tw' = tw \<and> wait' = wait \<and> r' = r" and bs: "by_reactor reactor bs"
      obtain s0 bs0 where s0: "pre h s bs = (s0, bs0)" by fastforce
      obtain s1 bs1 where s1: "pre h s0 bs0 = (s1, bs1)" by fastforce
      obtain e s2 bs2 where s2: "tw r s1 bs1 = (e, s2, bs2)" using prod_cases3 by blast
      note i = pre_sent [OF s0 bs] pre_sent [OF s1] TryWrite_sent [OF s2 [unfolded tw_def]]
      show "sent (d_call (fst (snd y))) = sent (d_call s) @ (if fst y then [the (serialize r)] else []) \<and> (fst y \<longrightarrow> serialize r \<noteq> None)"
      proof (cases "cancelled' (d_call s0) \<or> e \<noteq> EC_WouldBlock")
        case True
        with 1(2) eq s0 s1 s2 i show ?thesis by (auto split: if_splits)
      next
        case False
        with 1(2) eq s0 s1 s2 obtain w s3 bs3 where w: "wait s2 bs2 = Some (w, s3, bs3)"
          and y: "if \<not> w then y = (False, s3, bs3) else F h' cancelled' tw' wait' r' s3 bs3 = Some y"
          by (auto simp: bind_eq_Some_conv Error_ok_def split: if_splits)
        from wait_sent [OF w [unfolded wait_def]] i False eq y 1(1) [of h' cancelled' tw' wait' r' s3 bs3 y] show ?thesis
          by (auto simp: Error_ok_def split: if_splits)
      qed
    qed
  qed
  from this [OF assms(1) [folded tw_def wait_def]] assms(2) show ?thesis by simp
qed

end


lemma sent_cong: "n_log (s_native c') = n_log (s_native c) \<Longrightarrow> sent c' = sent c"
  by (simp add: sent_def)

lemma reactor_quiet: "reactor_step a \<Longrightarrow> sent (fst (tc_handle a c)) = sent c"
  by (rule sent_cong, cases a) (auto simp: tc_handle_def callback_defs reactor_defs on_native_def Let_def split: option.split)

lemma command_sent:
  "sent (snd (tc_SendInitialMetadata m k c)) = sent c" "sent (snd (tc_Finish st m c)) = sent c"
  "sent (snd (EnsureInitialMetadata k c)) = sent c"
  by (auto simp: sent_def tc_SendInitialMetadata_def mark_initial_def tc_command_def ServerCall_SendInitialMetadata_def
      serverCallSendInitialMetadata_def tc_Finish_def EnsureInitialMetadata_def ServerCall_Finish_def serverCallFinish_def n_record_def
      split_beta Let_def)

lemma Send_sent:
  assumes "tc_Send p k c = (e, c')"
  shows "sent c' = sent c @ (if Error_ok e then [p] else [])"
  using assms command_sent(3) [of k c]
  by (auto simp: tc_Send_def tc_command_def ServerCall_Send_def serverCallSend_def n_record_def sent_def
      split_beta Let_def Error_ok_def split: if_splits)


lemma Write_attempt:
  assumes "(case serialize r of
      None \<Rightarrow> let (finish_error, s') = tc_Finish \<lparr>s_code = SC_Internal, s_message = ''failed to serialize response''\<rparr> None c
        in (if Error_ok finish_error then EC_Internal else finish_error, s')
    | Some payload \<Rightarrow> tc_Send payload k c) = (e, c')"
  shows "sent c' = sent c @ (if Error_ok e then [the (serialize r)] else []) \<and> (Error_ok e \<longrightarrow> serialize r \<noteq> None)"
proof (cases "serialize r")
  case None
  with assms command_sent(2) [of "\<lparr>s_code = SC_Internal, s_message = ''failed to serialize response''\<rparr>" None c] show ?thesis
    by (auto simp: split_beta Let_def Error_ok_def split: if_splits)
next
  case (Some p)
  with assms Send_sent [of p k c e c'] show ?thesis by simp
qed

interpretation server_writing: writing reactor_step tc_handle tc_handle tc_SendInitialMetadata
  "ServerStreamingCall_TryWrite serialize True" serialize for serialize
proof (unfold_locales, goal_cases)
  case (3 r k c x c')
  then show ?case by (intro Write_attempt) (simp add: ServerStreamingCall_TryWrite_def)
qed (simp_all add: reactor_quiet command_sent)

lemma stream_sent:
  "sent (s\<lparr>s_stream := q\<rparr>) = sent s" "sent (s\<lparr>s_delivered := d\<rparr>) = sent s" "sent (on_native (pause_if x) s) = sent s"
  by (simp_all add: sent_def on_native_def pause_if_def)

lemma OnMessage_sent: "sent (fst (snd (rs_OnMessage parse p s))) = sent s"
  by (simp add: rs_OnMessage_def reject_def command_sent stream_sent split_beta Let_def split: option.split)

lemma stream_quiet:
  assumes "reactor_rstep a"
  shows "sent (fst (rs_handle parse a c)) = sent c" "sent (fst (rs_handle_w parse a c)) = sent c"
  using assms
  by (cases a; simp add: rs_handle_w_def rs_OnRemoteEnd_def rs_OnCancel_def rs_OnTerminal_def reactor_quiet stream_sent
      OnMessage_sent split_beta Let_def)+

interpretation bidi_writing: writing reactor_rstep "rs_handle parse" "rs_handle_w parse" tc_SendInitialMetadata
  "BidirectionalStreamingCall_TryWrite serialize True" serialize for parse serialize
proof (unfold_locales, goal_cases)
  case (4 r k c x c')
  then show ?case by (intro Write_attempt) (simp add: BidirectionalStreamingCall_TryWrite_def)
qed (simp_all add: stream_quiet command_sent)

lemma writers_same:
  "ServerStreamingCall_SendInitialMetadata True = tc_SendInitialMetadata"
  "BidirectionalStreamingCall_SendInitialMetadata True = tc_SendInitialMetadata"
  "ServerStreamingCall_WaitForWritable h True = WaitForWritable h"
  "BidirectionalStreamingCall_WaitForWritable h' True = WaitForWritable h'"
  by (simp_all add: fun_eq_iff ServerStreamingCall_SendInitialMetadata_def BidirectionalStreamingCall_SendInitialMetadata_def
      ServerStreamingCall_WaitForWritable_def BidirectionalStreamingCall_WaitForWritable_def)

text \<open>
  C10. A write puts its message on the wire exactly once or not at all. When \<^verbatim>\<open>Write\<close> of a
  server-streaming or bidirectional call returns, however often it had to wait and try again and
  whatever the reactor did meanwhile, the messages the native call accepted are those before,
  followed by the serialized message if it returned true, and by nothing if it returned false.
\<close>

theorem server_write_exactly_once:
  assumes "server_write serialize r s bs = Some (ok, t, bs1)" "\<forall>b \<in> set bs. \<forall>e \<in> set b. reactor_step e"
    and "bidi_write parse serialize r s' cs = Some (ok', t', cs1)" "\<forall>b \<in> set cs. \<forall>e \<in> set b. reactor_rstep e"
  shows "(if ok then \<exists>p. serialize r = Some p \<and> sent (d_call t) = sent (d_call s) @ [p] else sent (d_call t) = sent (d_call s)) \<and>
    (if ok' then \<exists>p. serialize r = Some p \<and> sent (d_call t') = sent (d_call s') @ [p]
     else sent (d_call t') = sent (d_call s'))"
  using server_writing.write_sent [OF assms(1) [unfolded writers_same]]
    bidi_writing.write_sent [OF assms(3) [unfolded writers_same]] assms(2,4)
  by (auto simp: by_reactor_def)

text \<open>Two calls whose second message finds the buffer full, after their first message.\<close>

definition busy_dispatch :: "unit tstate dstate" where
  "busy_dispatch = fst (snd (the (server_write Some ''x''
     (snd (DispatchServerStreaming None True (dispatch_state (typed_start 5 busy_once False (Some 0)) sample_context Identity
       \<lparr>h_outcomes = [], h_live = 0\<rparr>))) [])))"

definition busy_stream :: "(unit, string) rstate dstate" where
  "busy_stream = fst (snd (the (bidi_write Some Some ''x''
     (snd (DispatchBidirectionalStreaming None True (dispatch_state (rs_start 5 busy_once (Some 0)) sample_context Identity
       \<lparr>h_outcomes = [], h_live = 0\<rparr>))) [])))"

definition space_comes :: "unit tstep list list" where
  "space_comes = [[], [], [N_space], [C_writable]]"

theorem server_write_exactly_once_witness:
  "sent (d_call busy_dispatch) = [''x''] \<and> sent (d_call busy_stream) = [''x''] \<and>
   sent (d_call (fst (snd (the (server_write Some ''a'' busy_dispatch space_comes))))) = [''x'', ''a''] \<and>
   sent (d_call (fst (snd (the (bidi_write Some Some ''a'' busy_stream (map (map R_call) space_comes)))))) = [''x'', ''a'']"
proof -
  let ?w = "server_write Some ''a'' busy_dispatch space_comes"
  let ?b = "bidi_write Some Some ''a'' busy_stream (map (map R_call) space_comes)"
  have e: "\<not> Option.is_none ?w" "\<not> Option.is_none ?b" "fst (the ?w)" "fst (the ?b)"
    "sent (d_call busy_dispatch) = [''x'']" "sent (d_call busy_stream) = [''x'']"
    "\<forall>b \<in> set space_comes. \<forall>e \<in> set b. reactor_step e"
    "\<forall>b \<in> set (map (map R_call) space_comes). \<forall>e \<in> set b. reactor_rstep e"
    by code_simp+
  then obtain t bs t' cs where "?w = Some (True, t, bs)" "?b = Some (True, t', cs)"
    by (cases ?w; cases ?b) auto
  with server_write_exactly_once [OF this(1) e(7) this(2) e(8)] e(5,6) show ?thesis by simp
qed

lemma Metadata_never_blocks:
  "fst (CopyMetadata entries m h) \<noteq> EC_WouldBlock"
proof -
  have add: "fst (Metadata_Add m k v h) \<noteq> EC_WouldBlock" for m k v h
    by (auto simp: Metadata_Add_def grpc_lite_metadata_add_def split: option.split prod.split sum.split md_error.split)
  have "fst (add_all Metadata_Add es m h) \<noteq> EC_WouldBlock" for es m h
  proof (induction es arbitrary: m h)
    case (Cons e es)
    then show ?case using add by (cases e) (auto simp: split_beta Let_def)
  qed simp
  then show ?thesis
    by (auto simp: CopyMetadata_def Metadata_Create_def grpc_lite_metadata_create_def Let_def split_beta split: option.split prod.split)
qed


text \<open>A call that has ended, with its terminal callback delivered or still to come in the schedule.\<close>

definition winding_up :: "('cb, 'z) tstate_scheme \<Rightarrow> 'cb tstep list list \<Rightarrow> bool" where
  "winding_up c bs \<longleftrightarrow> ending c \<and> promised over C_terminal c bs"

lemma terminal_over: "ending c \<Longrightarrow> over (fst (tc_handle C_terminal c))"
  by (auto simp: ending_def over_def tc_handle_def typed_defs Let_def split: option.splits)

lemma pre_call: "d_call (fst (pre h s bs)) = fst (preempt h (d_call s) bs)" "snd (pre h s bs) = snd (preempt h (d_call s) bs)"
proof -
  have "d_call (fst (deliver (d_lift h) b s)) = fst (deliver h b (d_call s))" for b
    by (induction b arbitrary: s) (simp_all add: d_lift_def split_beta Let_def)
  then show "d_call (fst (pre h s bs)) = fst (preempt h (d_call s) bs)" by (cases bs) simp_all
qed (cases bs; simp)

lemma preempt_length: "length (snd (preempt h s bs)) = length bs - 1"
  by (cases bs) simp_all

lemma winding_pre: "winding_up (d_call s) bs \<Longrightarrow> winding_up (d_call (fst (pre tc_handle s bs))) (snd (pre tc_handle s bs))"
  using over_wait.preempt_promised [where J = ending and e = C_terminal and s = "d_call s" and bs = bs,
      OF ending.handle terminal_over]
  by (simp add: winding_up_def pre_call ending.preempted)

lemma winding_op: "winding_up c bs \<Longrightarrow> winding_up (snd (tc_SendInitialMetadata m k c)) bs"
  "winding_up c bs \<Longrightarrow> winding_up (snd (tc_Send p k c)) bs" "winding_up c bs \<Longrightarrow> winding_up (snd (tc_Finish st m c)) bs"
  by (auto simp: winding_up_def promised_def over_def frame_simps intro: ending.operations)

lemma winding_wait:
  assumes "winding_up c bs"
  shows "\<exists>w c' bs'. WaitForWritable tc_handle c bs = Some (w, c', bs') \<and> winding_up c' bs' \<and> length bs' \<le> length bs"
proof -
  have "cv_wait tc_handle over c bs \<noteq> None"
    by (rule over_wait.wait_returns [where J = ending and e = C_terminal])
      (use assms ending.handle terminal_over in \<open>auto simp: winding_up_def\<close>)
  then have "cv_wait tc_handle writable_or_over c bs \<noteq> None"
    by (rule over_wait.weaker_wait_returns [OF writable_wait.monitor_axioms, rotated])
      (simp add: over_def writable_or_over_def)
  then obtain c' bs' where w: "cv_wait tc_handle writable_or_over c bs = Some (c', bs')" by auto
  with assms over_wait.wait_promised [where J = ending and e = C_terminal, OF ending.handle terminal_over w]
    ending.waited [OF _ w] cv_wait_length [OF w] show ?thesis
    by (auto simp: WaitForWritable_def winding_up_def)
qed

lemma over_preempt: "over c \<Longrightarrow> over (fst (preempt tc_handle c bs))"
  by (rule preempt_inv) (auto intro: over_wait.stable)

lemma winding_TryWrite:
  assumes "winding_up (d_call s) bs"
    and "d_TryWrite tc_handle tc_SendInitialMetadata (ServerStreamingCall_TryWrite serialize True) r s bs = (e, s', bs')"
  shows "winding_up (d_call s') bs' \<and> length bs' \<le> length bs \<and> (over (d_call s) \<longrightarrow> e \<noteq> EC_WouldBlock)"
proof -
  obtain e1 s1 where 1: "(if d_initial_metadata_sent s then (EC_Ok, s) else svc_SendInitialMetadata tc_SendInitialMetadata s) = (e1, s1)"
    by fastforce
  then have s1: "winding_up (d_call s1) bs" "over (d_call s) \<longrightarrow> over (d_call s1) \<and> e1 \<noteq> EC_WouldBlock"
    using assms(1) winding_op(1) [OF assms(1)] Metadata_never_blocks [of "gx_initial_metadata (d_context s)" None "d_heap s"]
    by (auto simp: svc_SendInitialMetadata_def on_call_def over_def frame_simps tc_SendInitialMetadata_def tc_done_def
        split_beta Let_def split: if_splits)
  show ?thesis
  proof (cases "Error_ok e1")
    case False
    with assms 1 s1 show ?thesis by (simp add: d_TryWrite_def)
  next
    case True
    let ?s2 = "s1\<lparr>d_initial_metadata_sent := True\<rparr>"
    obtain s3 bs3 where 3: "(if d_initial_metadata_sent s then (?s2, bs) else pre tc_handle ?s2 bs) = (s3, bs3)" by fastforce
    then have s3: "winding_up (d_call s3) bs3" "length bs3 \<le> length bs" "over (d_call s1) \<longrightarrow> over (d_call s3)"
      using s1(1) winding_pre [of ?s2 bs] over_preempt [of "d_call s1" bs] pre_call [of tc_handle ?s2 bs] preempt_length [of tc_handle "d_call s1" bs]
      by (auto split: if_splits)
    obtain e4 c4 where 4: "ServerStreamingCall_TryWrite serialize True r (NativeCompression (gx_compression (d_context s3))) (d_call s3)
        = (e4, c4)" by fastforce
    from assms(2) True 1 3 4 have "e = e4" "s' = s3\<lparr>d_call := c4\<rparr>" "bs' = bs3"
      by (auto simp: d_TryWrite_def on_call_def)
    moreover have "winding_up c4 bs3"
      using 4 winding_op(2,3) [OF s3(1)]
      by (auto simp: ServerStreamingCall_TryWrite_def split_beta Let_def split: option.splits) (metis snd_conv)+
    moreover have "e4 \<noteq> EC_WouldBlock" if "over (d_call s3)"
      using 4 that by (auto simp: ServerStreamingCall_TryWrite_def over_def tc_Send_def tc_Finish_def tc_done_def Error_ok_def
          split: option.splits)
    ultimately show ?thesis using s1 s3 by simp
  qed
qed

lemma winding_write:
  assumes "winding_up (d_call s) bs"
  shows "server_write serialize r s bs \<noteq> None"
  using assms unfolding writers_same
proof (induction "length bs" arbitrary: s bs rule: less_induct)
  case less
  obtain s0 bs0 where s0: "pre tc_handle s bs = (s0, bs0)" by fastforce
  obtain s1 bs1 where s1: "pre tc_handle s0 bs0 = (s1, bs1)" by fastforce
  let ?tw = "d_TryWrite tc_handle tc_SendInitialMetadata (ServerStreamingCall_TryWrite serialize True)"
  obtain e s2 bs2 where s2: "?tw r s1 bs1 = (e, s2, bs2)" using prod_cases3 by blast
  have l: "length bs0 = length bs - 1" "length bs1 = length bs0 - 1"
    using s0 s1 pre_call(2) [of tc_handle s bs] pre_call(2) [of tc_handle s0 bs0] by (simp_all add: preempt_length)
  have w1: "winding_up (d_call s1) bs1"
    using winding_pre [OF less.prems] winding_pre [of s0 bs0] s0 s1 by simp
  note w2 = winding_TryWrite [OF w1 s2]
  obtain w c3 bs3 where w3: "WaitForWritable tc_handle (d_call s2) bs2 = Some (w, c3, bs3)" "winding_up c3 bs3" "length bs3 \<le> length bs2"
    using winding_wait w2 by blast
  have "ServerWriter_Write tc_handle (ServerStreamingCall_cancelled True) ?tw (d_wait (WaitForWritable tc_handle)) r (s2\<lparr>d_call := c3\<rparr>) bs3 \<noteq> None" if "bs1 \<noteq> []"
  proof (rule less.hyps)
    show "length bs3 < length bs" using that l w2 w3(3) by (cases bs1) auto
    show "winding_up (d_call (s2\<lparr>d_call := c3\<rparr>)) bs3" using w3 by simp
  qed
  moreover have "e \<noteq> EC_WouldBlock" if "bs1 = []" using that w1 w2 by (simp add: winding_up_def promised_def)
  ultimately show ?case
    by (subst ServerWriter_Write.simps) (auto simp: s0 s1 s2 d_wait_def w3)
qed


text \<open>
  C24. A handler never hangs in \<^verbatim>\<open>Write\<close> of a call that is over. From any state of the call in which
  the event loop has ended it, with the terminal callback still to come in the schedule, \<^verbatim>\<open>Write\<close>
  returns, whatever else the reactor and other threads do and however often the buffer is full.
\<close>

theorem server_write_returns:
  assumes "d_call s = fst (tc_run as (typed_start i r paused call))" "n_terminal_due (s_native (d_call s)) \<noteq> None"
    and "b \<in> set bs" "C_terminal \<in> set b"
  shows "\<exists>ok t bs'. server_write serialize response s bs = Some (ok, t, bs')"
proof -
  have "orderly (d_call s)" unfolding assms(1) by (rule order.run) simp
  with assms(2-4) have "winding_up (d_call s) bs"
    by (auto simp: winding_up_def ending_def orderly_def promised_def Let_def)
  from winding_write [OF this, of serialize response] show ?thesis by auto
qed

theorem server_write_returns_witness:
  "let s = dispatch_state (fst (tc_run [A_Send ''a'' Gzip, A_Send ''b'' Gzip, N_cancel, C_cancel, N_retire R_PeerCancelled]
         (typed_start 5 busy_once False (Some 0)) :: unit tstate \<times> _)) sample_context Identity \<lparr>h_outcomes = [], h_live = 0\<rparr> in
   \<exists>ok t bs'. server_write Some ''c'' s [[N_space], [], [C_terminal]] = Some (ok, t, bs')"
proof -
  define c where "c = (fst (tc_run [A_Send ''a'' Gzip, A_Send ''b'' Gzip, N_cancel, C_cancel, N_retire R_PeerCancelled]
         (typed_start 5 busy_once False (Some 0))) :: unit tstate)"
  define s where "s = dispatch_state c sample_context Identity \<lparr>h_outcomes = [], h_live = 0\<rparr>"
  have "d_call s = c" "\<not> Option.is_none (n_terminal_due (s_native c))"
    by (simp add: s_def dispatch_state_def, unfold c_def, code_simp)
  with server_write_returns [of s, unfolded this(1), OF c_def, of "[C_terminal]" "[[N_space], [], [C_terminal]]" Some "''c''"]
  have "\<exists>ok t bs'. server_write Some ''c'' s [[N_space], [], [C_terminal]] = Some (ok, t, bs')"
    by (simp add: Option.is_none_def)
  then show ?thesis unfolding s_def c_def Let_def .
qed

end
