(* ===== verification/Client_Stream.thy ===== *)
theory Client_Stream
  imports Metadata_Store
begin

section \<open>Client streams\<close>

text \<open>
  The C++ class \<^verbatim>\<open>grpc_lite::ClientStream\<close> (\<^verbatim>\<open>grpc_lite/cpp/client_stream.hpp\<close>): its
  options, its commands, its ownership of the C handle and the trampolines that turn C
  callbacks into C++ ones.

  The library below the C functions is seen through its command log. Every command is recorded
  with the reply it got; the replies are an arbitrary function of the position in the log, so
  that a theorem over all reply functions holds for every behaviour of the transport. Of the
  transport's own state, the model has the flags of \<^verbatim>\<open>ClientStreamState\<close> in
  \<^verbatim>\<open>src/channel.zig\<close> that decide which callbacks may run: whether the application still owns
  the handle, whether it cancelled, whether reception is paused and whether the terminal
  callback was delivered.
\<close>

subsection \<open>Options\<close>

record ClientStreamOptions =
  o_metadata :: "md_handle option"
  o_has_timeout :: bool
  o_send_compression :: Compression
  o_timeout_ns :: u64
  o_max_message_size :: u64
  o_max_inbound_buffer_size :: u64
  o_max_outbound_buffer_size :: u64

definition ClientStreamOptions_default :: ClientStreamOptions where
  "ClientStreamOptions_default =
     \<lparr>o_metadata = None, o_has_timeout = False, o_send_compression = Identity, o_timeout_ns = 0,
      o_max_message_size = 4194304, o_max_inbound_buffer_size = 8388608,
      o_max_outbound_buffer_size = 8388608\<rparr>"

text \<open>
  The C structure the options are copied into; its metadata member is the C handle, null when
  the option is null or the metadata object is empty.
\<close>

record grpc_lite_client_stream_options =
  co_metadata :: md_handle
  co_has_timeout :: u32
  co_send_compression :: u32
  co_timeout_ns :: u64
  co_max_message_size :: u64
  co_max_inbound_buffer_size :: u64
  co_max_outbound_buffer_size :: u64

definition Compression_value :: "Compression \<Rightarrow> u32" where
  "Compression_value c = (case c of Identity \<Rightarrow> 0 | Gzip \<Rightarrow> 1)"

definition c_stream_options :: "ClientStreamOptions \<Rightarrow> grpc_lite_client_stream_options" where
  "c_stream_options o1 =
     \<lparr>co_metadata = (case o_metadata o1 of None \<Rightarrow> None | Some m \<Rightarrow> m),
      co_has_timeout = (if o_has_timeout o1 then 1 else 0),
      co_send_compression = Compression_value (o_send_compression o1),
      co_timeout_ns = o_timeout_ns o1,
      co_max_message_size = o_max_message_size o1,
      co_max_inbound_buffer_size = o_max_inbound_buffer_size o1,
      co_max_outbound_buffer_size = o_max_outbound_buffer_size o1\<rparr>"

subsection \<open>The transport behind the C functions\<close>

datatype stream_cmd =
    K_open string grpc_lite_client_stream_options
  | K_send nat string Compression
  | K_close_send nat
  | K_cancel nat
  | K_resume nat
  | K_destroy nat

text \<open>
  A handle is the number of streams opened before it. The flags are those of the current
  stream; \<open>t_delivered\<close> records the payloads it handed to \<^verbatim>\<open>on_message\<close>.
\<close>

record transport =
  t_log :: "(stream_cmd \<times> ErrorCode) list"
  t_reply :: "nat \<Rightarrow> ErrorCode"
  t_opened :: nat
  t_live :: "nat option"
  t_cancel_requested :: bool
  t_paused :: bool
  t_terminal :: bool
  t_delivered :: "string list"

definition transport_init :: "(nat \<Rightarrow> ErrorCode) \<Rightarrow> transport" where
  "transport_init r =
     \<lparr>t_log = [], t_reply = r, t_opened = 0, t_live = None, t_cancel_requested = False,
      t_paused = False, t_terminal = False, t_delivered = []\<rparr>"

definition record_cmd :: "stream_cmd \<Rightarrow> ErrorCode \<Rightarrow> transport \<Rightarrow> transport" where
  "record_cmd k e t = t\<lparr>t_log := t_log t @ [(k, e)]\<rparr>"

definition next_reply :: "transport \<Rightarrow> ErrorCode" where
  "next_reply t = t_reply t (length (t_log t))"

definition c_open_stream ::
  "string \<Rightarrow> grpc_lite_client_stream_options \<Rightarrow> transport \<Rightarrow> ErrorCode \<times> nat option \<times> transport" where
  "c_open_stream method opts t =
     (let e = next_reply t; t1 = record_cmd (K_open method opts) e t in
      if Error_ok e
      then (e, Some (t_opened t),
            t1\<lparr>t_opened := t_opened t + 1, t_live := Some (t_opened t),
               t_cancel_requested := False, t_paused := False, t_terminal := False,
               t_delivered := []\<rparr>)
      else (e, None, t1))"

definition c_send :: "nat \<Rightarrow> string \<Rightarrow> Compression \<Rightarrow> transport \<Rightarrow> ErrorCode \<times> transport" where
  "c_send h payload c t = (let e = next_reply t in (e, record_cmd (K_send h payload c) e t))"

definition c_close_send :: "nat \<Rightarrow> transport \<Rightarrow> ErrorCode \<times> transport" where
  "c_close_send h t = (let e = next_reply t in (e, record_cmd (K_close_send h) e t))"

text \<open>The commands that return nothing accept a null handle and do nothing then.\<close>

definition c_cancel :: "nat option \<Rightarrow> transport \<Rightarrow> transport" where
  "c_cancel h t =
     (case h of None \<Rightarrow> t
      | Some i \<Rightarrow> (record_cmd (K_cancel i) EC_Ok t)
          \<lparr>t_cancel_requested := t_cancel_requested t \<or> (t_live t = h \<and> \<not> t_terminal t)\<rparr>)"

definition c_resume_receive :: "nat \<Rightarrow> transport \<Rightarrow> ErrorCode \<times> transport" where
  "c_resume_receive h t =
     (let e = next_reply t; t1 = record_cmd (K_resume h) e t in
      (e, if Error_ok e then t1\<lparr>t_paused := False\<rparr> else t1))"

definition c_destroy :: "nat option \<Rightarrow> transport \<Rightarrow> transport" where
  "c_destroy h t =
     (case h of None \<Rightarrow> t
      | Some i \<Rightarrow> (record_cmd (K_destroy i) EC_Ok t)\<lparr>t_live := (if t_live t = h then None else t_live t)\<rparr>)"

text \<open>
  \<^verbatim>\<open>callbacksEnabled\<close> of \<^verbatim>\<open>src/channel.zig\<close> for the ordinary callbacks and the condition of
  \<^verbatim>\<open>beginTerminalCallback\<close> under the once-only flag of \<^verbatim>\<open>terminalizeStream\<close>.
\<close>

definition callbacksEnabled :: "transport \<Rightarrow> bool" where
  "callbacksEnabled t \<longleftrightarrow> t_live t \<noteq> None \<and> \<not> t_cancel_requested t \<and> \<not> t_terminal t"

definition terminalEnabled :: "transport \<Rightarrow> bool" where
  "terminalEnabled t \<longleftrightarrow> t_live t \<noteq> None \<and> \<not> t_terminal t"

subsection \<open>The class\<close>

text \<open>A \<^verbatim>\<open>ClientStream\<close> object: its C handle, null by default and after a move.\<close>

type_synonym ClientStream = "nat option"

definition ClientStream_Reset :: "ClientStream \<Rightarrow> transport \<Rightarrow> ClientStream \<times> transport" where
  "ClientStream_Reset s t = (None, c_destroy s t)"

text \<open>Move construction and move assignment: \<open>(source, target)\<close> after the operation.\<close>

definition ClientStream_move :: "ClientStream \<Rightarrow> ClientStream \<times> ClientStream" where
  "ClientStream_move other = (None, other)"

definition ClientStream_assign ::
  "bool \<Rightarrow> ClientStream \<Rightarrow> ClientStream \<Rightarrow> transport \<Rightarrow> ClientStream \<times> ClientStream \<times> transport" where
  "ClientStream_assign same this other t =
     (if same then (this, other, t)
      else let (_, t') = ClientStream_Reset this t in (other, None, t'))"

definition ClientStream_Open ::
  "string \<Rightarrow> ClientStreamOptions \<Rightarrow> ClientStream option \<Rightarrow> transport \<Rightarrow> ErrorCode \<times> ClientStream option \<times> transport" where
  "ClientStream_Open method options out t =
     (case out of None \<Rightarrow> (EC_InvalidArgument, None, t) | Some old \<Rightarrow>
      let (error, handle, t1) = c_open_stream method (c_stream_options options) t in
      if \<not> Error_ok error then (error, out, t1)
      else let (new, _, t2) = ClientStream_assign False old handle t1 in (EC_Ok, Some new, t2))"

definition ClientStream_Send :: "ClientStream \<Rightarrow> string \<Rightarrow> Compression \<Rightarrow> transport \<Rightarrow> ErrorCode \<times> transport" where
  "ClientStream_Send s payload c t =
     (case s of None \<Rightarrow> (EC_InvalidState, t) | Some h \<Rightarrow> c_send h payload c t)"

definition ClientStream_CloseSend :: "ClientStream \<Rightarrow> transport \<Rightarrow> ErrorCode \<times> transport" where
  "ClientStream_CloseSend s t =
     (case s of None \<Rightarrow> (EC_InvalidState, t) | Some h \<Rightarrow> c_close_send h t)"

definition ClientStream_Cancel :: "ClientStream \<Rightarrow> transport \<Rightarrow> transport" where
  "ClientStream_Cancel s t = c_cancel s t"

definition ClientStream_ResumeReceive :: "ClientStream \<Rightarrow> transport \<Rightarrow> ErrorCode \<times> transport" where
  "ClientStream_ResumeReceive s t =
     (case s of None \<Rightarrow> (EC_InvalidState, t) | Some h \<Rightarrow> c_resume_receive h t)"

subsection \<open>Callbacks and trampolines\<close>

text \<open>
  The callbacks of an owner with state \<^typ>\<open>'s\<close>; each returns the new state and whether it
  notified the owner's condition variable. An empty \<^verbatim>\<open>std::function\<close> is \<^const>\<open>None\<close>. A
  trampoline copies the borrowed views before it looks at the callback; \<^const>\<open>None\<close> would be
  a read through a null data pointer.
\<close>

record 's ClientStreamCallbacks =
  on_headers :: "(entry list \<Rightarrow> 's \<Rightarrow> 's \<times> bool) option"
  on_message :: "(string \<Rightarrow> Compression \<Rightarrow> 's \<Rightarrow> ReceiveAction \<times> 's \<times> bool) option"
  on_remote_end :: "('s \<Rightarrow> 's \<times> bool) option"
  on_writable :: "('s \<Rightarrow> 's \<times> bool) option"
  on_terminal :: "(Status \<Rightarrow> entry list \<Rightarrow> 's \<Rightarrow> 's \<times> bool) option"

definition OnHeaders :: "'s ClientStreamCallbacks \<Rightarrow> md_handle \<Rightarrow> 's \<Rightarrow> ('s \<times> bool) option" where
  "OnHeaders cb headers s =
     do { copy \<leftarrow> CopyMetadataView headers;
          case on_headers cb of None \<Rightarrow> Some (s, False) | Some f \<Rightarrow> Some (f copy s) }"

definition OnMessage ::
  "'s ClientStreamCallbacks \<Rightarrow> bytes_view \<Rightarrow> Compression \<Rightarrow> 's \<Rightarrow> (ReceiveAction \<times> 's \<times> bool) option" where
  "OnMessage cb payload c s =
     do { copy \<leftarrow> CopyBytes payload;
          case on_message cb of None \<Rightarrow> Some (Continue, s, False) | Some f \<Rightarrow> Some (f copy c s) }"

definition OnRemoteEnd :: "'s ClientStreamCallbacks \<Rightarrow> 's \<Rightarrow> 's \<times> bool" where
  "OnRemoteEnd cb s = (case on_remote_end cb of None \<Rightarrow> (s, False) | Some f \<Rightarrow> f s)"

definition OnWritable :: "'s ClientStreamCallbacks \<Rightarrow> 's \<Rightarrow> 's \<times> bool" where
  "OnWritable cb s = (case on_writable cb of None \<Rightarrow> (s, False) | Some f \<Rightarrow> f s)"

definition OnTerminal ::
  "'s ClientStreamCallbacks \<Rightarrow> int \<Rightarrow> bytes_view \<Rightarrow> md_handle \<Rightarrow> 's \<Rightarrow> ('s \<times> bool) option" where
  "OnTerminal cb status_code status_message trailing s =
     do { message \<leftarrow> CopyBytes status_message;
          copy \<leftarrow> CopyMetadataView trailing;
          case on_terminal cb of None \<Rightarrow> Some (s, False)
          | Some f \<Rightarrow> Some (f \<lparr>s_code = StatusCode_cast status_code, s_message = message\<rparr> copy s) }"

subsection \<open>Lemmas\<close>

lemma record_cmd_simps [simp]:
  "t_log (record_cmd k e t) = t_log t @ [(k, e)]"
  "t_reply (record_cmd k e t) = t_reply t"
  "t_opened (record_cmd k e t) = t_opened t"
  "t_live (record_cmd k e t) = t_live t"
  "t_cancel_requested (record_cmd k e t) = t_cancel_requested t"
  "t_paused (record_cmd k e t) = t_paused t"
  "t_terminal (record_cmd k e t) = t_terminal t"
  "t_delivered (record_cmd k e t) = t_delivered t"
  by (simp_all add: record_cmd_def)

lemmas client_stream_defs =
  ClientStream_Send_def ClientStream_CloseSend_def ClientStream_Cancel_def
  ClientStream_ResumeReceive_def ClientStream_Reset_def ClientStream_assign_def
  c_send_def c_close_send_def c_cancel_def c_resume_receive_def c_destroy_def

end
