(* ===== verification/Client_Context.thy ===== *)
theory Client_Context
  imports Metadata_Store Complex_Main "HOL-Library.Log_Nat"
begin

section \<open>The client context\<close>

text \<open>
  \<^verbatim>\<open>grpc::ClientContext\<close> (\<^verbatim>\<open>grpcpp/client_context.h\<close>): the metadata of one call, its
  deadline, and the cancellation hand-shake with the call that runs under it; and the
  conversion of the deadline into the timeout of the stream (\<^verbatim>\<open>grpcpp/impl/blocking_call.h\<close>).

  The context refers to its call by a weak pointer: here the number of the call, together with
  a predicate that says which calls are still alive. Each operation is one critical section of
  the context's mutex.
\<close>

subsection \<open>Extended floating point\<close>

text \<open>
  \<^verbatim>\<open>long double\<close> has an implementation-defined precision (64 bits on x86-64, 113 on arm64):
  the model takes the precision \<open>p\<close> as an argument. A finite value is the rational number it
  denotes; an operation rounds the exact result to \<open>p\<close> significant bits, ties to even.
\<close>

datatype ldouble = Fin rat | Infinity

definition ilog2 :: "rat \<Rightarrow> int" where
  "ilog2 x =
     (let (a, b) = quotient_of x;
          e = bitlen a - bitlen b in
      if (2::rat) powi e \<le> x then e else e - 1)"

definition round_half_even :: "rat \<Rightarrow> int" where
  "round_half_even x =
     (let f = \<lfloor>x\<rfloor>; d = x - of_int f in
      if d < 1 / 2 then f else if 1 / 2 < d then f + 1 else if even f then f else f + 1)"

definition ld_round :: "nat \<Rightarrow> rat \<Rightarrow> rat" where
  "ld_round p x =
     (if x = 0 then 0
      else let s = (2::rat) powi (ilog2 \<bar>x\<bar> - int p + 1) in
           sgn x * of_int (round_half_even (\<bar>x\<bar> / s)) * s)"

subsection \<open>State\<close>

record ClientContext =
  cc_metadata :: "entry list"
  cc_initial_metadata :: "entry list"
  cc_trailing_metadata :: "entry list"
  cc_deadline_seconds :: rat
  cc_deadline_extreme :: int
  cc_has_deadline :: bool
  cc_target :: "nat option"
  cc_cancelled :: bool
  cc_terminal :: bool

definition ClientContext_init :: ClientContext where
  "ClientContext_init =
     \<lparr>cc_metadata = [], cc_initial_metadata = [], cc_trailing_metadata = [],
      cc_deadline_seconds = 0, cc_deadline_extreme = 0, cc_has_deadline = False,
      cc_target = None, cc_cancelled = False, cc_terminal = False\<rparr>"

definition AddMetadata :: "string \<Rightarrow> string \<Rightarrow> ClientContext \<Rightarrow> ClientContext" where
  "AddMetadata key value c = c\<lparr>cc_metadata := mm_emplace (key, value) (cc_metadata c)\<rparr>"

subsection \<open>Deadlines\<close>

text \<open>
  A time point of any clock: its smallest value, its largest value, or a number of seconds
  since the epoch of the clock.
\<close>

datatype time_point = TP_min | TP_max | TP rat

definition set_deadline :: "nat \<Rightarrow> time_point \<Rightarrow> rat \<Rightarrow> rat \<Rightarrow> ClientContext \<Rightarrow> ClientContext" where
  "set_deadline p deadline clock_now system_now c =
     (case deadline of
        TP_min \<Rightarrow> c\<lparr>cc_deadline_extreme := - 1, cc_has_deadline := True\<rparr>
      | TP_max \<Rightarrow> c\<lparr>cc_deadline_extreme := 1, cc_has_deadline := True\<rparr>
      | TP d \<Rightarrow>
          let clock_deadline = ld_round p d; cn = ld_round p clock_now; sn = ld_round p system_now in
          c\<lparr>cc_deadline_seconds := ld_round p (sn + ld_round p (clock_deadline - cn)),
            cc_deadline_extreme := 0, cc_has_deadline := True\<rparr>)"

text \<open>
  The deadline branch of \<^verbatim>\<open>BlockingCallState::Open\<close>. Converting a floating-point value to
  \<^verbatim>\<open>uint64_t\<close> truncates it and is undefined (\<^const>\<open>None\<close>) when the result does not fit.
\<close>

definition u64_of_ldouble :: "rat \<Rightarrow> u64 option" where
  "u64_of_ldouble x =
     (if 0 \<le> x \<and> x < 2 ^ 64 then Some (word_of_int \<lfloor>x\<rfloor>) else None)"

definition ld_le :: "ldouble \<Rightarrow> rat \<Rightarrow> bool" where
  "ld_le x q = (case x of Fin r \<Rightarrow> r \<le> q | Infinity \<Rightarrow> False)"

definition ld_ge :: "ldouble \<Rightarrow> rat \<Rightarrow> bool" where
  "ld_ge x q = (case x of Fin r \<Rightarrow> q \<le> r | Infinity \<Rightarrow> True)"

definition timeout_maximum :: "nat \<Rightarrow> rat" where
  "timeout_maximum p = ld_round p (ld_round p (2 ^ 64 - 1) / 1000000000)"

definition seconds_to_timeout :: "nat \<Rightarrow> ldouble \<Rightarrow> u64 option" where
  "seconds_to_timeout p seconds =
     (if ld_le seconds 0 then Some 0
      else if ld_ge seconds (timeout_maximum p) then Some (- 1)
      else case seconds of
             Fin q \<Rightarrow> u64_of_ldouble (ld_round p (q * 1000000000))
           | Infinity \<Rightarrow> None)"

definition remaining_seconds :: "nat \<Rightarrow> rat \<Rightarrow> ClientContext \<Rightarrow> ldouble" where
  "remaining_seconds p now c =
     (if cc_deadline_extreme c < 0 then Fin (- 1)
      else if 0 < cc_deadline_extreme c then Infinity
      else Fin (ld_round p (cc_deadline_seconds c - ld_round p now)))"

text \<open>\<open>(has_timeout, timeout_ns)\<close> of the stream options.\<close>

definition open_timeout :: "nat \<Rightarrow> rat \<Rightarrow> ClientContext \<Rightarrow> (bool \<times> u64) option" where
  "open_timeout p now c =
     (if cc_has_deadline c
      then map_option (Pair True) (seconds_to_timeout p (remaining_seconds p now c))
      else Some (False, 0))"

subsection \<open>Cancellation and completion\<close>

definition cc_lock :: "(nat \<Rightarrow> bool) \<Rightarrow> ClientContext \<Rightarrow> nat option" where
  "cc_lock alive c =
     (case cc_target c of None \<Rightarrow> None | Some i \<Rightarrow> if alive i then Some i else None)"

text \<open>\<^verbatim>\<open>TryCancel\<close>: the new context and the call whose \<^verbatim>\<open>Cancel\<close> is invoked next.\<close>

definition TryCancel :: "(nat \<Rightarrow> bool) \<Rightarrow> ClientContext \<Rightarrow> ClientContext \<times> nat option" where
  "TryCancel alive c =
     (if cc_terminal c then (c, None) else (c\<lparr>cc_cancelled := True\<rparr>, cc_lock alive c))"

definition RegisterCancellation :: "nat \<Rightarrow> ClientContext \<Rightarrow> bool \<times> ClientContext" where
  "RegisterCancellation target c =
     (if cc_cancelled c \<or> cc_terminal c then (False, c)
      else (True, c\<lparr>cc_target := Some target\<rparr>))"

definition SetInitialMetadata :: "entry list \<Rightarrow> ClientContext \<Rightarrow> ClientContext" where
  "SetInitialMetadata m c = c\<lparr>cc_initial_metadata := m\<rparr>"

definition CompleteCall ::
  "(nat \<Rightarrow> bool) \<Rightarrow> nat \<Rightarrow> entry list \<Rightarrow> entry list \<Rightarrow> ClientContext \<Rightarrow> ClientContext" where
  "CompleteCall alive target initial trailing c =
     (case cc_lock alive c of
        Some active \<Rightarrow>
          if active \<noteq> target then c
          else c\<lparr>cc_initial_metadata := initial, cc_trailing_metadata := trailing,
                 cc_target := None, cc_terminal := True\<rparr>
      | None \<Rightarrow> c\<lparr>cc_initial_metadata := initial, cc_trailing_metadata := trailing,
                  cc_target := None, cc_terminal := True\<rparr>)"

subsection \<open>Rounding\<close>

lemma bitlen_bounds_rat:
  assumes "0 < a"
  shows "(2::rat) powi (bitlen a - 1) \<le> of_int a" "of_int a < (2::rat) powi bitlen a"
proof -
  have b: "0 < bitlen a" using assms by (simp add: bitlen_eq_zero_iff less_le bitlen_nonneg)
  have "2 ^ nat (bitlen a - 1) \<le> a \<and> a < 2 ^ nat (bitlen a)" using bitlen_bounds [OF assms] .
  then have "(2::rat) ^ nat (bitlen a - 1) \<le> of_int a" "of_int a < (2::rat) ^ nat (bitlen a)"
    by (metis of_int_le_iff of_int_numeral of_int_power, metis of_int_less_iff of_int_numeral of_int_power)
  with b show "(2::rat) powi (bitlen a - 1) \<le> of_int a" "of_int a < (2::rat) powi bitlen a"
    by (simp_all add: power_int_def)
qed

lemma ilog2_bounds:
  assumes "0 < x"
  shows "2 powi (ilog2 x) \<le> x" "x < 2 powi (ilog2 x + 1)"
proof -
  obtain a b where q: "quotient_of x = (a, b)" by fastforce
  have b: "0 < b" and x: "x = of_int a / of_int b" using q quotient_of_denom_pos quotient_of_div by auto
  have a: "0 < a" using assms x b by (simp add: zero_less_divide_iff)
  define e where "e = bitlen a - bitlen b"
  have "(2::rat) powi (e - 1) = 2 powi (bitlen a - 1) / 2 powi bitlen b"
    by (simp add: e_def power_int_diff [symmetric] algebra_simps)
  also have "\<dots> \<le> of_int a / 2 powi bitlen b"
    using bitlen_bounds_rat(1) [OF a] by (simp add: divide_right_mono)
  also have "\<dots> \<le> x" unfolding x
    using bitlen_bounds_rat(2) [OF b] a b by (intro divide_left_mono) auto
  finally have lo: "2 powi (e - 1) \<le> x" .
  have "x \<le> of_int a / 2 powi (bitlen b - 1)" unfolding x
    using bitlen_bounds_rat(1) [OF b] a b by (intro divide_left_mono) auto
  also have "\<dots> < 2 powi bitlen a / 2 powi (bitlen b - 1)"
    using bitlen_bounds_rat(2) [OF a] by (simp add: divide_strict_right_mono)
  also have "\<dots> = 2 powi (e + 1)" by (simp add: e_def power_int_diff [symmetric] algebra_simps)
  finally have hi: "x < 2 powi (e + 1)" .
  have i: "ilog2 x = (if 2 powi e \<le> x then e else e - 1)" by (simp add: ilog2_def q e_def Let_def)
  show "2 powi (ilog2 x) \<le> x" "x < 2 powi (ilog2 x + 1)" using lo hi by (auto simp: i)
qed

lemma ilog2_eqI:
  assumes "2 powi e \<le> x" "x < 2 powi (e + 1)"
  shows "ilog2 x = e"
proof -
  have "0 < x" using assms(1) by (meson less_le_trans zero_less_numeral zero_less_power_int)
  note b = ilog2_bounds [OF this]
  have "(2::rat) powi ilog2 x < 2 powi (e + 1)" "(2::rat) powi e < 2 powi (ilog2 x + 1)" using b assms by auto
  then have "ilog2 x < e + 1" "e < ilog2 x + 1"
    using power_int_increasing [of "e + 1" "ilog2 x" "2::rat"] power_int_increasing [of "ilog2 x + 1" e "2::rat"]
    by linarith+
  then show ?thesis by simp
qed

lemma round_half_even_error: "\<bar>of_int (round_half_even x) - x\<bar> \<le> 1 / 2"
  using floor_correct [of x] by (auto simp: round_half_even_def Let_def abs_le_iff)

lemma ld_round_pos:
  assumes "0 < x"
  obtains k where "ld_round p x = of_int k * 2 powi (ilog2 x - int p + 1)"
    "\<bar>ld_round p x - x\<bar> \<le> 2 powi (ilog2 x - int p)"
proof -
  define s where "s = (2::rat) powi (ilog2 x - int p + 1)"
  have s: "0 < s" by (simp add: s_def)
  have r: "ld_round p x = of_int (round_half_even (x / s)) * s"
    using assms by (simp add: ld_round_def s_def Let_def)
  have "of_int (round_half_even (x / s)) * s - x = (of_int (round_half_even (x / s)) - x / s) * s"
    using s by (simp add: left_diff_distrib)
  then have "\<bar>of_int (round_half_even (x / s)) * s - x\<bar> = \<bar>of_int (round_half_even (x / s)) - x / s\<bar> * s"
    using s by (simp add: abs_mult)
  also have "\<dots> \<le> 1 / 2 * s" using round_half_even_error s by (intro mult_right_mono) auto
  also have "\<dots> = 2 powi (ilog2 x - int p)" by (simp add: s_def power_int_add)
  finally show thesis using r that by (simp add: s_def)
qed

lemma ld_round_near:
  assumes "0 < x" "x < 2 powi (e + 1)"
  shows "\<bar>ld_round p x - x\<bar> \<le> 2 powi (e - int p)"
proof -
  have "ilog2 x < e + 1"
    using ilog2_bounds(1) [OF assms(1)] assms(2) power_int_increasing [of "e + 1" "ilog2 x" "2::rat"] by linarith
  then have "(2::rat) powi (ilog2 x - int p) \<le> 2 powi (e - int p)" by (intro power_int_increasing) auto
  moreover obtain k where "\<bar>ld_round p x - x\<bar> \<le> 2 powi (ilog2 x - int p)"
    by (rule ld_round_pos [OF assms(1), of p])
  ultimately show ?thesis by simp
qed

text \<open>
  The largest timeout that is converted and the values below it, in a precision of at least
  64 bits.
\<close>

lemma timeout_maximum_bounds:
  assumes "64 \<le> p"
  obtains k N where "timeout_maximum p = of_int k * 2 powi (35 - int p)"
    "timeout_maximum p \<le> N / 1000000000 + 2 powi (34 - int p)" "N \<le> 2 ^ 64 - 1 / 2"
proof -
  define N where "N = ld_round p (2 ^ 64 - 1)"
  have half: "(2::rat) powi (63 - int p) \<le> 1 / 2"
    using assms power_int_increasing [of "63 - int p" "- 1" "2::rat"] by (simp add: power_int_minus)
  have "\<bar>N - (2 ^ 64 - 1)\<bar> \<le> 2 powi (63 - int p)"
    unfolding N_def by (rule ld_round_near) (simp_all add: power_int_def)
  with half have N: "2 ^ 64 - 2 \<le> N" "N \<le> 2 ^ 64 - 1 / 2" by (auto simp: abs_le_iff)
  have e: "ilog2 (N / 1000000000) = 34" by (rule ilog2_eqI) (use N in \<open>simp_all add: power_int_def\<close>)
  have "0 < N / 1000000000" using N by simp
  then obtain k where "ld_round p (N / 1000000000) = of_int k * 2 powi (35 - int p)"
    "\<bar>ld_round p (N / 1000000000) - N / 1000000000\<bar> \<le> 2 powi (34 - int p)"
    by (rule ld_round_pos [of _ p]) (simp add: e)
  with N show thesis by (intro that [of k N]) (auto simp: timeout_maximum_def N_def abs_le_iff)
qed

lemma timeout_maximum_lower:
  assumes "64 \<le> p"
  shows "2 ^ 64 - 3 \<le> timeout_maximum p * 1000000000"
proof -
  define N where "N = ld_round p (2 ^ 64 - 1)"
  have half: "(2::rat) powi (63 - int p) \<le> 1 / 2" "(2::rat) powi (34 - int p) \<le> 1 / 2 ^ 30"
    using assms power_int_increasing [of "63 - int p" "- 1" "2::rat"] power_int_increasing [of "34 - int p" "- 30" "2::rat"]
    by (simp_all add: power_int_minus)
  have "\<bar>N - (2 ^ 64 - 1)\<bar> \<le> 2 powi (63 - int p)"
    unfolding N_def by (rule ld_round_near) (simp_all add: power_int_def)
  with half have N: "2 ^ 64 - 3 / 2 \<le> N" "N \<le> 2 ^ 64 - 1 / 2" by (auto simp: abs_le_iff)
  have "\<bar>timeout_maximum p - N / 1000000000\<bar> \<le> 2 powi (34 - int p)"
    unfolding timeout_maximum_def N_def [symmetric]
    by (rule ld_round_near) (use N in \<open>simp_all add: power_int_def\<close>)
  with N half show ?thesis by (simp add: abs_le_iff)
qed

lemma ld_round_nonneg: "0 \<le> y \<Longrightarrow> 0 \<le> ld_round p y"
proof -
  assume y: "0 \<le> y"
  have "0 \<le> round_half_even z" if "0 \<le> z" for z using that by (auto simp: round_half_even_def Let_def)
  then have "0 \<le> round_half_even (y / 2 powi (ilog2 y - int p + 1))" using y by simp
  with y show ?thesis by (cases "y = 0") (auto simp: ld_round_def Let_def intro!: mult_nonneg_nonneg)
qed

lemma ld_round_nonpos: "y \<le> 0 \<Longrightarrow> ld_round p y \<le> 0"
  using ld_round_nonneg [of "- y" p] by (auto simp: ld_round_def Let_def sgn_minus)

lemma below_maximum:
  assumes p: "64 \<le> p" and q: "0 < q" "q < timeout_maximum p" "q = ld_round p y"
  shows "q * 1000000000 < 2 ^ 64 - 1 / 2"
proof -
  have y: "0 < y" using q(1,3) ld_round_nonpos [of y p] by (meson leD leI)
  obtain k N where M: "timeout_maximum p = of_int k * 2 powi (35 - int p)"
    "timeout_maximum p \<le> N / 1000000000 + 2 powi (34 - int p)" "N \<le> 2 ^ 64 - 1 / 2"
    by (rule timeout_maximum_bounds [OF p])
  define u where "u = (2::rat) powi (34 - int p)"
  have u: "0 < u" "2 powi (35 - int p) = 2 * u"
    by (simp_all add: u_def power_int_add [of "2::rat" 1 "34 - int p", simplified, symmetric])
  show ?thesis
  proof (cases "34 \<le> ilog2 y")
    case True
    obtain j where "q = of_int j * 2 powi (ilog2 y - int p + 1)"
      by (rule ld_round_pos [OF y, of p]) (use q(3) in blast)
    also have "ilog2 y - int p + 1 = (ilog2 y - 34) + (35 - int p)" by simp
    also have "(2::rat) powi \<dots> = 2 ^ nat (ilog2 y - 34) * 2 powi (35 - int p)"
      using True by (subst power_int_add) (simp_all add: power_int_def [of _ "ilog2 y - 34"])
    finally have j: "q = of_int (j * 2 ^ nat (ilog2 y - 34)) * (2 * u)" using u by simp
    with q(2) M(1) u have "j * 2 ^ nat (ilog2 y - 34) < k"
      by (metis mult_less_cancel_right_pos of_int_less_iff zero_less_mult_iff zero_less_numeral)
    then have "of_int (j * 2 ^ nat (ilog2 y - 34)) \<le> (of_int k - 1 :: rat)"
      by (metis of_int_1 of_int_diff of_int_le_iff zle_diff1_eq)
    then have "q \<le> (of_int k - 1) * (2 * u)" unfolding j using u by (intro mult_right_mono) auto
    then have "q \<le> timeout_maximum p - 2 * u" using M(1) u by (simp add: left_diff_distrib)
    then show ?thesis using M(2) [folded u_def] M(3) u(1) by linarith
  next
    case False
    have "(2::rat) powi (ilog2 y + 1) \<le> 2 powi 34" using False by (intro power_int_increasing) auto
    with ilog2_bounds(2) [OF y] have y34: "y < 2 powi (33 + 1)" by simp
    have "(2::rat) powi (33 - int p) \<le> 2 powi 0" using p by (intro power_int_increasing) auto
    with ld_round_near [OF y y34, of p] have "q \<le> y + 1" using q(3) by (simp add: abs_le_iff)
    with y34 show ?thesis by (simp add: power_int_def)
  qed
qed

text \<open>The conversion of a value in range: defined, and off by less than two nanoseconds.\<close>

lemma timeout_conversion:
  assumes "64 \<le> p" and q: "0 < q" "q < timeout_maximum p" "q = ld_round p y"
  obtains t where "u64_of_ldouble (ld_round p (q * 1000000000)) = Some t"
    "q * 1000000000 - 3 / 2 < of_nat (unat t)" "of_nat (unat t) \<le> q * 1000000000 + 1 / 2"
proof -
  define x where "x = ld_round p (q * 1000000000)"
  have b: "q * 1000000000 < 2 ^ 64 - 1 / 2" by (rule below_maximum [OF assms(1) q])
  have "(2::rat) powi (63 - int p) \<le> 1 / 2"
    using assms power_int_increasing [of "63 - int p" "- 1" "2::rat"] by (simp add: power_int_minus)
  moreover have "\<bar>x - q * 1000000000\<bar> \<le> 2 powi (63 - int p)" unfolding x_def
    by (rule ld_round_near) (use b q in \<open>simp_all add: power_int_def\<close>)
  ultimately have near: "q * 1000000000 - 1 / 2 \<le> x" "x \<le> q * 1000000000 + 1 / 2" by (auto simp: abs_le_iff)
  have x: "0 \<le> x" "x < 2 ^ 64" using q b near by (auto simp: x_def intro!: ld_round_nonneg)
  then have f: "0 \<le> \<lfloor>x\<rfloor>" "\<lfloor>x\<rfloor> < 2 ^ 64" by (auto simp: floor_less_iff)
  then have u: "int (unat (word_of_int \<lfloor>x\<rfloor> :: u64)) = \<lfloor>x\<rfloor>" by (simp add: unat_eq_nat_uint uint_word_of_int)
  have "(of_nat (unat (word_of_int \<lfloor>x\<rfloor> :: u64)) :: rat) = of_int \<lfloor>x\<rfloor>"
    by (metis u of_int_of_nat_eq)
  moreover have "of_int \<lfloor>x\<rfloor> \<le> x" "x < of_int \<lfloor>x\<rfloor> + 1" using floor_correct [of x] by auto
  ultimately have "q * 1000000000 - 3 / 2 < of_nat (unat (word_of_int \<lfloor>x\<rfloor> :: u64))"
    "of_nat (unat (word_of_int \<lfloor>x\<rfloor> :: u64)) \<le> q * 1000000000 + 1 / 2" using near by linarith+
  moreover have "u64_of_ldouble (ld_round p (q * 1000000000)) = Some (word_of_int \<lfloor>x\<rfloor>)"
    using x by (simp add: u64_of_ldouble_def x_def)
  ultimately show thesis by (intro that)
qed

lemma open_timeout_total:
  assumes "64 \<le> p"
  shows "open_timeout p now c \<noteq> None"
proof -
  have "seconds_to_timeout p (Fin q) \<noteq> None" if "q = ld_round p y" for q y
    using timeout_conversion [OF assms _ _ that]
    by (fastforce simp: seconds_to_timeout_def ld_le_def ld_ge_def)
  then have "seconds_to_timeout p (remaining_seconds p now c) \<noteq> None"
    by (simp add: remaining_seconds_def seconds_to_timeout_def [of _ Infinity]
        seconds_to_timeout_def [of _ "Fin (- 1)"] ld_le_def ld_ge_def)
  then show ?thesis by (auto simp: open_timeout_def)
qed

lemma ld_round_minus: "ld_round p (- x) = - ld_round p x"
  by (simp add: ld_round_def Let_def sgn_minus)

lemma ld_round_error:
  assumes "\<bar>x\<bar> < 2 powi (e + 1)"
  shows "\<bar>ld_round p x - x\<bar> \<le> 2 powi (e - int p)"
proof -
  consider "0 < x" | "x = 0" | "0 < - x" by linarith
  then show ?thesis
  proof cases
    case 1
    with assms ld_round_near [of x e p] show ?thesis by simp
  next
    case 2
    then show ?thesis by (simp add: ld_round_def)
  next
    case 3
    with assms ld_round_near [of "- x" e p] show ?thesis by (simp add: ld_round_minus abs_minus_commute)
  qed
qed

text \<open>
  What is left of a deadline of \<open>d\<close> seconds, after the five roundings of \<^verbatim>\<open>set_deadline\<close> and the two
  of \<^verbatim>\<open>Open\<close>: less than ten nanoseconds off the exact value. \<open>2\<^sup>3\<^sup>4\<close> seconds are 544 years; a clock
  that counts nanoseconds in 64 bits spans 292 years on either side of its epoch.
\<close>

lemma remaining_near:
  assumes p: "64 \<le> p"
    and b: "\<bar>d\<bar> < 2 ^ 34" "\<bar>cn\<bar> < 2 ^ 34" "\<bar>sn\<bar> < 2 ^ 34" "\<bar>now\<bar> < 2 ^ 34"
  obtains q y where "remaining_seconds p now (set_deadline p (TP d) cn sn c) = Fin q" "q = ld_round p y"
    "\<bar>q - (sn + (d - cn) - now)\<bar> * 1000000000 \<le> 10"
proof -
  define u where "u = (2::rat) powi (33 - int p)"
  have u: "u \<le> 1 / 2 ^ 31"
    using p power_int_increasing [of "33 - int p" "- 31" "2::rat"] by (simp add: u_def power_int_minus)
  have scale: "(2::rat) powi (33 + int k - int p) = 2 ^ k * u" for k
    using power_int_add [of "2::rat" "int k" "33 - int p"] by (simp add: u_def algebra_simps)
  have small: "\<bar>ld_round p x - x\<bar> \<le> u" if "\<bar>x\<bar> < 2 ^ 34" for x
    using ld_round_error [of x 33 p] that by (simp add: u_def power_int_def)
  have medium: "\<bar>ld_round p x - x\<bar> \<le> 4 * u" if "\<bar>x\<bar> < 2 ^ 36" for x
    using ld_round_error [of x 35 p] that scale [of 2] by (simp add: power_int_def)
  have large: "\<bar>ld_round p x - x\<bar> \<le> 8 * u" if "\<bar>x\<bar> < 2 ^ 37" for x
    using ld_round_error [of x 36 p] that scale [of 3] by (simp add: power_int_def)
  note s = small [OF b(1)] small [OF b(2)] small [OF b(3)] small [OF b(4)]
  define left where "left = ld_round p (ld_round p d - ld_round p cn)"
  have left: "\<bar>left - (ld_round p d - ld_round p cn)\<bar> \<le> 4 * u"
    unfolding left_def by (rule medium) (use s b u in \<open>simp add: abs_le_iff abs_less_iff\<close>)
  define dl where "dl = ld_round p (ld_round p sn + left)"
  have dl: "\<bar>dl - (ld_round p sn + left)\<bar> \<le> 4 * u"
    unfolding dl_def by (rule medium) (use s b u left in \<open>simp add: abs_le_iff abs_less_iff\<close>)
  define q where "q = ld_round p (dl - ld_round p now)"
  have q: "\<bar>q - (dl - ld_round p now)\<bar> \<le> 8 * u"
    unfolding q_def by (rule large) (use s b u left dl in \<open>simp add: abs_le_iff abs_less_iff\<close>)
  have "\<bar>q - (sn + (d - cn) - now)\<bar> \<le> 20 * u"
    using s left dl q by (simp add: abs_le_iff)
  then have "\<bar>q - (sn + (d - cn) - now)\<bar> * 1000000000 \<le> 10" using u by simp
  moreover have "remaining_seconds p now (set_deadline p (TP d) cn sn c) = Fin q"
    by (simp add: remaining_seconds_def set_deadline_def q_def dl_def left_def Let_def)
  ultimately show thesis using that q_def by blast
qed

lemma timeout_of_remaining:
  assumes p: "64 \<le> p" and q: "q = ld_round p y"
  obtains t where "seconds_to_timeout p (Fin q) = Some t"
    "\<bar>of_nat (unat t) - max 0 (min (2 ^ 64 - 1) (q * 1000000000))\<bar> \<le> 2"
proof -
  consider "q \<le> 0" | "0 < q" "timeout_maximum p \<le> q" | "0 < q" "q < timeout_maximum p" by linarith
  then show thesis
  proof cases
    case 1
    then show thesis by (intro that [of 0]) (simp_all add: seconds_to_timeout_def ld_le_def)
  next
    case 2
    then have "2 ^ 64 - 3 \<le> q * 1000000000" using timeout_maximum_lower [OF p] by linarith
    moreover have "(of_nat (unat (- 1 :: u64)) :: rat) = 2 ^ 64 - 1"
      by (simp add: unsigned_minus_1_eq_mask mask_eq_exp_minus_1)
    ultimately show thesis using 2
      by (intro that [of "- 1"]) (simp_all add: seconds_to_timeout_def ld_le_def ld_ge_def)
  next
    case 3
    obtain t where t: "u64_of_ldouble (ld_round p (q * 1000000000)) = Some t"
      "q * 1000000000 - 3 / 2 < of_nat (unat t)" "of_nat (unat t) \<le> q * 1000000000 + 1 / 2"
      by (rule timeout_conversion [OF p 3 q])
    show thesis using 3 t below_maximum [OF p 3 q]
      by (intro that [of t]) (auto simp: seconds_to_timeout_def ld_le_def ld_ge_def)
  qed
qed

lemma clamp_near:
  fixes t :: rat
  assumes "\<bar>t - max 0 (min m a)\<bar> \<le> k" "\<bar>a - b\<bar> \<le> l"
  shows "\<bar>t - max 0 (min m b)\<bar> \<le> k + l"
proof -
  have "\<bar>max 0 (min m a) - max 0 (min m b)\<bar> \<le> \<bar>a - b\<bar>" by linarith
  with assms show ?thesis
    using abs_triangle_ineq [of "t - max 0 (min m a)" "max 0 (min m a) - max 0 (min m b)"] by simp
qed



end
