(* ===== verification/Blocking_Call.thy ===== *)
theory Blocking_Call
  imports Client_Stream Client_Context
begin

section \<open>The blocking call\<close>

text \<open>
  \<^verbatim>\<open>grpc::internal::BlockingCallState\<close> (\<^verbatim>\<open>grpcpp/impl/blocking_call.h\<close>): the state that the
  synchronous client shares between the application thread and the transport's callback
  thread.

  The model follows the locking. A critical section is one atomic step; before each section,
  and while the thread sleeps on the condition variable, the events of a schedule happen (see
  theory Prelude): the transport's callbacks, the section of a concurrent
  \<^verbatim>\<open>ClientContext::TryCancel\<close>, and the call of \<^verbatim>\<open>BlockingCallState::Cancel\<close> that such a
  \<^verbatim>\<open>TryCancel\<close> makes after it released the context's mutex. Schedules are arbitrary, so a
  theorem over all of them holds for every order of these sections. Two pairs of sections are
  one step here: \<^verbatim>\<open>on_headers\<close> stores the headers in the call and then in the context, and
  \<^verbatim>\<open>Cancel\<close> marks the call and then cancels the stream, which it does under
  \<^verbatim>\<open>command_mutex_\<close>. The call is used by one application thread. An operation returns
  \<^const>\<open>None\<close> when it sleeps for the rest of the schedule.
\<close>

subsection \<open>State\<close>

record bcs =
  b_id :: nat
  b_has_context :: bool
  b_compression :: Compression
  b_stream :: "ClientStream option"
  b_channel_owner :: bool
  b_initial_metadata :: "entry list"
  b_trailing_metadata :: "entry list"
  b_message :: string
  b_status :: GrpcStatus
  b_writable_generation :: u64
  b_has_message :: bool
  b_terminal :: bool
  b_cancel_requested :: bool

definition bcs_new :: "nat \<Rightarrow> bool \<Rightarrow> Compression \<Rightarrow> bcs" where
  "bcs_new i has_context c =
     \<lparr>b_id = i, b_has_context = has_context, b_compression = c, b_stream = None,
      b_channel_owner = False, b_initial_metadata = [], b_trailing_metadata = [], b_message = [],
      b_status = grpc_ok, b_writable_generation = 0, b_has_message = False, b_terminal = False,
      b_cancel_requested = False\<rparr>"

text \<open>
  The call together with its context, the transport and the heap. \<open>c_alive\<close> tells which calls
  still exist, \<open>c_pending_cancels\<close> counts the threads inside \<^verbatim>\<open>TryCancel\<close> that hold a
  reference to this call and have not called its \<^verbatim>\<open>Cancel\<close> yet.
\<close>

record cstate =
  c_ctx :: ClientContext
  c_call :: bcs
  c_tr :: transport
  c_heap :: heap
  c_alive :: "nat \<Rightarrow> bool"
  c_pending_cancels :: nat

datatype event =
    E_headers "entry list"
  | E_message string Compression
  | E_remote_end
  | E_writable
  | E_terminal int string "entry list"
  | E_try_cancel
  | E_cancel

type_synonym schedule = "event list list"

subsection \<open>Critical sections\<close>

definition set_terminal :: "GrpcStatus \<Rightarrow> entry list \<Rightarrow> cstate \<Rightarrow> cstate \<times> bool" where
  "set_terminal st trailing s =
     (if b_terminal (c_call s) then (s, False)
      else (s\<lparr>c_call := (c_call s)\<lparr>b_status := st, b_trailing_metadata := trailing, b_terminal := True\<rparr>\<rparr>,
            True))"

text \<open>\<^verbatim>\<open>Cancel\<close> runs under \<^verbatim>\<open>command_mutex_\<close> from its first to its last line.\<close>

definition bc_Cancel :: "cstate \<Rightarrow> cstate" where
  "bc_Cancel s =
     (if b_terminal (c_call s) then s
      else let s1 = s\<lparr>c_call := (c_call s)\<lparr>b_cancel_requested := True\<rparr>\<rparr> in
           case b_stream (c_call s) of
             None \<Rightarrow> s1
           | Some stream \<Rightarrow> s1\<lparr>c_tr := ClientStream_Cancel stream (c_tr s)\<rparr>)"

text \<open>The four callbacks \<^verbatim>\<open>Open\<close> installs.\<close>

definition bc_on_headers :: "entry list \<Rightarrow> cstate \<Rightarrow> cstate \<times> bool" where
  "bc_on_headers entries s =
     (s\<lparr>c_call := (c_call s)\<lparr>b_initial_metadata := entries\<rparr>,
        c_ctx := SetInitialMetadata (mm_of_entries entries) (c_ctx s)\<rparr>, False)"

definition bc_on_message :: "string \<Rightarrow> Compression \<Rightarrow> cstate \<Rightarrow> ReceiveAction \<times> cstate \<times> bool" where
  "bc_on_message payload c s =
     (Pause, s\<lparr>c_call := (c_call s)\<lparr>b_message := payload, b_has_message := True\<rparr>\<rparr>, True)"

definition bc_on_writable :: "cstate \<Rightarrow> cstate \<times> bool" where
  "bc_on_writable s =
     (s\<lparr>c_call := (c_call s)\<lparr>b_writable_generation := b_writable_generation (c_call s) + 1\<rparr>\<rparr>, True)"

definition bc_on_terminal :: "Status \<Rightarrow> entry list \<Rightarrow> cstate \<Rightarrow> cstate \<times> bool" where
  "bc_on_terminal st trailers s = set_terminal (NativeStatus st) trailers s"

definition bc_callbacks :: "cstate ClientStreamCallbacks" where
  "bc_callbacks =
     \<lparr>on_headers = Some bc_on_headers, on_message = Some bc_on_message, on_remote_end = None,
      on_writable = Some bc_on_writable, on_terminal = Some bc_on_terminal\<rparr>"

text \<open>
  One event. A callback runs only while the transport allows it; \<^verbatim>\<open>on_message\<close> is not
  called again before a pause it returned was resumed.
\<close>

fun bc_handle :: "event \<Rightarrow> cstate \<Rightarrow> cstate \<times> bool" where
  "bc_handle (E_headers es) s =
     (if callbacksEnabled (c_tr s)
      then case OnHeaders bc_callbacks (Some es) s of None \<Rightarrow> (s, False) | Some r \<Rightarrow> r
      else (s, False))"
| "bc_handle (E_message payload c) s =
     (if callbacksEnabled (c_tr s) \<and> \<not> t_paused (c_tr s)
      then case OnMessage bc_callbacks (zig_view payload) c s of
             None \<Rightarrow> (s, False)
           | Some (action, s', n) \<Rightarrow>
               (s'\<lparr>c_tr := (c_tr s')\<lparr>t_paused := (action = Pause),
                                   t_delivered := t_delivered (c_tr s') @ [payload]\<rparr>\<rparr>, n)
      else (s, False))"
| "bc_handle E_remote_end s =
     (if callbacksEnabled (c_tr s) then OnRemoteEnd bc_callbacks s else (s, False))"
| "bc_handle E_writable s =
     (if callbacksEnabled (c_tr s) then OnWritable bc_callbacks s else (s, False))"
| "bc_handle (E_terminal code msg trailers) s =
     (if terminalEnabled (c_tr s)
      then let s1 = s\<lparr>c_tr := (c_tr s)\<lparr>t_terminal := True\<rparr>\<rparr> in
           case OnTerminal bc_callbacks code (zig_view msg) (Some trailers) s1 of
             None \<Rightarrow> (s1, False) | Some r \<Rightarrow> r
      else (s, False))"
| "bc_handle E_try_cancel s =
     (let (ctx, target) = TryCancel (c_alive s) (c_ctx s) in
      (s\<lparr>c_ctx := ctx,
         c_pending_cancels := c_pending_cancels s + (if target = Some (b_id (c_call s)) then 1 else 0)\<rparr>,
       False))"
| "bc_handle E_cancel s =
     (if c_pending_cancels s = 0 then (s, False)
      else (bc_Cancel (s\<lparr>c_pending_cancels := c_pending_cancels s - 1\<rparr>), False))"

abbreviation bc_preempt :: "cstate \<Rightarrow> schedule \<Rightarrow> cstate \<times> schedule" where
  "bc_preempt \<equiv> preempt bc_handle"

text \<open>Lock \<^verbatim>\<open>mutex_\<close> and wait on \<^verbatim>\<open>changed_\<close>.\<close>

definition bc_wait :: "(cstate \<Rightarrow> bool) \<Rightarrow> cstate \<Rightarrow> schedule \<Rightarrow> (cstate \<times> schedule) option" where
  "bc_wait p s bs = (let (s1, bs1) = bc_preempt s bs in cv_wait bc_handle p s1 bs1)"

definition bc_SetTerminal :: "GrpcStatus \<Rightarrow> entry list \<Rightarrow> cstate \<Rightarrow> schedule \<Rightarrow> cstate \<times> schedule" where
  "bc_SetTerminal st trailing s bs =
     (let (s1, bs1) = bc_preempt s bs in (fst (set_terminal st trailing s1), bs1))"

text \<open>The three wait predicates of the class.\<close>

definition is_terminal :: "cstate \<Rightarrow> bool" where
  "is_terminal s \<longleftrightarrow> b_terminal (c_call s)"

definition readable :: "cstate \<Rightarrow> bool" where
  "readable s \<longleftrightarrow> b_has_message (c_call s) \<or> b_terminal (c_call s)"

definition writable_since :: "u64 \<Rightarrow> cstate \<Rightarrow> bool" where
  "writable_since generation s \<longleftrightarrow>
     b_terminal (c_call s) \<or> b_writable_generation (c_call s) \<noteq> generation"

text \<open>A command under \<^verbatim>\<open>command_mutex_\<close>; without a stream the answer is Closed.\<close>

type_synonym command = "ClientStream \<Rightarrow> transport \<Rightarrow> ErrorCode \<times> transport"

definition issue_command :: "command \<Rightarrow> cstate \<Rightarrow> ErrorCode \<times> cstate" where
  "issue_command command s =
     (case b_stream (c_call s) of
        None \<Rightarrow> (EC_Closed, s)
      | Some stream \<Rightarrow> let (e, t) = command stream (c_tr s) in (e, s\<lparr>c_tr := t\<rparr>))"

text \<open>\<^verbatim>\<open>RunCommand\<close>: the retry loop.\<close>

definition command_status :: "ErrorCode \<Rightarrow> GrpcStatus" where
  "command_status error =
     (if error = EC_OutOfRange then grpc_status RESOURCE_EXHAUSTED (Error_message error)
      else ErrorStatus error)"

partial_function (option) RunCommand ::
  "command \<Rightarrow> cstate \<Rightarrow> schedule \<Rightarrow> (GrpcStatus \<times> cstate \<times> schedule) option" where
  "RunCommand command s0 bs0 =
     (case bc_preempt s0 bs0 of (s1, bs1) \<Rightarrow>
      if b_terminal (c_call s1) then Some (b_status (c_call s1), s1, bs1)
      else case bc_preempt s1 bs1 of (s2, bs2) \<Rightarrow> case issue_command command s2 of (error, s3) \<Rightarrow>
        if Error_ok error then Some (grpc_ok, s3, bs2)
        else if error = EC_Closed then
          do { (s4, bs4) \<leftarrow> bc_wait is_terminal s3 bs2; Some (b_status (c_call s4), s4, bs4) }
        else if error \<noteq> EC_WouldBlock then
          let status = command_status error;
              failed = grpc_status (g_code status) (''stream command failed: '' @ g_message status)
          in Some (status, bc_SetTerminal failed [] s3 bs2)
        else
          do { (s4, bs4) \<leftarrow> bc_wait (writable_since (b_writable_generation (c_call s1))) s3 bs2;
               if b_terminal (c_call s4) then Some (b_status (c_call s4), s4, bs4)
               else RunCommand command s4 bs4 })"

declare RunCommand.simps [code]

definition bc_Send :: "string \<Rightarrow> cstate \<Rightarrow> schedule \<Rightarrow> (GrpcStatus \<times> cstate \<times> schedule) option" where
  "bc_Send payload s bs =
     RunCommand (\<lambda>stream. ClientStream_Send stream payload (b_compression (c_call s))) s bs"

definition bc_CloseSend :: "cstate \<Rightarrow> schedule \<Rightarrow> (GrpcStatus \<times> cstate \<times> schedule) option" where
  "bc_CloseSend s bs = RunCommand ClientStream_CloseSend s bs"

definition bc_SendAndClose :: "string \<Rightarrow> cstate \<Rightarrow> schedule \<Rightarrow> (GrpcStatus \<times> cstate \<times> schedule) option" where
  "bc_SendAndClose payload s bs =
     do { (status, s1, bs1) \<leftarrow> bc_Send payload s bs;
          if \<not> g_is_ok status then Some (status, s1, bs1) else bc_CloseSend s1 bs1 }"

text \<open>\<^verbatim>\<open>Read\<close>: wait for a message or the end, take the message, resume reception.\<close>

definition take_message :: "cstate \<Rightarrow> cstate" where
  "take_message s = s\<lparr>c_call := (c_call s)\<lparr>b_has_message := False\<rparr>\<rparr>"

definition benign_resume_error :: "ErrorCode \<Rightarrow> bool" where
  "benign_resume_error e \<longleftrightarrow>
     Error_ok e \<or> e = EC_Closed \<or> e = EC_Unavailable \<or> e = EC_WouldBlock"

definition bc_resume :: "cstate \<Rightarrow> schedule \<Rightarrow> cstate \<times> schedule" where
  "bc_resume s bs =
     (let (s1, bs1) = bc_preempt s bs in
      if b_stream (c_call s1) = None then (s1, bs1)
      else let (error, s2) = issue_command ClientStream_ResumeReceive s1 in
           if benign_resume_error error then (s2, bs1)
           else bc_SetTerminal (ErrorStatus error) [] s2 bs1)"

definition bc_Read ::
  "string option \<Rightarrow> cstate \<Rightarrow> schedule \<Rightarrow> ((bool \<times> string option) \<times> cstate \<times> schedule) option" where
  "bc_Read output s bs =
     (if output = None then Some ((False, output), s, bs)
      else do { (s1, bs1) \<leftarrow> bc_wait readable s bs;
                if \<not> b_has_message (c_call s1) then Some ((False, output), s1, bs1)
                else let (s2, bs2) = bc_resume (take_message s1) bs1 in
                     Some ((True, Some (b_message (c_call s1))), s2, bs2) })"

text \<open>\<^verbatim>\<open>Finish\<close> and \<^verbatim>\<open>DestroyStream\<close>.\<close>

definition complete_call :: "entry list \<Rightarrow> entry list \<Rightarrow> cstate \<Rightarrow> cstate" where
  "complete_call initial trailing s =
     (if b_has_context (c_call s)
      then s\<lparr>c_ctx := CompleteCall (c_alive s) (b_id (c_call s)) initial trailing (c_ctx s)\<rparr>
      else s)"

definition detach_stream :: "cstate \<Rightarrow> cstate" where
  "detach_stream s = s\<lparr>c_call := (c_call s)\<lparr>b_stream := None\<rparr>\<rparr>"

definition release_stream :: "ClientStream option \<Rightarrow> cstate \<Rightarrow> cstate" where
  "release_stream stream s =
     s\<lparr>c_tr := (case stream of None \<Rightarrow> c_tr s | Some st \<Rightarrow> snd (ClientStream_Reset st (c_tr s))),
       c_call := (c_call s)\<lparr>b_channel_owner := False\<rparr>\<rparr>"

definition bc_DestroyStream :: "cstate \<Rightarrow> schedule \<Rightarrow> cstate \<times> schedule" where
  "bc_DestroyStream s bs =
     (let (s1, bs1) = bc_preempt s bs;
          stream = b_stream (c_call s1);
          (s2, bs2) = bc_preempt (detach_stream s1) bs1
      in (release_stream stream s2, bs2))"

definition bc_Finish :: "cstate \<Rightarrow> schedule \<Rightarrow> (GrpcStatus \<times> cstate \<times> schedule) option" where
  "bc_Finish s bs =
     do { (s1, bs1) \<leftarrow> bc_wait is_terminal s bs;
          let status = b_status (c_call s1);
              initial = mm_of_entries (b_initial_metadata (c_call s1));
              trailing = mm_of_entries (b_trailing_metadata (c_call s1));
              (s2, bs2) = bc_preempt s1 bs1
          in Some (status, bc_DestroyStream (complete_call initial trailing s2) bs2) }"

subsection \<open>Opening a call\<close>

definition bc_Failed :: "nat \<Rightarrow> bool \<Rightarrow> GrpcStatus \<Rightarrow> cstate \<Rightarrow> cstate" where
  "bc_Failed i has_context st s = fst (set_terminal st [] (s\<lparr>c_call := bcs_new i has_context Identity\<rparr>))"

text \<open>
  \<^verbatim>\<open>Open\<close>, in the order of the code: register with the context, copy its metadata, compute
  the timeout, open the stream. \<open>p\<close> is the precision of \<^verbatim>\<open>long double\<close>, \<open>now\<close> the reading of
  the clock, \<open>i\<close> the number of the new call. \<^const>\<open>None\<close> would be a conversion of the
  timeout with an undefined result.
\<close>

definition register_call :: "nat \<Rightarrow> cstate \<Rightarrow> bool \<times> cstate" where
  "register_call i s =
     (let (ok, ctx) = RegisterCancellation i (c_ctx s) in (ok, s\<lparr>c_ctx := ctx\<rparr>))"

definition open_options :: "md_handle \<Rightarrow> Compression \<Rightarrow> bool \<times> u64 \<Rightarrow> ClientStreamOptions" where
  "open_options metadata compression timeout =
     ClientStreamOptions_default
       \<lparr>o_metadata := Some metadata, o_send_compression := compression,
        o_has_timeout := fst timeout, o_timeout_ns := snd timeout\<rparr>"

text \<open>The local \<^verbatim>\<open>Metadata\<close> object is destroyed at every return behind its declaration.\<close>

definition open_exit :: "md_handle \<Rightarrow> cstate \<times> schedule \<Rightarrow> cstate \<times> schedule" where
  "open_exit metadata r =
     (case r of (s, bs) \<Rightarrow> (s\<lparr>c_heap := grpc_lite_metadata_destroy metadata (c_heap s)\<rparr>, bs))"

definition open_stream :: "string \<Rightarrow> ClientStreamOptions \<Rightarrow> cstate \<Rightarrow> ErrorCode \<times> cstate" where
  "open_stream method options s =
     (let (error, out, t) = ClientStream_Open method options (Some None) (c_tr s);
          s1 = s\<lparr>c_tr := t\<rparr> in
      if \<not> Error_ok error then (error, s1)
      else let s2 = s1\<lparr>c_call := (c_call s)\<lparr>b_stream := out\<rparr>\<rparr> in
           (error, if b_cancel_requested (c_call s)
                   then s2\<lparr>c_tr := (case out of None \<Rightarrow> t | Some st \<Rightarrow> ClientStream_Cancel st t)\<rparr>
                   else s2))"

definition bc_Open ::
  "nat \<Rightarrow> rat \<Rightarrow> nat \<Rightarrow> string \<Rightarrow> Compression \<Rightarrow> bool \<Rightarrow> cstate \<Rightarrow> schedule \<Rightarrow> (cstate \<times> schedule) option" where
  "bc_Open p now i method compression channel_owner s bs =
     (let s0 = s\<lparr>c_call := (bcs_new i True compression)\<lparr>b_channel_owner := channel_owner\<rparr>,
                 c_pending_cancels := 0\<rparr>;
          (s1, bs1) = bc_preempt s0 bs;
          (registered, s2) = register_call i s1 in
      if \<not> registered
      then Some (bc_SetTerminal (grpc_status CANCELLED ''call cancelled before start'') [] s2 bs1)
      else
        let (error, metadata, h1) = CopyMetadata (cc_metadata (c_ctx s2)) None (c_heap s2);
            s3 = s2\<lparr>c_heap := h1\<rparr> in
        if \<not> Error_ok error then Some (open_exit metadata (bc_SetTerminal (ErrorStatus error) [] s3 bs1))
        else do {
          timeout \<leftarrow> open_timeout p now (c_ctx s3);
          let (s4, bs4) = bc_preempt s3 bs1;
              (error, s5) = open_stream method (open_options metadata compression timeout) s4
          in if \<not> Error_ok error
             then Some (open_exit metadata (bc_SetTerminal (ErrorStatus error) [] s5 bs4))
             else Some (open_exit metadata (s5, bs4)) })"

subsection \<open>Lemmas on the sections\<close>

lemma bc_handle_simps [simp]:
  "bc_handle (E_headers es) s =
     (if callbacksEnabled (c_tr s) then bc_on_headers es s else (s, False))"
  "bc_handle (E_message payload c) s =
     (if callbacksEnabled (c_tr s) \<and> \<not> t_paused (c_tr s)
      then (s\<lparr>c_call := (c_call s)\<lparr>b_message := payload, b_has_message := True\<rparr>,
              c_tr := (c_tr s)\<lparr>t_paused := True, t_delivered := t_delivered (c_tr s) @ [payload]\<rparr>\<rparr>, True)
      else (s, False))"
  "bc_handle E_remote_end s = (s, False)"
  "bc_handle E_writable s = (if callbacksEnabled (c_tr s) then bc_on_writable s else (s, False))"
  "bc_handle (E_terminal code msg trailers) s =
     (if terminalEnabled (c_tr s)
      then bc_on_terminal \<lparr>s_code = StatusCode_cast code, s_message = msg\<rparr> trailers
             (s\<lparr>c_tr := (c_tr s)\<lparr>t_terminal := True\<rparr>\<rparr>)
      else (s, False))"
  by (simp_all add: OnHeaders_def OnMessage_def OnRemoteEnd_def OnWritable_def OnTerminal_def
      bc_callbacks_def bc_on_message_def md_items_def)

declare bc_handle.simps(1-5) [simp del]

lemmas call_section_defs =
  bc_on_headers_def bc_on_writable_def bc_on_terminal_def set_terminal_def bc_Cancel_def
  TryCancel_def SetInitialMetadata_def client_stream_defs callbacksEnabled_def terminalEnabled_def

text \<open>The commands the class sends through \<^const>\<open>RunCommand\<close>.\<close>

inductive stream_command :: "command \<Rightarrow> bool" where
  send: "stream_command (\<lambda>stream. ClientStream_Send stream payload c)"
| close_send: "stream_command ClientStream_CloseSend"

lemma preempt_schedule: "snd (preempt h s bs) = tl bs"
  by (cases bs) simp_all

lemma issue_command_call [simp]: "c_call (snd (issue_command k s)) = c_call s"
  by (simp add: issue_command_def split: option.splits prod.splits)

lemma bc_wait_length: "bc_wait p s bs = Some (s', bs') \<Longrightarrow> length bs' \<le> length bs"
  by (cases bs) (auto simp: bc_wait_def dest: cv_wait_length)

lemma bc_wait_holds: "bc_wait p s bs = Some (s', bs') \<Longrightarrow> p s'"
  by (auto simp: bc_wait_def split_beta dest: cv_wait_holds)

text \<open>
  Each turn of the loop uses up a batch: without one, nobody can have announced a writable
  stream. So the loop ends on every schedule.
\<close>

lemma RunCommand_step:
  assumes "RunCommand k s bs = Some (st, s', bs')"
  obtains (ended) "bc_preempt s bs = (s', bs')" "b_terminal (c_call s')" "st = b_status (c_call s')"
  | (accepted) s1 bs1 s2 e where "bc_preempt s bs = (s1, bs1)" "\<not> b_terminal (c_call s1)"
      "bc_preempt s1 bs1 = (s2, bs')" "issue_command k s2 = (e, s')" "Error_ok e" "st = grpc_ok"
  | (closed) s1 bs1 s2 bs2 s3 where "bc_preempt s bs = (s1, bs1)" "\<not> b_terminal (c_call s1)"
      "bc_preempt s1 bs1 = (s2, bs2)" "issue_command k s2 = (EC_Closed, s3)"
      "bc_wait is_terminal s3 bs2 = Some (s', bs')" "st = b_status (c_call s')"
  | (failed) s1 bs1 s2 bs2 s3 e where "bc_preempt s bs = (s1, bs1)" "\<not> b_terminal (c_call s1)"
      "bc_preempt s1 bs1 = (s2, bs2)" "issue_command k s2 = (e, s3)"
      "\<not> Error_ok e" "e \<noteq> EC_Closed" "e \<noteq> EC_WouldBlock" "st = command_status e"
      "bc_SetTerminal (grpc_status (g_code st) (''stream command failed: '' @ g_message st)) [] s3 bs2
         = (s', bs')"
  | (woken) s1 bs1 s2 bs2 s3 where "bc_preempt s bs = (s1, bs1)" "\<not> b_terminal (c_call s1)"
      "bc_preempt s1 bs1 = (s2, bs2)" "issue_command k s2 = (EC_WouldBlock, s3)"
      "bc_wait (writable_since (b_writable_generation (c_call s1))) s3 bs2 = Some (s', bs')"
      "b_terminal (c_call s')" "st = b_status (c_call s')"
  | (retry) s1 bs1 s2 bs2 s3 s4 bs4 where "bc_preempt s bs = (s1, bs1)" "\<not> b_terminal (c_call s1)"
      "bc_preempt s1 bs1 = (s2, bs2)" "issue_command k s2 = (EC_WouldBlock, s3)"
      "bc_wait (writable_since (b_writable_generation (c_call s1))) s3 bs2 = Some (s4, bs4)"
      "RunCommand k s4 bs4 = Some (st, s', bs')" "length bs4 < length bs"
proof -
  obtain s1 bs1 where 1: "bc_preempt s bs = (s1, bs1)" by fastforce
  obtain s2 bs2 where 2: "bc_preempt s1 bs1 = (s2, bs2)" by fastforce
  obtain e s3 where 3: "issue_command k s2 = (e, s3)" by fastforce
  note run = assms [unfolded RunCommand.simps [of k s bs] 1 prod.case 2 3]
  have len: "length bs4 < length bs"
    if "bc_wait (writable_since (b_writable_generation (c_call s1))) s3 bs2 = Some (s4, bs4)"
      "\<not> b_terminal (c_call s1)" for s4 bs4
  proof (cases bs)
    case Nil
    with 1 2 3 issue_command_call [of k s2] have "c_call s3 = c_call s1" "bs2 = []" by auto
    with that show ?thesis
      by (auto simp: bc_wait_def cv_wait_def writable_since_def split: if_splits)
  next
    case (Cons b bs')
    with 1 2 have "length bs2 < length bs" by (cases bs1) auto
    with bc_wait_length [OF that(1)] show ?thesis by simp
  qed
  show thesis
    using run 1 2 3 len
    by (auto simp: bind_eq_Some_conv Let_def split: if_splits
        intro: ended accepted closed failed woken retry)
qed

text \<open>
  An invariant of the call is kept by every event and every section of the application
  thread, so by every operation. \<^verbatim>\<open>ResumeReceive\<close> is only issued while no message waits; that
  nothing refills the slot meanwhile is the law \<open>slot\<close>.
\<close>

definition slot_ok :: "cstate \<Rightarrow> bool" where
  "slot_ok s \<longleftrightarrow> (b_has_message (c_call s) \<longrightarrow> t_paused (c_tr s))"

definition slot_empty :: "cstate \<Rightarrow> bool" where
  "slot_empty s \<longleftrightarrow> \<not> b_has_message (c_call s) \<and> t_paused (c_tr s)"

lemma slot_empty_handle: "slot_empty s \<Longrightarrow> slot_empty (fst (bc_handle e s))"
  by (cases e) (auto simp: slot_empty_def call_section_defs Let_def split: option.splits)

lemma slot_empty_take: "slot_ok s \<Longrightarrow> b_has_message (c_call s) \<Longrightarrow> slot_empty (take_message s)"
  by (simp add: slot_ok_def slot_empty_def take_message_def)

lemma is_terminal_handle: "is_terminal s \<Longrightarrow> is_terminal (fst (bc_handle e s))"
  by (cases e) (auto simp: is_terminal_def call_section_defs Let_def split: option.splits)

lemma is_terminal_complete [simp]: "is_terminal (complete_call initial trailing s) = is_terminal s"
  by (simp add: is_terminal_def complete_call_def)

lemma Finish_steps:
  assumes "bc_Finish s bs = Some (st, s', bs')"
  obtains s1 bs1 where "bc_wait is_terminal s bs = Some (s1, bs1)" "st = b_status (c_call s1)"
    "s' = fst (bc_DestroyStream
       (complete_call (mm_of_entries (b_initial_metadata (c_call s1)))
         (mm_of_entries (b_trailing_metadata (c_call s1))) (fst (bc_preempt s1 bs1)))
       (snd (bc_preempt s1 bs1)))"
  using assms by (auto simp: bc_Finish_def split_beta Let_def bind_eq_Some_conv)

lemma command_status_not_ok: "\<not> Error_ok e \<Longrightarrow> \<not> g_is_ok (command_status e)"
  by (simp add: command_status_def)

locale call_invariant =
  fixes I :: "cstate \<Rightarrow> bool"
  assumes slot: "I s \<Longrightarrow> slot_ok s"
    and handle: "I s \<Longrightarrow> I (fst (bc_handle e s))"
    and terminal: "I s \<Longrightarrow> \<not> g_is_ok st \<Longrightarrow> I (fst (set_terminal st md s))"
    and command: "I s \<Longrightarrow> stream_command k \<Longrightarrow> I (snd (issue_command k s))"
    and resume: "I s \<Longrightarrow> slot_empty s \<Longrightarrow> I (snd (issue_command ClientStream_ResumeReceive s))"
    and complete: "I s \<Longrightarrow> I (complete_call initial trailing s)"
    and destroy: "I s \<Longrightarrow> is_terminal s \<Longrightarrow> I (fst (bc_DestroyStream s bs))"
    and cancel: "I s \<Longrightarrow> I (bc_Cancel s)"
begin

lemma preempted: "I s \<Longrightarrow> I (fst (bc_preempt s bs))"
  by (rule preempt_inv) (auto intro: handle)

lemma waited: "bc_wait p s bs = Some (s', bs') \<Longrightarrow> I s \<Longrightarrow> I s'"
  by (auto simp: bc_wait_def split_beta intro: cv_wait_inv [where I = I, OF handle preempted])

lemma SetTerminal: "I s \<Longrightarrow> \<not> g_is_ok st \<Longrightarrow> I (fst (bc_SetTerminal st md s bs))"
  by (simp add: bc_SetTerminal_def split_beta preempted terminal)

lemma RunCommand:
  assumes k: "stream_command k"
  shows "RunCommand k s bs = Some (st, s', bs') \<Longrightarrow> I s \<Longrightarrow> I s'"
proof (induction "length bs" arbitrary: s bs rule: less_induct)
  case less
  have step: "I s2" "I s3" if "bc_preempt s bs = (s1, bs1)" "bc_preempt s1 bs1 = (s2, bs2)"
    "issue_command k s2 = (e, s3)" for s1 bs1 s2 bs2 e s3
    using preempted [OF less.prems(2), of bs] preempted [of s1 bs1] command [OF _ k, of s2] that
    by auto
  from less.prems(1) show ?case
  proof (cases rule: RunCommand_step)
    case ended
    with preempted [OF less.prems(2), of bs] show ?thesis by simp
  next
    case (failed s1 bs1 s2 bs2 s3 e)
    have "\<not> g_is_ok (grpc_status (g_code st) (''stream command failed: '' @ g_message st))"
      using failed(5,8) command_status_not_ok [of e] by (simp add: g_is_ok_def [of "command_status e"])
    from SetTerminal [OF step(2) [OF failed(1,3,4)] this, of "[]" bs2] failed(9) show ?thesis by simp
  next
    case (retry s1 bs1 s2 bs2 s3 s4 bs4)
    from waited [OF retry(5) step(2) [OF retry(1,3,4)]] less.hyps [OF retry(7,6)] show ?thesis by simp
  qed (use step waited in blast)+
qed

lemma resumed:
  assumes "I s" "slot_empty s"
  shows "I (fst (bc_resume s bs))"
proof -
  have "I (fst (bc_preempt s bs))" using assms(1) by (rule preempted)
  moreover have "slot_empty (fst (bc_preempt s bs))"
    by (rule preempt_inv) (use assms(2) slot_empty_handle in auto)
  ultimately show ?thesis
    using resume by (auto simp: bc_resume_def Let_def split_beta SetTerminal benign_resume_error_def)
qed

lemma Finish:
  assumes "bc_Finish s bs = Some (st, s', bs')" and "I s"
  shows "I s'"
  using assms(1)
proof (rule Finish_steps)
  fix s1 bs1
  assume w: "bc_wait is_terminal s bs = Some (s1, bs1)"
    and s': "s' = fst (bc_DestroyStream
       (complete_call (mm_of_entries (b_initial_metadata (c_call s1)))
         (mm_of_entries (b_trailing_metadata (c_call s1))) (fst (bc_preempt s1 bs1)))
       (snd (bc_preempt s1 bs1)))"
  have "is_terminal (fst (bc_preempt s1 bs1))"
    by (rule preempt_inv) (use bc_wait_holds [OF w] is_terminal_handle in auto)
  with waited [OF w assms(2)] show ?thesis unfolding s' by (simp add: destroy complete preempted)
qed

end

text \<open>An invariant that says nothing about which messages were taken is kept by \<^verbatim>\<open>Read\<close>.\<close>

locale reading_invariant = call_invariant +
  assumes "take": "I s \<Longrightarrow> b_has_message (c_call s) \<Longrightarrow> I (take_message s)"
begin

lemma Read:
  assumes "bc_Read out s bs = Some (x, s', bs')" and "I s"
  shows "I s'"
  using assms resumed [of "take_message _"]
  by (auto simp: bc_Read_def split_beta Let_def bind_eq_Some_conv slot_empty_take slot "take"
      split: if_splits dest!: waited) (metis fst_conv slot_empty_take slot "take" resumed)

end

text \<open>What holds before the stream is opened, and an invariant that opening establishes.\<close>

definition idle :: "transport \<Rightarrow> bool" where
  "idle t \<longleftrightarrow> t_log t = [] \<and> t_opened t = 0 \<and> t_live t = None \<and> \<not> t_cancel_requested t \<and>
     \<not> t_paused t \<and> \<not> t_terminal t \<and> t_delivered t = []"

lemma idle_init: "idle (transport_init r)"
  by (simp add: idle_def transport_init_def)

definition unopened :: "cstate \<Rightarrow> bool" where
  "unopened s \<longleftrightarrow> b_stream (c_call s) = None \<and> \<not> b_has_message (c_call s) \<and> idle (c_tr s)"

lemma unopened_handle: "unopened s \<Longrightarrow> unopened (fst (bc_handle e s))"
  by (cases e)
    (auto simp: unopened_def idle_def call_section_defs Let_def split: option.splits)

lemma unopened_preempt: "unopened s \<Longrightarrow> unopened (fst (bc_preempt s bs))"
  by (rule preempt_inv) (auto intro: unopened_handle)

locale opening_invariant = call_invariant +
  assumes fresh: "unopened s \<Longrightarrow> \<not> b_cancel_requested (c_call s) \<Longrightarrow> \<not> b_terminal (c_call s) \<Longrightarrow> I s"
    and heap: "I s \<Longrightarrow> I (s\<lparr>c_heap := h\<rparr>)"
    and register: "I s \<Longrightarrow> I (snd (register_call i s))"
    and opens: "I s \<Longrightarrow> unopened s \<Longrightarrow> I (snd (open_stream method options s))"
begin

lemma Open_exit: "I (fst r) \<Longrightarrow> I (fst (open_exit m r))"
  by (cases r) (simp add: open_exit_def heap)

end

locale run_invariant = reading_invariant + opening_invariant

end
