(* ===== verification/Call_Invariants.thy ===== *)
theory Call_Invariants
  imports Blocking_Call
begin

section \<open>Invariants of the blocking call\<close>

text \<open>
  What every event and every operation of a blocking call keeps: interpretations of the
  locales of theory Blocking\_Call for the message slot, the outcome, the ownership of the
  stream, cancellation, message order and progress; the monitors of the class; the log of the
  retry loop; and the runs of a call with the invariants they inherit.
\<close>

subsection \<open>The effect of each section\<close>

lemma section_frames [simp]:
  "c_call (snd (register_call i s)) = c_call s" "c_tr (snd (register_call i s)) = c_tr s"
  "c_call (complete_call initial trailing s) = c_call s" "c_tr (complete_call initial trailing s) = c_tr s"
  "c_tr (take_message s) = c_tr s" "c_tr (fst (set_terminal st md s)) = c_tr s"
  "c_call (take_message s) = (c_call s)\<lparr>b_has_message := False\<rparr>"
  "c_call (detach_stream s) = (c_call s)\<lparr>b_stream := None\<rparr>" "c_tr (detach_stream s) = c_tr s"
  "c_call (release_stream stream s) = (c_call s)\<lparr>b_channel_owner := False\<rparr>"
  by (simp_all add: register_call_def complete_call_def take_message_def detach_stream_def
      release_stream_def set_terminal_def split_beta Let_def)

fun cmd_handle :: "stream_cmd \<Rightarrow> nat option" where
  "cmd_handle (K_open path opts) = None"
| "cmd_handle (K_send h payload c) = Some h"
| "cmd_handle (K_close_send h) = Some h"
| "cmd_handle (K_cancel h) = Some h"
| "cmd_handle (K_resume h) = Some h"
| "cmd_handle (K_destroy h) = Some h"

fun is_destroy :: "stream_cmd \<Rightarrow> bool" where
  "is_destroy (K_destroy h) = True"
| "is_destroy _ = False"

lemma is_destroy_iff: "is_destroy k \<longleftrightarrow> (\<exists>h. k = K_destroy h)"
  by (cases k) auto

lemma command_effect:
  assumes "stream_command k"
  shows "c_tr (snd (issue_command k s)) = c_tr s \<or>
    (\<exists>h cmd e. b_stream (c_call s) = Some (Some h) \<and> cmd_handle cmd = Some h \<and> \<not> is_destroy cmd \<and>
       c_tr (snd (issue_command k s)) = record_cmd cmd e (c_tr s))"
  using assms by cases (force simp: issue_command_def client_stream_defs Let_def split: option.splits)+

lemma resume_effect:
  "c_tr (snd (issue_command ClientStream_ResumeReceive s)) = c_tr s \<or>
   (\<exists>h e. b_stream (c_call s) = Some (Some h) \<and> c_tr (snd (issue_command ClientStream_ResumeReceive s)) =
      (let t = record_cmd (K_resume h) e (c_tr s) in if Error_ok e then t\<lparr>t_paused := False\<rparr> else t))"
  by (cases "b_stream (c_call s)"; cases "the (b_stream (c_call s))")
    (auto simp: issue_command_def client_stream_defs Let_def)

lemma set_terminal_call:
  "c_call (fst (set_terminal st md s)) =
     (if b_terminal (c_call s) then c_call s
      else (c_call s)\<lparr>b_status := st, b_trailing_metadata := md, b_terminal := True\<rparr>)"
  by (simp add: set_terminal_def)

lemma open_effect:
  assumes "unopened s"
  obtains (failed) cmd e where "\<not> Error_ok e" "fst (open_stream path sopts s) = e"
      "cmd = K_open path (c_stream_options sopts)"
      "c_call (snd (open_stream path sopts s)) = c_call s"
      "c_tr (snd (open_stream path sopts s)) = record_cmd cmd e (c_tr s)"
  | (opened) cmd t where "Error_ok (fst (open_stream path sopts s))"
      "c_call (snd (open_stream path sopts s)) = (c_call s)\<lparr>b_stream := Some (Some 0)\<rparr>"
      "cmd = K_open path (c_stream_options sopts)" "t = (record_cmd cmd EC_Ok (c_tr s))\<lparr>t_opened := 1, t_live := Some 0,
         t_cancel_requested := False, t_paused := False, t_terminal := False, t_delivered := []\<rparr>"
      "c_tr (snd (open_stream path sopts s)) =
         (if b_cancel_requested (c_call s) then c_cancel (Some 0) t else t)"
proof (cases "Error_ok (next_reply (c_tr s))")
  case True
  then have "next_reply (c_tr s) = EC_Ok" by (simp add: Error_ok_def)
  then show thesis using assms
    by (intro opened [of "K_open path (c_stream_options sopts)"])
      (auto simp: open_stream_def ClientStream_Open_def c_open_stream_def unopened_def idle_def
        ClientStream_assign_def ClientStream_Reset_def ClientStream_Cancel_def c_destroy_def
        Let_def Error_ok_def record_cmd_def)
next
  case False
  then show thesis
    by (intro failed [of _ "K_open path (c_stream_options sopts)"])
      (auto simp: open_stream_def ClientStream_Open_def c_open_stream_def Let_def)
qed

subsection \<open>The invariants of a call\<close>

text \<open>Destroying the stream keeps what events, detaching and releasing keep.\<close>

lemma destroy_inv:
  assumes "\<And>e s. I s \<Longrightarrow> I (fst (bc_handle e s))" and "\<And>s. I s \<Longrightarrow> I (detach_stream s)"
    and "\<And>st s. I s \<Longrightarrow> I (release_stream st s)" and "I s"
  shows "I (fst (bc_DestroyStream s bs))"
  unfolding bc_DestroyStream_def Let_def split_beta fst_conv
  by (intro assms(3) preempt_inv [where I = I] assms(2)) (use assms(1,4) in auto)

lemma release_stream_transport [simp]:
  "t_paused (c_tr (release_stream stream s)) = t_paused (c_tr s)"
  "t_delivered (c_tr (release_stream stream s)) = t_delivered (c_tr s)"
  "t_terminal (c_tr (release_stream stream s)) = t_terminal (c_tr s)"
  "t_opened (c_tr (release_stream stream s)) = t_opened (c_tr s)"
  by (simp_all add: release_stream_def ClientStream_Reset_def c_destroy_def split: option.splits)

text \<open>The slot: a message that waits has paused the reception.\<close>

lemma slot_ok_handle: "slot_ok s \<Longrightarrow> slot_ok (fst (bc_handle e s))"
  by (cases e) (auto simp: slot_ok_def call_section_defs Let_def split: option.splits)

interpretation slot: run_invariant slot_ok
proof (unfold_locales, goal_cases)
  case (2 s e)
  then show ?case by (rule slot_ok_handle)
next
  case (4 s k)
  with command_effect [of k s] show ?case by (auto simp: slot_ok_def)
next
  case (7 s bs)
  show ?case by (rule destroy_inv) (use 7 slot_ok_handle in \<open>auto simp: slot_ok_def\<close>)
next
  case (13 s path sopts)
  from 13(2) show ?case
    by (cases rule: open_effect [of s path sopts]) (use 13 in \<open>auto simp: slot_ok_def unopened_def\<close>)
next
  case (8 s)
  then show ?case
    by (auto simp: slot_ok_def bc_Cancel_def client_stream_defs Let_def split: option.splits)
qed (auto simp: slot_ok_def slot_empty_def unopened_def set_terminal_call)

text \<open>The outcome: once terminal, the status and the trailing metadata are fixed.\<close>

definition outcome_is :: "GrpcStatus \<Rightarrow> entry list \<Rightarrow> cstate \<Rightarrow> bool" where
  "outcome_is st md s \<longleftrightarrow>
     slot_ok s \<and> b_terminal (c_call s) \<and> b_status (c_call s) = st \<and> b_trailing_metadata (c_call s) = md"

lemma outcome_is_handle: "outcome_is st md s \<Longrightarrow> outcome_is st md (fst (bc_handle e s))"
  using slot_ok_handle [of s e]
  by (cases e) (auto simp: outcome_is_def call_section_defs Let_def split: option.splits)

interpretation outcome: reading_invariant "outcome_is st md" for st md
proof (unfold_locales, goal_cases)
  case (2 s e)
  then show ?case by (rule outcome_is_handle)
next
  case (7 s bs)
  show ?case
    by (rule destroy_inv) (use 7 outcome_is_handle in \<open>auto simp: outcome_is_def slot_ok_def\<close>)
next
  case (8 s)
  then show ?case
    by (auto simp: outcome_is_def slot_ok_def bc_Cancel_def client_stream_defs Let_def split: option.splits)
qed (auto simp: outcome_is_def set_terminal_call
      intro: slot.terminal slot.command slot.take slot.resume slot.complete)

text \<open>
  The order of the commands: nothing is sent to a stream that was destroyed, so it is
  destroyed at most once.
\<close>

fun log_ok :: "(stream_cmd \<times> ErrorCode) list \<Rightarrow> bool" where
  "log_ok [] = True"
| "log_ok ((k, e) # ks) =
     ((\<not> is_destroy k \<or> list_all (\<lambda>x. cmd_handle (fst x) \<noteq> cmd_handle k) ks) \<and> log_ok ks)"

definition destroyed :: "nat \<Rightarrow> (stream_cmd \<times> ErrorCode) list \<Rightarrow> bool" where
  "destroyed h ks \<longleftrightarrow> K_destroy h \<in> set (map fst ks)"

lemma destroyed_append [simp]: "destroyed h (ks @ [(k, e)]) \<longleftrightarrow> destroyed h ks \<or> k = K_destroy h"
  by (auto simp: destroyed_def)

lemma log_ok_append [simp]:
  "log_ok (ks @ [(k, e)]) \<longleftrightarrow> log_ok ks \<and> (\<forall>h. cmd_handle k = Some h \<longrightarrow> \<not> destroyed h ks)"
proof (induction ks)
  case (Cons x ks)
  show ?case
    by (cases x; cases "fst x") (use Cons in \<open>auto simp: destroyed_def\<close>)
qed (auto simp: destroyed_def)

text \<open>
  The call owns its stream: the handle it holds was not destroyed, and every handle it opened
  is either held or destroyed. Inside \<^verbatim>\<open>DestroyStream\<close> the local variable holds the stream
  in place of the member.
\<close>

definition owns_stream :: "ClientStream option \<Rightarrow> cstate \<Rightarrow> bool" where
  "owns_stream st s \<longleftrightarrow> slot_ok s \<and> log_ok (t_log (c_tr s)) \<and> st \<noteq> Some None \<and>
     (b_stream (c_call s) = None \<or> b_stream (c_call s) = st) \<and>
     (\<forall>h. st = Some (Some h) \<longrightarrow> h < t_opened (c_tr s) \<and> \<not> destroyed h (t_log (c_tr s))) \<and>
     (\<forall>h < t_opened (c_tr s). destroyed h (t_log (c_tr s)) \<or> st = Some (Some h)) \<and>
     (\<forall>h. destroyed h (t_log (c_tr s)) \<longrightarrow> h < t_opened (c_tr s))"

definition owns :: "cstate \<Rightarrow> bool" where
  "owns s \<longleftrightarrow> owns_stream (b_stream (c_call s)) s"

lemma owns_stream_handle: "owns_stream st s \<Longrightarrow> owns_stream st (fst (bc_handle e s))"
  using slot_ok_handle [of s e]
  by (cases e) (auto simp: owns_stream_def call_section_defs Let_def split: option.splits)

lemma handle_stream [simp]: "b_stream (c_call (fst (bc_handle e s))) = b_stream (c_call s)"
  by (cases e) (auto simp: call_section_defs Let_def split: option.splits)

lemma preempt_stream [simp]: "b_stream (c_call (fst (bc_preempt s bs))) = b_stream (c_call s)"
  by (rule preempt_inv [where I = "\<lambda>x. b_stream (c_call x) = b_stream (c_call s)"]) auto

lemma owns_stream_preempt: "owns_stream st s \<Longrightarrow> owns_stream st (fst (bc_preempt s bs))"
  by (rule preempt_inv) (auto intro: owns_stream_handle)

lemma owns_stream_release:
  assumes "owns_stream st s" "b_stream (c_call s) = None"
  shows "owns_stream None (release_stream st s)"
  using assms
  by (auto simp: owns_stream_def slot_ok_def release_stream_def ClientStream_Reset_def c_destroy_def
      split: option.splits)

lemma owns_stream_detach: "owns_stream st s \<Longrightarrow> owns_stream st (detach_stream s)"
  by (auto simp: owns_stream_def slot_ok_def)

lemma owns_destroy:
  assumes "owns s"
  shows "owns_stream None (fst (bc_DestroyStream s bs))"
    and "b_stream (c_call (fst (bc_DestroyStream s bs))) = None"
proof -
  have "owns_stream (b_stream (c_call s)) (detach_stream (fst (bc_preempt s bs)))"
    using assms by (intro owns_stream_detach owns_stream_preempt) (simp add: owns_def)
  then show "owns_stream None (fst (bc_DestroyStream s bs))"
    by (auto simp: bc_DestroyStream_def Let_def split_beta
        intro!: owns_stream_release owns_stream_preempt)
qed (simp add: bc_DestroyStream_def Let_def split_beta)

interpretation ownership: run_invariant owns
proof (unfold_locales, goal_cases)
  case (2 s e)
  then show ?case by (simp add: owns_def owns_stream_handle)
next
  case (3 s st md)
  with slot.terminal [of s st md] show ?case
    by (auto simp: owns_def owns_stream_def set_terminal_call)
next
  case (4 s k)
  with command_effect [of k s] slot.command [of s k] show ?case
    by (auto simp: owns_def owns_stream_def is_destroy_iff)
next
  case (5 s)
  with resume_effect [of s] slot.resume [of s] show ?case
    by (auto simp: owns_def owns_stream_def Let_def split: if_splits)
next
  case (7 s bs)
  with owns_destroy [of s bs] show ?case by (simp add: owns_def)
next
  case (13 s path sopts)
  note o = 13(1) slot.opens [of s path sopts]
  from 13(2) show ?case
    by (cases rule: open_effect [of s path sopts])
      (use 13 o in \<open>auto simp: owns_def owns_stream_def unopened_def idle_def c_cancel_def destroyed_def\<close>)
next
  case (8 s)
  then show ?case
    by (auto simp: owns_def owns_stream_def slot_ok_def bc_Cancel_def client_stream_defs Let_def split: option.splits)
qed (auto simp: owns_def owns_stream_def unopened_def idle_def slot_ok_def register_call_def split_beta
       destroyed_def)

text \<open>
  Cancellation: a call that was asked to cancel and has a stream has cancelled the stream.
\<close>

definition cancel_ok :: "cstate \<Rightarrow> bool" where
  "cancel_ok s \<longleftrightarrow> slot_ok s \<and>
     (b_cancel_requested (c_call s) \<longrightarrow>
      (\<forall>h. b_stream (c_call s) = Some (Some h) \<longrightarrow> K_cancel h \<in> set (map fst (t_log (c_tr s)))))"

lemma cancel_ok_handle: "cancel_ok s \<Longrightarrow> cancel_ok (fst (bc_handle e s))"
  using slot_ok_handle [of s e]
  by (cases e) (auto simp: cancel_ok_def call_section_defs Let_def split: option.splits)

interpretation cancellation: run_invariant cancel_ok
proof (unfold_locales, goal_cases)
  case (2 s e)
  then show ?case by (rule cancel_ok_handle)
next
  case (3 s st md)
  with slot.terminal [of s st md] show ?case by (auto simp: cancel_ok_def set_terminal_call)
next
  case (4 s k)
  with command_effect [of k s] slot.command [of s k] show ?case by (auto simp: cancel_ok_def)
next
  case (5 s)
  with resume_effect [of s] slot.resume [of s] show ?case by (auto simp: cancel_ok_def Let_def split: if_splits)
next
  case (7 s bs)
  show ?case
    by (rule destroy_inv)
      (use 7 cancel_ok_handle in \<open>auto simp: cancel_ok_def slot_ok_def release_stream_def
         ClientStream_Reset_def c_destroy_def split: option.splits\<close>)
next
  case (13 s path sopts)
  note o = 13(1) slot.opens [of s path sopts]
  from 13(2) show ?case
    by (cases rule: open_effect [of s path sopts])
      (use 13 o in \<open>auto simp: cancel_ok_def unopened_def idle_def c_cancel_def\<close>)
next
  case (8 s)
  then show ?case
    by (auto simp: cancel_ok_def slot_ok_def bc_Cancel_def client_stream_defs Let_def split: option.splits)
qed (auto simp: cancel_ok_def unopened_def idle_def slot_ok_def)

text \<open>
  Messages: what the transport delivered is what was read, followed by the message that waits.
\<close>

definition fifo :: "string list \<Rightarrow> cstate \<Rightarrow> bool" where
  "fifo rs s \<longleftrightarrow> slot_ok s \<and>
     t_delivered (c_tr s) = rs @ (if b_has_message (c_call s) then [b_message (c_call s)] else [])"

lemma fifo_handle: "fifo rs s \<Longrightarrow> fifo rs (fst (bc_handle e s))"
  using slot_ok_handle [of s e]
  by (cases e) (auto simp: fifo_def slot_ok_def call_section_defs Let_def split: option.splits)

interpretation messages: call_invariant "fifo rs" for rs
proof (unfold_locales, goal_cases)
  case (2 s e)
  then show ?case by (rule fifo_handle)
next
  case (3 s st md)
  with slot.terminal [of s st md] show ?case by (auto simp: fifo_def set_terminal_call)
next
  case (4 s k)
  with command_effect [of k s] slot.command [of s k] show ?case by (auto simp: fifo_def)
next
  case (5 s)
  with resume_effect [of s] slot.resume [of s] show ?case
    by (auto simp: fifo_def slot_empty_def Let_def split: if_splits)
next
  case (7 s bs)
  show ?case by (rule destroy_inv) (use 7 fifo_handle in \<open>auto simp: fifo_def slot_ok_def\<close>)
next
  case (8 s)
  then show ?case
    by (auto simp: fifo_def slot_ok_def bc_Cancel_def client_stream_defs Let_def split: option.splits)
qed (auto simp: fifo_def slot_ok_def)

lemma fifo_take:
  assumes "fifo rs s" "b_has_message (c_call s)"
  shows "fifo (rs @ [b_message (c_call s)]) (take_message s)" "slot_empty (take_message s)"
  using assms by (auto simp: fifo_def slot_ok_def slot_empty_def)

lemma fifo_Read:
  assumes "bc_Read out s bs = Some ((r, out'), s', bs')" "fifo rs s"
  shows "if r then \<exists>m. out' = Some m \<and> fifo (rs @ [m]) s' else out' = out \<and> fifo rs s'"
proof (cases "out = None")
  case True
  with assms show ?thesis by (auto simp: bc_Read_def)
next
  case False
  with assms(1) obtain s1 bs1 where w: "bc_wait readable s bs = Some (s1, bs1)"
    and r: "if b_has_message (c_call s1)
      then r \<and> out' = Some (b_message (c_call s1)) \<and> bc_resume (take_message s1) bs1 = (s', bs')
      else \<not> r \<and> out' = out \<and> s' = s1"
    by (auto simp: bc_Read_def bind_eq_Some_conv split_beta Let_def split: if_splits)
  have 1: "fifo rs s1" using messages.waited [OF w assms(2)] .
  with r messages.resumed [OF fifo_take [OF 1], of bs1] show ?thesis
    by (cases "b_has_message (c_call s1)") auto
qed

text \<open>
  Progress: a call that has no outcome yet can still be told one by the transport.
\<close>

definition live_ok :: "cstate \<Rightarrow> bool" where
  "live_ok s \<longleftrightarrow> slot_ok s \<and> (is_terminal s \<or> t_live (c_tr s) \<noteq> None \<and> \<not> t_terminal (c_tr s))"

lemma live_ok_handle: "live_ok s \<Longrightarrow> live_ok (fst (bc_handle e s))"
  using slot_ok_handle [of s e]
  by (cases e) (auto simp: live_ok_def is_terminal_def call_section_defs Let_def split: option.splits)

lemma live_ok_terminal: "live_ok s \<Longrightarrow> is_terminal (fst (bc_handle (E_terminal code msg md) s))"
  by (auto simp: live_ok_def is_terminal_def call_section_defs)

lemma terminal_slot:
  "slot_ok (detach_stream s) = slot_ok s" "slot_ok (release_stream stream s) = slot_ok s"
  "is_terminal (detach_stream s) = is_terminal s" "is_terminal (release_stream stream s) = is_terminal s"
  by (simp_all add: slot_ok_def is_terminal_def)

interpretation progress: reading_invariant live_ok
proof (unfold_locales, goal_cases)
  case (2 s e)
  then show ?case by (rule live_ok_handle)
next
  case (3 s st md)
  with slot.terminal [of s st md] show ?case by (auto simp: live_ok_def is_terminal_def set_terminal_call)
next
  case (4 s k)
  with command_effect [of k s] slot.command [of s k] show ?case
    by (auto simp: live_ok_def is_terminal_def)
next
  case (5 s)
  with resume_effect [of s] slot.resume [of s] show ?case
    by (auto simp: live_ok_def is_terminal_def Let_def split: if_splits)
next
  case (7 s bs)
  have "slot_ok s \<and> is_terminal s" using 7 by (simp add: live_ok_def)
  then have "slot_ok (fst (bc_DestroyStream s bs)) \<and> is_terminal (fst (bc_DestroyStream s bs))"
    by (rule destroy_inv [where I = "\<lambda>s. slot_ok s \<and> is_terminal s", rotated -1])
      (use slot_ok_handle is_terminal_handle in \<open>auto simp: terminal_slot\<close>)
  then show ?case by (simp add: live_ok_def)
next
  case (8 s)
  then show ?case
    by (auto simp: live_ok_def is_terminal_def slot_ok_def bc_Cancel_def client_stream_defs Let_def split: option.splits)
qed (auto simp: live_ok_def is_terminal_def slot_ok_def)

text \<open>Success: only the transport can give a call the status OK.\<close>

definition ok_from_transport :: "cstate \<Rightarrow> bool" where
  "ok_from_transport s \<longleftrightarrow> slot_ok s \<and>
     (b_terminal (c_call s) \<and> g_is_ok (b_status (c_call s)) \<longrightarrow> t_terminal (c_tr s))"

lemma ok_from_transport_handle: "ok_from_transport s \<Longrightarrow> ok_from_transport (fst (bc_handle e s))"
  using slot_ok_handle [of s e]
  by (cases e) (auto simp: ok_from_transport_def call_section_defs Let_def split: option.splits)

interpretation success: run_invariant ok_from_transport
proof (unfold_locales, goal_cases)
  case (2 s e)
  then show ?case by (rule ok_from_transport_handle)
next
  case (3 s st md)
  with slot.terminal [of s st md] show ?case by (auto simp: ok_from_transport_def set_terminal_call)
next
  case (4 s k)
  with command_effect [of k s] slot.command [of s k] show ?case by (auto simp: ok_from_transport_def)
next
  case (5 s)
  with resume_effect [of s] slot.resume [of s] show ?case
    by (auto simp: ok_from_transport_def Let_def split: if_splits)
next
  case (7 s bs)
  show ?case
    by (rule destroy_inv)
      (use 7 ok_from_transport_handle in \<open>auto simp: ok_from_transport_def slot_ok_def\<close>)
next
  case (8 s)
  then show ?case
    by (auto simp: ok_from_transport_def slot_ok_def bc_Cancel_def client_stream_defs Let_def
        split: option.splits)
next
  case (13 s path sopts)
  note o = 13(1) slot.opens [of s path sopts]
  from 13(2) show ?case
    by (cases rule: open_effect [of s path sopts])
      (use 13 o in \<open>auto simp: ok_from_transport_def unopened_def idle_def c_cancel_def\<close>)
qed (auto simp: ok_from_transport_def unopened_def idle_def slot_ok_def)

text \<open>The monitors of the class.\<close>

interpretation terminal_monitor: stable_monitor bc_handle is_terminal
proof
  show "is_terminal s \<Longrightarrow> is_terminal (fst (bc_handle e s))" for s e by (rule is_terminal_handle)
  show "\<not> is_terminal s \<Longrightarrow> is_terminal (fst (bc_handle e s)) \<Longrightarrow> snd (bc_handle e s)" for s e
    by (cases e) (auto simp: is_terminal_def call_section_defs Let_def split: option.splits if_splits)
qed

interpretation readable_monitor: stable_monitor bc_handle readable
proof
  show "readable s \<Longrightarrow> readable (fst (bc_handle e s))" for s e
    by (cases e) (auto simp: readable_def call_section_defs Let_def split: option.splits if_splits)
  show "\<not> readable s \<Longrightarrow> readable (fst (bc_handle e s)) \<Longrightarrow> snd (bc_handle e s)" for s e
    by (cases e) (auto simp: readable_def call_section_defs Let_def split: option.splits if_splits)
qed

interpretation writable_monitor: monitor bc_handle "writable_since generation" for generation
proof
  show "\<not> writable_since generation s \<Longrightarrow> writable_since generation (fst (bc_handle e s)) \<Longrightarrow>
      snd (bc_handle e s)" for s e
    by (cases e) (auto simp: writable_since_def call_section_defs Let_def split: option.splits if_splits)
qed

subsection \<open>The retry loop\<close>

text \<open>Apart from cancellations, only the loop itself writes to the log while it runs.\<close>

fun is_cancel :: "stream_cmd \<Rightarrow> bool" where
  "is_cancel (K_cancel h) = True"
| "is_cancel _ = False"

definition app_log :: "cstate \<Rightarrow> (stream_cmd \<times> ErrorCode) list" where
  "app_log s = filter (\<lambda>x. \<not> is_cancel (fst x)) (t_log (c_tr s))"

definition log_at :: "ClientStream option \<Rightarrow> (stream_cmd \<times> ErrorCode) list \<Rightarrow> cstate \<Rightarrow> bool" where
  "log_at st l s \<longleftrightarrow> b_stream (c_call s) = st \<and> app_log s = l"

lemma log_at_handle: "log_at st l s \<Longrightarrow> log_at st l (fst (bc_handle e s))"
  by (cases e) (auto simp: log_at_def app_log_def call_section_defs Let_def split: option.splits)

lemma log_at_preempt: "log_at st l s \<Longrightarrow> log_at st l (fst (bc_preempt s bs))"
  by (rule preempt_inv) (auto intro: log_at_handle)

lemma log_at_wait: "bc_wait p s bs = Some (s', bs') \<Longrightarrow> log_at st l s \<Longrightarrow> log_at st l s'"
  by (auto simp: bc_wait_def split_beta
      intro: cv_wait_inv [where I = "log_at st l", OF log_at_handle log_at_preempt])

lemma log_at_SetTerminal: "log_at st l s \<Longrightarrow> log_at st l (fst (bc_SetTerminal x md s bs))"
  using log_at_preempt [of st l s bs]
  by (auto simp: bc_SetTerminal_def split_beta log_at_def app_log_def set_terminal_call)

lemma is_terminal_SetTerminal: "is_terminal (fst (bc_SetTerminal st md s bs))"
  by (simp add: bc_SetTerminal_def split_beta is_terminal_def set_terminal_call)

definition issues :: "command \<Rightarrow> nat \<Rightarrow> stream_cmd \<Rightarrow> bool" where
  "issues k h cmd \<longleftrightarrow> (\<forall>t. k (Some h) t = (next_reply t, record_cmd cmd (next_reply t) t)) \<and> \<not> is_cancel cmd"

lemma log_at_issue:
  assumes "issues k h cmd" "log_at (Some (Some h)) l s" "issue_command k s = (e, s')"
  shows "log_at (Some (Some h)) (l @ [(cmd, e)]) s'"
  using assms by (auto simp: issues_def log_at_def app_log_def issue_command_def split_beta)

text \<open>How the loop can end, with the entries it wrote.\<close>

definition command_result :: "stream_cmd \<Rightarrow> ErrorCode option \<Rightarrow> GrpcStatus \<Rightarrow> cstate \<Rightarrow> bool" where
  "command_result cmd reply st s \<longleftrightarrow>
     (case reply of
        None \<Rightarrow> is_terminal s \<and> st = b_status (c_call s)
      | Some e \<Rightarrow>
          if e = EC_Ok then st = grpc_ok
          else if e = EC_Closed then is_terminal s \<and> st = b_status (c_call s)
          else e \<noteq> EC_WouldBlock \<and> is_terminal s \<and> st = command_status e)"

definition reply_entry :: "stream_cmd \<Rightarrow> ErrorCode option \<Rightarrow> (stream_cmd \<times> ErrorCode) list" where
  "reply_entry cmd reply = (case reply of None \<Rightarrow> [] | Some e \<Rightarrow> [(cmd, e)])"

lemma RunCommand_log:
  assumes k: "issues k h cmd"
  shows "RunCommand k s bs = Some (st, s', bs') \<Longrightarrow> log_at (Some (Some h)) l s \<Longrightarrow>
    \<exists>n reply. log_at (Some (Some h)) (l @ replicate n (cmd, EC_WouldBlock) @ reply_entry cmd reply) s' \<and>
      command_result cmd reply st s'"
proof (induction "length bs" arbitrary: s bs l rule: less_induct)
  case less
  have step: "log_at (Some (Some h)) (l @ [(cmd, e)]) s3"
    if "bc_preempt s bs = (s1, bs1)" "bc_preempt s1 bs1 = (s2, bs2)" "issue_command k s2 = (e, s3)"
    for s1 bs1 s2 bs2 e s3
    using log_at_preempt [OF less.prems(2), of bs] log_at_preempt [of _ l s1 bs1] that
    by (intro log_at_issue [OF k]) auto
  from less.prems(1) show ?case
  proof (cases rule: RunCommand_step)
    case ended
    with log_at_preempt [OF less.prems(2), of bs] show ?thesis
      by (intro exI [of _ 0] exI [of _ None]) (auto simp: command_result_def reply_entry_def is_terminal_def)
  next
    case (accepted s1 bs1 s2 e)
    with step [OF accepted(1,3,4)] show ?thesis
      by (intro exI [of _ 0] exI [of _ "Some e"]) (auto simp: command_result_def reply_entry_def Error_ok_def)
  next
    case (closed s1 bs1 s2 bs2 s3)
    with log_at_wait [OF closed(5) step [OF closed(1,3,4)]] bc_wait_holds [OF closed(5)] show ?thesis
      by (intro exI [of _ 0] exI [of _ "Some EC_Closed"]) (auto simp: command_result_def reply_entry_def)
  next
    case (failed s1 bs1 s2 bs2 s3 e)
    have "log_at (Some (Some h)) (l @ [(cmd, e)]) s'" "is_terminal s'"
      using log_at_SetTerminal [OF step [OF failed(1,3,4)]] is_terminal_SetTerminal failed(9)
      by (metis fst_conv)+
    with failed(5-8) show ?thesis
      by (intro exI [of _ 0] exI [of _ "Some e"])
        (auto simp: command_result_def reply_entry_def Error_ok_def)
  next
    case (woken s1 bs1 s2 bs2 s3)
    with log_at_wait [OF woken(5) step [OF woken(1,3,4)]] show ?thesis
      by (intro exI [of _ 1] exI [of _ None]) (auto simp: command_result_def reply_entry_def is_terminal_def)
  next
    case (retry s1 bs1 s2 bs2 s3 s4 bs4)
    from less.hyps [OF retry(7,6) log_at_wait [OF retry(5) step [OF retry(1,3,4)]]]
    obtain n reply where "log_at (Some (Some h))
        ((l @ [(cmd, EC_WouldBlock)]) @ replicate n (cmd, EC_WouldBlock) @ reply_entry cmd reply) s'"
      "command_result cmd reply st s'" by blast
    then show ?thesis by (intro exI [of _ "Suc n"] exI [of _ reply]) auto
  qed
qed

text \<open>The loop returns once the transport's terminal event is in the schedule.\<close>

fun ends :: "event \<Rightarrow> bool" where
  "ends (E_terminal code msg md) = True"
| "ends _ = False"

lemma ends_establishes: "ends e \<Longrightarrow> live_ok s \<Longrightarrow> is_terminal (fst (bc_handle e s))"
  by (cases e) (use live_ok_terminal in simp_all)

lemma bc_wait_returns:
  assumes "monitor bc_handle q" "\<And>s. is_terminal s \<Longrightarrow> q s" "ends e" "live_ok s"
    "promised is_terminal e s bs"
  shows "bc_wait q s bs \<noteq> None"
proof -
  have "live_ok (fst (bc_preempt s bs))" using assms(4) by (rule progress.preempted)
  moreover have "promised is_terminal e (fst (bc_preempt s bs)) (snd (bc_preempt s bs))"
    by (rule terminal_monitor.preempt_promised [where J = live_ok])
      (use assms live_ok_handle ends_establishes in auto)
  ultimately have "cv_wait bc_handle is_terminal (fst (bc_preempt s bs)) (snd (bc_preempt s bs)) \<noteq> None"
    by (intro terminal_monitor.wait_returns [where J = live_ok and e = e])
      (use assms(3) live_ok_handle ends_establishes in auto)
  then show ?thesis
    using terminal_monitor.weaker_wait_returns [OF assms(1,2)] by (simp add: bc_wait_def split_beta)
qed

lemma bc_wait_promised:
  assumes "bc_wait q s bs = Some (s', bs')" "ends e" "live_ok s" "promised is_terminal e s bs"
  shows "promised is_terminal e s' bs'"
proof (rule terminal_monitor.wait_promised [where J = live_ok])
  show "cv_wait bc_handle q (fst (bc_preempt s bs)) (snd (bc_preempt s bs)) = Some (s', bs')"
    using assms(1) by (simp add: bc_wait_def split_beta)
  show "promised is_terminal e (fst (bc_preempt s bs)) (snd (bc_preempt s bs))"
    by (rule terminal_monitor.preempt_promised [where J = live_ok])
      (use assms live_ok_handle ends_establishes in auto)
qed (use assms(2,3) live_ok_handle ends_establishes progress.preempted in auto)

lemma RunCommand_returns:
  assumes k: "stream_command k" and e: "ends e"
  shows "live_ok s \<Longrightarrow> promised is_terminal e s bs \<Longrightarrow> RunCommand k s bs \<noteq> None"
proof (induction "length bs" arbitrary: s bs rule: less_induct)
  case less
  obtain s1 bs1 where 1: "bc_preempt s bs = (s1, bs1)" by fastforce
  obtain s2 bs2 where 2: "bc_preempt s1 bs1 = (s2, bs2)" by fastforce
  obtain x s3 where 3: "issue_command k s2 = (x, s3)" by fastforce
  have pre: "live_ok (fst (bc_preempt s bs)) \<and>
      promised is_terminal e (fst (bc_preempt s bs)) (snd (bc_preempt s bs))"
    if "live_ok s" "promised is_terminal e s bs" for s bs
    using that progress.preempted
      terminal_monitor.preempt_promised [where J = live_ok, OF live_ok_handle ends_establishes [OF e]]
    by blast
  have l1: "live_ok s1" "promised is_terminal e s1 bs1" using pre [OF less.prems] 1 by auto
  have l2: "live_ok s2" "promised is_terminal e s2 bs2" using pre [OF l1] 2 by auto
  have l3: "live_ok s3" "promised is_terminal e s3 bs2"
    using progress.command [OF l2(1) k] l2(2) 3 issue_command_call [of k s2]
    by (auto simp: promised_def is_terminal_def)
  note wait = bc_wait_returns [OF _ _ e l3]
  have closed: "bc_wait is_terminal s3 bs2 \<noteq> None"
    by (rule wait) (auto intro: terminal_monitor.monitor_axioms)
  have blocked: "bc_wait (writable_since g) s3 bs2 \<noteq> None" for g
    by (rule wait) (auto simp: writable_since_def is_terminal_def intro: writable_monitor.monitor_axioms)
  show ?case
  proof (cases "bs = []")
    case True
    with less.prems 1 have "b_terminal (c_call s1)" by (auto simp: promised_def is_terminal_def)
    with 1 show ?thesis by (subst RunCommand.simps) simp
  next
    case False
    have again: "RunCommand k s4 bs4 \<noteq> None"
      if w: "bc_wait (writable_since g) s3 bs2 = Some (s4, bs4)" for g s4 bs4
    proof (rule less.hyps)
      show "length bs4 < length bs"
        using bc_wait_length [OF w] 1 2 False preempt_schedule [of bc_handle s bs]
          preempt_schedule [of bc_handle s1 bs1] by (cases bs) auto
      show "live_ok s4" using progress.waited [OF w l3(1)] .
      show "promised is_terminal e s4 bs4" using bc_wait_promised [OF w e l3] .
    qed
    show ?thesis
      using 1 2 3 closed blocked [of "b_writable_generation (c_call s1)"] again
      by (subst RunCommand.simps) (auto simp: Let_def)
  qed
qed

subsection \<open>Opening\<close>

text \<open>Events before the stream exists touch neither the request nor a cancellation.\<close>

definition request_same :: "ClientContext \<Rightarrow> ClientContext \<Rightarrow> bool" where
  "request_same c d \<longleftrightarrow> cc_metadata c = cc_metadata d \<and> cc_has_deadline c = cc_has_deadline d \<and>
     cc_deadline_seconds c = cc_deadline_seconds d \<and> cc_deadline_extreme c = cc_deadline_extreme d \<and>
     (cc_cancelled d \<or> cc_terminal d \<longrightarrow> cc_cancelled c \<or> cc_terminal c)"

lemma request_same_handle: "request_same (c_ctx s) d \<Longrightarrow> request_same (c_ctx (fst (bc_handle e s))) d"
  by (cases e) (auto simp: request_same_def call_section_defs Let_def split: option.splits)

lemma request_same_preempt: "request_same (c_ctx s) d \<Longrightarrow> request_same (c_ctx (fst (bc_preempt s bs))) d"
  by (rule preempt_inv [where I = "\<lambda>s. request_same (c_ctx s) d"]) (auto intro: request_same_handle)

lemma handle_heap [simp]: "c_heap (fst (bc_handle e s)) = c_heap s"
  by (cases e) (auto simp: call_section_defs Let_def split: option.splits)

lemma preempt_heap [simp]: "c_heap (fst (bc_preempt s bs)) = c_heap s"
  by (rule preempt_inv [where I = "\<lambda>x. c_heap x = c_heap s"]) auto

lemma SetTerminal_heap [simp]: "c_heap (fst (bc_SetTerminal st md s bs)) = c_heap s"
  by (simp add: bc_SetTerminal_def split_beta set_terminal_def)

lemma SetTerminal_unopened: "unopened s \<Longrightarrow> unopened (fst (bc_SetTerminal st md s bs))"
  using unopened_preempt [of s bs] by (simp add: bc_SetTerminal_def split_beta unopened_def set_terminal_call)

lemma pending_handle:
  "unopened s \<Longrightarrow> b_terminal (c_call (fst (bc_handle e s))) = b_terminal (c_call s)"
  by (cases e) (auto simp: unopened_def idle_def call_section_defs Let_def split: option.splits)

lemma pending_preempt:
  "unopened s \<Longrightarrow> b_terminal (c_call (fst (bc_preempt s bs))) = b_terminal (c_call s)"
proof -
  assume "unopened s"
  then have "unopened (fst (bc_preempt s bs)) \<and> b_terminal (c_call (fst (bc_preempt s bs))) = b_terminal (c_call s)"
    by (intro preempt_inv [where I = "\<lambda>x. unopened x \<and> b_terminal (c_call x) = b_terminal (c_call s)"])
      (auto simp: pending_handle unopened_handle)
  then show ?thesis ..
qed

lemma SetTerminal_pending:
  assumes "unopened s" "\<not> b_terminal (c_call s)"
  shows "b_status (c_call (fst (bc_SetTerminal st md s bs))) = st"
  using pending_preempt [OF assms(1), of bs] assms(2)
  by (simp add: bc_SetTerminal_def split_beta set_terminal_call)

lemma open_stream_heap [simp]: "c_heap (snd (open_stream path sopts s)) = c_heap s"
  by (simp add: open_stream_def split_beta Let_def)

context opening_invariant
begin

text \<open>
  The states of \<^verbatim>\<open>Open\<close>: refused by the context; out of memory or invalid metadata; stream
  refused; stream opened.
\<close>

lemma Open_cases:
  assumes "bc_Open p now i path c owner s bs = Some (s', bs')" "idle (c_tr s)"
  obtains (refused) s1 bs1 where "cc_cancelled (c_ctx s1) \<or> cc_terminal (c_ctx s1)" "unopened s1" "I s1"
      "\<not> b_terminal (c_call s1)" "c_heap s1 = c_heap s"
      "(s', bs') = bc_SetTerminal (grpc_status CANCELLED ''call cancelled before start'') [] s1 bs1"
  | (no_metadata) e m h s1 bs1 where "request_same (c_ctx s1) (c_ctx s)"
      "\<not> (cc_cancelled (c_ctx s) \<or> cc_terminal (c_ctx s))" "unopened s1" "I s1"
      "\<not> b_terminal (c_call s1)" "\<not> Error_ok e"
      "CopyMetadata (cc_metadata (c_ctx s)) None (c_heap s) = (e, m, h)" "c_heap s1 = h"
      "(s', bs') = open_exit m (bc_SetTerminal (ErrorStatus e) [] s1 bs1)"
  | (streamed) m h timeout s1 bs1 e s2 where "request_same (c_ctx s1) (c_ctx s)"
      "\<not> (cc_cancelled (c_ctx s) \<or> cc_terminal (c_ctx s))" "unopened s1" "I s1"
      "\<not> b_terminal (c_call s1)" "CopyMetadata (cc_metadata (c_ctx s)) None (c_heap s) = (EC_Ok, m, h)" "c_heap s1 = h"
      "open_timeout p now (c_ctx s) = Some timeout"
      "open_stream path (open_options m c timeout) s1 = (e, s2)"
      "(s', bs') = open_exit m (if Error_ok e then (s2, bs1) else bc_SetTerminal (ErrorStatus e) [] s2 bs1)"
proof -
  define s0 where "s0 = s\<lparr>c_call := (bcs_new i True c)\<lparr>b_channel_owner := owner\<rparr>, c_pending_cancels := 0\<rparr>"
  define s1 where "s1 = fst (bc_preempt s0 bs)"
  define bs1 where "bs1 = snd (bc_preempt s0 bs)"
  have "unopened s0" "request_same (c_ctx s0) (c_ctx s)" "c_heap s0 = c_heap s"
    "\<not> b_terminal (c_call s0)" "I s0"
    using assms(2) by (auto simp: s0_def unopened_def bcs_new_def request_same_def intro!: fresh)
  then have u1: "unopened s1" and i1: "I s1" and r1: "request_same (c_ctx s1) (c_ctx s)" and h1: "c_heap s1 = c_heap s"
    and t1: "\<not> b_terminal (c_call s1)"
    by (simp_all add: s1_def unopened_preempt request_same_preempt pending_preempt preempted)
  obtain ok s2 where reg: "register_call i s1 = (ok, s2)" by fastforce
  then have u2: "unopened s2" and i2: "I s2" and r2: "request_same (c_ctx s2) (c_ctx s)" and h2: "c_heap s2 = c_heap s"
    and t2: "\<not> b_terminal (c_call s2)" and ok: "\<not> ok \<longleftrightarrow> cc_cancelled (c_ctx s1) \<or> cc_terminal (c_ctx s1)" "\<not> ok \<Longrightarrow> s2 = s1"
    using u1 r1 h1 t1 i1 register [of s1 i] by (auto simp: register_call_def RegisterCancellation_def unopened_def
        request_same_def split: if_splits)
  obtain e m h where md: "CopyMetadata (cc_metadata (c_ctx s)) None (c_heap s) = (e, m, h)"
    by (cases "CopyMetadata (cc_metadata (c_ctx s)) None (c_heap s)") auto
  have ctx: "cc_metadata (c_ctx s2) = cc_metadata (c_ctx s)" using r2 by (simp add: request_same_def)
  have time: "open_timeout p now (c_ctx (s2\<lparr>c_heap := h\<rparr>)) = open_timeout p now (c_ctx s)"
    using r2 by (simp add: request_same_def open_timeout_def remaining_seconds_def)
  note run = assms(1) [unfolded bc_Open_def s0_def [symmetric], simplified Let_def split_beta
      s1_def [symmetric] bs1_def [symmetric] reg fst_conv snd_conv ctx h2 md time]
  show thesis
  proof (cases ok)
    case False
    with run refused [of s1 bs1] ok u1 i1 t1 h1 show thesis by simp
  next
    case True
    then have nc: "\<not> (cc_cancelled (c_ctx s) \<or> cc_terminal (c_ctx s))"
      using ok(1) r1 by (auto simp: request_same_def)
    define s3 where "s3 = s2\<lparr>c_heap := h\<rparr>"
    have s3: "request_same (c_ctx s3) (c_ctx s)" "unopened s3" "I s3" "\<not> b_terminal (c_call s3)" "c_heap s3 = h"
      using r2 u2 t2 i2 by (simp_all add: s3_def unopened_def heap)
    show thesis
    proof (cases "Error_ok e")
      case False
      with run True no_metadata [of s3 e m h bs1] nc s3 md show thesis by (simp add: s3_def)
    next
      case e: True
      then have "e = EC_Ok" by (simp add: Error_ok_def)
      define s4 where "s4 = fst (bc_preempt s3 bs1)"
      define bs4 where "bs4 = snd (bc_preempt s3 bs1)"
      have s4: "request_same (c_ctx s4) (c_ctx s)" "unopened s4" "I s4" "\<not> b_terminal (c_call s4)" "c_heap s4 = h"
        using s3 by (simp_all add: s4_def request_same_preempt unopened_preempt pending_preempt preempted)
      from run True e obtain timeout where t: "open_timeout p now (c_ctx s) = Some timeout"
        by (auto simp: bind_eq_Some_conv)
      obtain e' s5 where o: "open_stream path (open_options m c timeout) s4 = (e', s5)" by fastforce
      from run True e t o have "(s', bs') = open_exit m
          (if Error_ok e' then (s5, bs4) else bc_SetTerminal (ErrorStatus e') [] s5 bs4)"
        by (simp add: s3_def [symmetric] s4_def [symmetric] bs4_def [symmetric] split: if_splits)
      with streamed nc s4 md t o \<open>e = EC_Ok\<close> show thesis by blast
    qed
  qed
qed

lemma Open:
  assumes "bc_Open p now i path c owner s bs = Some (s', bs')" "idle (c_tr s)"
  shows "I s'"
  using assms
proof (cases rule: Open_cases)
  case (refused s1 bs1)
  then show ?thesis using SetTerminal [OF refused(3), of "grpc_status CANCELLED _"] by (metis fst_conv g_is_ok_grpc_status GrpcCode.distinct(1))
next
  case (no_metadata e m h s1 bs1)
  have "I (fst (open_exit m (bc_SetTerminal (ErrorStatus e) [] s1 bs1)))"
    by (intro Open_exit SetTerminal) (use no_metadata in auto)
  with no_metadata show ?thesis by (metis fst_conv)
next
  case (streamed m h timeout s1 bs1 e s2)
  have "I s2" using opens [OF streamed(4,3)] streamed(9) by (metis snd_conv)
  then have "I (fst (open_exit m (if Error_ok e then (s2, bs1) else bc_SetTerminal (ErrorStatus e) [] s2 bs1)))"
    by (intro Open_exit) (auto intro: SetTerminal)
  with streamed show ?thesis by (metis fst_conv)
qed

end

subsection \<open>Runs\<close>

text \<open>
  One step of a call: an event, or an operation of the application thread. The label has the
  messages the step handed to the application.
\<close>

inductive call_step :: "cstate \<Rightarrow> string list \<Rightarrow> cstate \<Rightarrow> bool" where
  event: "call_step s [] (fst (bc_handle e s))"
| cancelled: "call_step s [] (bc_Cancel s)"
| sent: "bc_Send payload s bs = Some (st, s', bs') \<Longrightarrow> call_step s [] s'"
| closed: "bc_CloseSend s bs = Some (st, s', bs') \<Longrightarrow> call_step s [] s'"
| read: "bc_Read out s bs = Some ((True, Some m), s', bs') \<Longrightarrow> call_step s [m] s'"
| read_end: "bc_Read out s bs = Some ((False, out'), s', bs') \<Longrightarrow> call_step s [] s'"
| finished: "bc_Finish s bs = Some (st, s', bs') \<Longrightarrow> call_step s [] s'"

text \<open>
  The states a call can be in: opened on an unused transport, or failed from the start, then
  changed by steps. The list has the messages that \<^verbatim>\<open>Read\<close> returned, oldest first.
\<close>

inductive call_run :: "cstate \<Rightarrow> string list \<Rightarrow> bool" where
  opened: "idle (c_tr s0) \<Longrightarrow> bc_Open p now i path c owner s0 bs = Some (s, bs') \<Longrightarrow> call_run s []"
| failed: "idle (c_tr s0) \<Longrightarrow> \<not> g_is_ok st \<Longrightarrow> call_run (bc_Failed i has_context st s0) []"
| step: "call_run s rs \<Longrightarrow> call_step s ms s' \<Longrightarrow> call_run s' (rs @ ms)"

context call_invariant
begin

lemma Send: "bc_Send payload s bs = Some (st, s', bs') \<Longrightarrow> I s \<Longrightarrow> I s'"
  unfolding bc_Send_def by (rule RunCommand [OF stream_command.send])

lemma CloseSend: "bc_CloseSend s bs = Some (st, s', bs') \<Longrightarrow> I s \<Longrightarrow> I s'"
  unfolding bc_CloseSend_def by (rule RunCommand [OF stream_command.close_send])

lemma SendAndClose: "bc_SendAndClose payload s bs = Some (st, s', bs') \<Longrightarrow> I s \<Longrightarrow> I s'"
  by (auto simp: bc_SendAndClose_def bind_eq_Some_conv split: if_splits dest: Send CloseSend)

end

context reading_invariant
begin

lemma step: "call_step s ms s' \<Longrightarrow> I s \<Longrightarrow> I s'"
  by (induction rule: call_step.induct) (auto intro: handle cancel Send CloseSend Read Finish)

lemma steps: "(\<lambda>x y. \<exists>ms. call_step x ms y)\<^sup>*\<^sup>* s s' \<Longrightarrow> I s \<Longrightarrow> I s'"
  by (induction rule: rtranclp_induct) (auto intro: step)

end

context opening_invariant
begin

lemma Failed: "idle (c_tr s) \<Longrightarrow> \<not> g_is_ok st \<Longrightarrow> I (bc_Failed i has_context st s)"
  unfolding bc_Failed_def by (intro terminal fresh) (auto simp: unopened_def bcs_new_def)

end

context run_invariant
begin

lemma run: "call_run s rs \<Longrightarrow> I s"
  by (induction rule: call_run.induct) (auto intro: Open Failed step)

end

interpretation no_messages: opening_invariant "fifo []"
proof (unfold_locales, goal_cases)
  case (4 s path sopts)
  note o = 4(1) slot.opens [of s path sopts]
  from 4(2) show ?case
    by (cases rule: open_effect [of s path sopts])
      (use 4 o in \<open>auto simp: fifo_def unopened_def idle_def c_cancel_def\<close>)
qed (auto simp: fifo_def unopened_def idle_def slot_ok_def)

lemma fifo_step: "call_step s ms s' \<Longrightarrow> fifo rs s \<Longrightarrow> fifo (rs @ ms) s'"
  by (induction rule: call_step.induct)
    (auto intro: messages.handle messages.cancel messages.Send messages.CloseSend messages.Finish
      dest: fifo_Read)

lemma fifo_run: "call_run s rs \<Longrightarrow> fifo rs s"
  by (induction rule: call_run.induct) (auto intro: no_messages.Open no_messages.Failed fifo_step)

lemma Open_result:
  assumes "bc_Open p now i path c owner s bs = Some (s', bs')" "idle (c_tr s)"
  obtains (ended) "is_terminal s'"
  | (opened) s1 sopts h where "unopened s1" "Error_ok (fst (open_stream path sopts s1))"
      "s' = (snd (open_stream path sopts s1))\<lparr>c_heap := h\<rparr>"
proof -
  have exit: "is_terminal x" if "(x, b) = open_exit m (bc_SetTerminal st md y b0)" for x b m st md y b0
    using is_terminal_SetTerminal [of st md y b0] that by (simp add: open_exit_def split_beta is_terminal_def)
  from assms show thesis
  proof (cases rule: slot.Open_cases)
    case (refused s1 bs1)
    with is_terminal_SetTerminal show thesis by (metis ended fst_conv)
  next
    case (no_metadata e m h s1 bs1)
    with exit show thesis by (blast intro: ended)
  next
    case (streamed m h timeout s1 bs1 e s2)
    show thesis
    proof (cases "Error_ok e")
      case True
      with streamed show thesis by (intro opened [of s1 "open_options m c timeout"]) (auto simp: open_exit_def)
    next
      case False
      with streamed(10) exit show thesis by (intro ended) auto
    qed
  qed
qed

lemma live_Open:
  assumes o: "bc_Open p now i path c owner s bs = Some (s', bs')" "idle (c_tr s)"
  shows "live_ok s'"
  using o
proof (cases rule: Open_result)
  case ended
  with slot.Open [OF o] show ?thesis by (simp add: live_ok_def)
next
  case (opened s1 sopts h)
  from opened(1) show ?thesis
    by (cases rule: open_effect [of s1 path sopts])
      (use opened slot.Open [OF o] in \<open>auto simp: live_ok_def c_cancel_def\<close>)
qed

lemma live_run: "call_run s rs \<Longrightarrow> live_ok s"
proof (induction rule: call_run.induct)
  case (failed s0 i has_context st)
  then show ?case
    by (auto simp: bc_Failed_def live_ok_def is_terminal_def slot_ok_def set_terminal_call bcs_new_def)
qed (auto intro: live_Open progress.step)

end
