(* ===== verification/Call_Properties.thy ===== *)
theory Call_Properties
  imports Call_Invariants
begin

section \<open>Properties of the blocking call\<close>

text \<open>
  When the operations of a blocking call return and what they return, and the properties of
  the class that follow from the invariants. A sample call provides the concrete inputs.
\<close>

subsection \<open>A sample call\<close>

definition sample_start :: cstate where
  "sample_start =
     \<lparr>c_ctx = AddMetadata ''k'' ''v'' ClientContext_init, c_call = bcs_new 0 False Identity,
      c_tr = transport_init (\<lambda>n. if n = 1 then EC_WouldBlock else EC_Ok),
      c_heap = \<lparr>h_outcomes = [], h_live = 0\<rparr>, c_alive = (\<lambda>i. i = 7), c_pending_cancels = 0\<rparr>"

definition sample_call :: cstate where
  "sample_call = fst (the (bc_Open 64 0 7 ''/s/m'' Identity True sample_start []))"

definition sample_event :: event where
  "sample_event = E_terminal 0 ''fine'' [(''t'', ''1'')]"

definition sample_read :: cstate where
  "sample_read = fst (bc_handle (E_message ''hello'' Identity) sample_call)"

definition sample_done :: cstate where
  "sample_done = fst (bc_handle sample_event sample_read)"

lemma sample_opens:
  "case bc_Open 64 0 7 ''/s/m'' Identity True sample_start [] of None \<Rightarrow> False | Some (s, bs) \<Rightarrow> bs = []"
  by code_simp

lemma sample_run: "call_run sample_call []"
proof (rule call_run.opened)
  show "idle (c_tr sample_start)" by (simp add: sample_start_def idle_init)
  show "bc_Open 64 0 7 ''/s/m'' Identity True sample_start [] = Some (sample_call, [])"
    using sample_opens by (auto simp: sample_call_def split: option.splits)
qed

lemma sample_runs: "call_run sample_read []" "call_run sample_done []"
proof -
  show r: "call_run sample_read []"
    using call_run.step [OF sample_run call_step.event] unfolding sample_read_def append_Nil .
  show "call_run sample_done []"
    using call_run.step [OF r call_step.event] unfolding sample_done_def append_Nil .
qed

subsection \<open>What the operations return\<close>

lemma preempt_promise:
  "ends e \<Longrightarrow> live_ok s \<Longrightarrow> promised is_terminal e s bs \<Longrightarrow>
   promised is_terminal e (fst (bc_preempt s bs)) (snd (bc_preempt s bs))"
  by (rule terminal_monitor.preempt_promised [where J = live_ok])
    (use live_ok_handle ends_establishes in auto)

lemma RunCommand_promised:
  assumes k: "stream_command k" and e: "ends e"
  shows "RunCommand k s bs = Some (st, s', bs') \<Longrightarrow> live_ok s \<Longrightarrow> promised is_terminal e s bs \<Longrightarrow>
    promised is_terminal e s' bs'"
proof (induction "length bs" arbitrary: s bs rule: less_induct)
  case less
  have issued: "live_ok s3 \<and> promised is_terminal e s3 bs2"
    if "bc_preempt s bs = (s1, bs1)" "bc_preempt s1 bs1 = (s2, bs2)" "issue_command k s2 = (x, s3)"
    for s1 bs1 s2 bs2 x s3
    using preempt_promise [OF e less.prems(2,3)] progress.preempted [OF less.prems(2), of bs]
      preempt_promise [OF e, of s1 bs1] progress.preempted [of s1 bs1]
      progress.command [OF _ k, of s2] issue_command_call [of k s2] that
    by (auto simp: promised_def is_terminal_def)
  from less.prems(1) show ?case
  proof (cases rule: RunCommand_step)
    case (retry s1 bs1 s2 bs2 s3 s4 bs4)
    note i = issued [OF retry(1,3,4)]
    show ?thesis
      using less.hyps [OF retry(7,6)] progress.waited [OF retry(5)] bc_wait_promised [OF retry(5) e] i
      by blast
  next
    case (accepted s1 bs1 s2 x)
    with issued [OF accepted(1,3,4)] show ?thesis by simp
  next
    case (failed s1 bs1 s2 bs2 s3 x)
    with is_terminal_SetTerminal show ?thesis unfolding promised_def by (metis fst_conv)
  qed (auto simp: promised_def is_terminal_def dest: bc_wait_holds)
qed

lemma bc_resume_promised:
  assumes "ends e" "live_ok s" "promised is_terminal e s bs" "bc_resume s bs = (s', bs')"
  shows "promised is_terminal e s' bs'"
proof -
  note pre = preempt_promise [OF assms(1-3)]
  have "promised is_terminal e (snd (issue_command ClientStream_ResumeReceive (fst (bc_preempt s bs))))
      (snd (bc_preempt s bs))"
    using pre by (simp add: promised_def is_terminal_def)
  moreover have "promised is_terminal e x b" if "bc_SetTerminal st md y b0 = (x, b)" for st md y b0 x b
    using is_terminal_SetTerminal [of st md y b0] that by (simp add: promised_def)
  ultimately show ?thesis using pre assms(4)
    by (auto simp: bc_resume_def Let_def split_beta split: if_splits)
qed

lemma Read_promised:
  assumes "bc_Read out s bs = Some (x, s', bs')" "ends e" "live_ok s" "promised is_terminal e s bs"
  shows "promised is_terminal e s' bs'"
proof (cases "out = None")
  case True
  with assms show ?thesis by (auto simp: bc_Read_def)
next
  case False
  with assms(1) obtain s1 bs1 where w: "bc_wait readable s bs = Some (s1, bs1)"
    and r: "if b_has_message (c_call s1) then bc_resume (take_message s1) bs1 = (s', bs') else s' = s1 \<and> bs' = bs1"
    by (auto simp: bc_Read_def bind_eq_Some_conv split_beta Let_def split: if_splits)
  have 1: "promised is_terminal e s1 bs1" by (rule bc_wait_promised [OF w assms(2-4)])
  show ?thesis
  proof (cases "b_has_message (c_call s1)")
    case True
    with r have "bc_resume (take_message s1) bs1 = (s', bs')" by simp
    moreover have "live_ok (take_message s1)"
      using progress.take [OF progress.waited [OF w assms(3)] True] .
    moreover have "promised is_terminal e (take_message s1) bs1"
      using 1 by (simp add: promised_def is_terminal_def)
    ultimately show ?thesis using bc_resume_promised [OF assms(2)] by blast
  next
    case False
    with r 1 show ?thesis by simp
  qed
qed

lemma Read_returns:
  assumes "ends e" "live_ok s" "promised is_terminal e s bs"
  shows "bc_Read out s bs \<noteq> None"
proof -
  have "bc_wait readable s bs \<noteq> None"
    by (rule bc_wait_returns [OF _ _ assms])
      (auto simp: readable_def is_terminal_def intro: readable_monitor.monitor_axioms)
  then show ?thesis by (auto simp: bc_Read_def split_beta Let_def)
qed

lemma Finish_returns:
  assumes "ends e" "live_ok s" "promised is_terminal e s bs"
  shows "bc_Finish s bs \<noteq> None"
proof -
  have "bc_wait is_terminal s bs \<noteq> None"
    by (rule bc_wait_returns [OF _ _ assms]) (auto intro: terminal_monitor.monitor_axioms)
  then show ?thesis by (auto simp: bc_Finish_def split_beta Let_def)
qed

lemma Send_returns:
  "ends e \<Longrightarrow> live_ok s \<Longrightarrow> promised is_terminal e s bs \<Longrightarrow> bc_Send payload s bs \<noteq> None"
  unfolding bc_Send_def by (rule RunCommand_returns [OF stream_command.send])

lemma SendAndClose_returns:
  assumes "ends e" "live_ok s" "promised is_terminal e s bs"
  shows "bc_SendAndClose payload s bs \<noteq> None"
proof -
  obtain st s1 bs1 where r: "bc_Send payload s bs = Some (st, s1, bs1)"
    using Send_returns [OF assms] by (metis not_Some_eq prod_cases3)
  have "promised is_terminal e s1 bs1"
    using RunCommand_promised [OF stream_command.send assms(1) _ assms(2,3)] r by (simp add: bc_Send_def)
  then have "bc_CloseSend s1 bs1 \<noteq> None"
    unfolding bc_CloseSend_def
    by (rule RunCommand_returns [OF stream_command.close_send assms(1) progress.Send [OF r assms(2)]])
  with r show ?thesis by (auto simp: bc_SendAndClose_def)
qed

lemma SendAndClose_promised:
  assumes "bc_SendAndClose payload s bs = Some (st, s', bs')" "ends e" "live_ok s" "promised is_terminal e s bs"
  shows "promised is_terminal e s' bs'"
proof -
  obtain st1 s1 bs1 where 1: "bc_Send payload s bs = Some (st1, s1, bs1)"
    and r: "if g_is_ok st1 then bc_CloseSend s1 bs1 = Some (st, s', bs') else s' = s1 \<and> bs' = bs1"
    using assms(1) by (auto simp: bc_SendAndClose_def bind_eq_Some_conv split: if_splits)
  have "promised is_terminal e s1 bs1"
    using RunCommand_promised [OF stream_command.send assms(2) _ assms(3,4)] 1 by (simp add: bc_Send_def)
  with r progress.Send [OF 1 assms(3)] show ?thesis
    using RunCommand_promised [OF stream_command.close_send assms(2)]
    by (auto simp: bc_CloseSend_def split: if_splits)
qed

text \<open>\<^verbatim>\<open>Finish\<close> returns the outcome and leaves no stream behind.\<close>

lemma Finish_result:
  assumes "bc_Finish s bs = Some (st, s', bs')" "slot_ok s"
  obtains md where "outcome_is st md s'"
  using assms(1)
proof (rule Finish_steps)
  fix s1 bs1
  assume w: "bc_wait is_terminal s bs = Some (s1, bs1)" and st: "st = b_status (c_call s1)"
    and s': "s' = fst (bc_DestroyStream
       (complete_call (mm_of_entries (b_initial_metadata (c_call s1)))
         (mm_of_entries (b_trailing_metadata (c_call s1))) (fst (bc_preempt s1 bs1)))
       (snd (bc_preempt s1 bs1)))"
  define md where "md = b_trailing_metadata (c_call s1)"
  have "outcome_is st md s1"
    using bc_wait_holds [OF w] slot.waited [OF w assms(2)] st by (simp add: outcome_is_def is_terminal_def md_def)
  then have "outcome_is st md (complete_call initial trailing (fst (bc_preempt s1 bs1)))" for initial trailing
    by (intro outcome.complete outcome.preempted)
  then have "outcome_is st md s'" unfolding s'
    by (meson outcome.destroy outcome_is_def is_terminal_def)
  then show thesis by (rule that)
qed

lemma Finish_stream:
  assumes "bc_Finish s bs = Some (st, s', bs')" "owns s"
  shows "owns s' \<and> b_stream (c_call s') = None"
  using assms(1)
proof (rule Finish_steps)
  fix s1 bs1
  assume w: "bc_wait is_terminal s bs = Some (s1, bs1)"
    and s': "s' = fst (bc_DestroyStream
       (complete_call (mm_of_entries (b_initial_metadata (c_call s1)))
         (mm_of_entries (b_trailing_metadata (c_call s1))) (fst (bc_preempt s1 bs1)))
       (snd (bc_preempt s1 bs1)))"
  have "owns (complete_call initial trailing (fst (bc_preempt s1 bs1)))" for initial trailing
    using ownership.waited [OF w assms(2)] by (intro ownership.complete ownership.preempted)
  with ownership.Finish [OF assms] show ?thesis unfolding s' by (simp add: owns_destroy(2))
qed

subsection \<open>Properties\<close>

text \<open>
  C11. The outcome of a call is decided once. In every reachable state in which the call is
  terminal, no further sequence of events and operations (callbacks, cancellations, commands,
  reads, finishes, in any order and under any schedule) changes its status or its trailing
  metadata, and every \<^verbatim>\<open>Finish\<close> that returns later returns that status.
\<close>

theorem call_outcome_fixed:
  assumes "call_run s rs" and "b_terminal (c_call s)"
    and "(\<lambda>x y. \<exists>ms. call_step x ms y)\<^sup>*\<^sup>* s s'"
  shows "b_terminal (c_call s') \<and> b_status (c_call s') = b_status (c_call s) \<and>
    b_trailing_metadata (c_call s') = b_trailing_metadata (c_call s) \<and>
    (\<forall>bs st s2 bs2. bc_Finish s' bs = Some (st, s2, bs2) \<longrightarrow> st = b_status (c_call s))"
proof -
  let ?O = "outcome_is (b_status (c_call s)) (b_trailing_metadata (c_call s))"
  have "?O s" using assms(1,2) slot.run by (auto simp: outcome_is_def)
  then have s': "?O s'" by (rule outcome.steps [OF assms(3)])
  have "st = b_status (c_call s)" if f: "bc_Finish s' bs = Some (st, s2, bs2)" for bs st s2 bs2
  proof -
    obtain md where "outcome_is st md s2"
      by (rule Finish_result [OF f]) (use s' in \<open>auto simp: outcome_is_def\<close>)
    with outcome.Finish [OF f s'] show ?thesis by (simp add: outcome_is_def)
  qed
  with s' show ?thesis by (auto simp: outcome_is_def)
qed

theorem call_outcome_fixed_witness:
  "b_terminal (c_call sample_done) \<and>
   b_status (c_call (bc_Cancel sample_done)) = grpc_status OK ''fine''"
proof -
  have t: "b_terminal (c_call sample_done)" by code_simp
  have st: "b_status (c_call sample_done) = grpc_status OK ''fine''" by code_simp
  have "(\<lambda>x y. \<exists>ms. call_step x ms y)\<^sup>*\<^sup>* sample_done (bc_Cancel sample_done)"
    using call_step.cancelled by blast
  from call_outcome_fixed [OF sample_runs(2) t this] st t show ?thesis by simp
qed

text \<open>
  C13. No wake-up is lost. Each of the three waits of the class (\<^verbatim>\<open>Read\<close>, \<^verbatim>\<open>Finish\<close> and the
  retry loop) on the condition variable \<^verbatim>\<open>changed_\<close>, which looks at its predicate only after a
  notification, returns in exactly the states and after exactly the events where a wait that
  looks at the predicate after every critical section of another thread would return.
\<close>

theorem call_no_lost_wakeup:
  "cv_wait bc_handle readable s bs = ideal_wait bc_handle readable s bs \<and>
   cv_wait bc_handle is_terminal s bs = ideal_wait bc_handle is_terminal s bs \<and>
   cv_wait bc_handle (writable_since generation) s bs =
     ideal_wait bc_handle (writable_since generation) s bs"
  by (simp add: readable_monitor.no_lost_wakeup terminal_monitor.no_lost_wakeup
      writable_monitor.no_lost_wakeup)

text \<open>
  C14. Blocking operations return. From every reachable state, if the schedule holds the
  transport's terminal event, then \<^verbatim>\<open>Send\<close>, \<^verbatim>\<open>SendAndClose\<close>, \<^verbatim>\<open>Read\<close> and \<^verbatim>\<open>Finish\<close> all
  return, however often the transport answers \<^verbatim>\<open>WouldBlock\<close> and whatever else happens.
\<close>

theorem call_operations_return:
  assumes "call_run s rs" and "E_terminal code msg md \<in> set b" and "b \<in> set bs"
  shows "bc_Send payload s bs \<noteq> None \<and> bc_SendAndClose payload s bs \<noteq> None \<and>
    bc_Read out s bs \<noteq> None \<and> bc_Finish s bs \<noteq> None"
proof -
  have e: "ends (E_terminal code msg md)" by simp
  have l: "live_ok s" using assms(1) by (rule live_run)
  have p: "promised is_terminal (E_terminal code msg md) s bs" using assms(2,3) by (auto simp: promised_def)
  show ?thesis
    using Send_returns [OF e l p] SendAndClose_returns [OF e l p] Read_returns [OF e l p]
      Finish_returns [OF e l p] by blast
qed

theorem call_operations_return_witness:
  "bc_Send ''x'' sample_call [[], [E_writable], [E_terminal 14 ''down'' []]] \<noteq> None"
proof -
  have "E_terminal 14 ''down'' [] \<in> set [E_terminal 14 ''down'' []]" by simp
  moreover have "[E_terminal 14 ''down'' []] \<in> set [[], [E_writable], [E_terminal 14 ''down'' []]]" by simp
  ultimately show ?thesis using call_operations_return [OF sample_run] by blast
qed

text \<open>
  C12. Messages are neither lost, duplicated nor reordered. In every reachable state the payloads
  the transport handed to \<^verbatim>\<open>on_message\<close> are those \<^verbatim>\<open>Read\<close> returned, in that order, followed
  by the one in the slot if the slot is full; and a full slot has the reception paused, so the
  transport cannot overwrite it.
\<close>

theorem call_messages_in_order:
  assumes "call_run s rs"
  shows "t_delivered (c_tr s) = rs @ (if b_has_message (c_call s) then [b_message (c_call s)] else []) \<and>
    (b_has_message (c_call s) \<longrightarrow> t_paused (c_tr s) \<and>
       (\<forall>payload c. fst (bc_handle (E_message payload c) s) = s))"
  using fifo_run [OF assms] by (auto simp: fifo_def slot_ok_def)

theorem call_messages_in_order_witness:
  "t_delivered (c_tr sample_read) = [''hello''] \<and> b_has_message (c_call sample_read)"
proof -
  have "b_has_message (c_call sample_read) \<and> b_message (c_call sample_read) = ''hello''" by code_simp
  with call_messages_in_order [OF sample_runs(1)] show ?thesis by simp
qed

text \<open>
  C15. The native stream is owned properly. In every reachable state no command was sent to a
  stream handle after that handle was destroyed (so it is destroyed at most once), and after a
  \<^verbatim>\<open>Finish\<close> the call holds no stream and every handle it opened has been destroyed.
\<close>

theorem call_stream_ownership:
  assumes "call_run s rs"
  shows "log_ok (t_log (c_tr s)) \<and>
    (\<forall>bs st s' bs'. bc_Finish s bs = Some (st, s', bs') \<longrightarrow>
       log_ok (t_log (c_tr s')) \<and> b_stream (c_call s') = None \<and>
       (\<forall>h < t_opened (c_tr s'). destroyed h (t_log (c_tr s'))))"
proof -
  have s: "owns s" using assms by (rule ownership.run)
  have "owns s' \<and> b_stream (c_call s') = None" if "bc_Finish s bs = Some (st, s', bs')" for bs st s' bs'
    using Finish_stream [OF that s] .
  with s show ?thesis by (fastforce simp: owns_def owns_stream_def)
qed

theorem call_stream_ownership_witness:
  "t_opened (c_tr sample_call) = 1 \<and>
   (case bc_Finish sample_call [[sample_event]] of None \<Rightarrow> False
    | Some (st, s', bs') \<Rightarrow> st = grpc_status OK ''fine'' \<and> destroyed 0 (t_log (c_tr s')))"
proof -
  have f: "case bc_Finish sample_call [[sample_event]] of None \<Rightarrow> False
    | Some (st, s', bs') \<Rightarrow> st = grpc_status OK ''fine'' \<and> t_opened (c_tr s') = 1" by code_simp
  have "t_opened (c_tr sample_call) = 1" by code_simp
  with f call_stream_ownership [OF sample_run, THEN conjunct2, rule_format, of "[[sample_event]]"]
  show ?thesis by (force split: option.splits)
qed

text \<open>
  C16. The retry loop sends a command until it is answered by something else than \<^verbatim>\<open>WouldBlock\<close>
  and never again. Whenever \<^verbatim>\<open>Send\<close> returns on an open stream, the commands it issued are the
  same send repeated: some number of attempts refused with \<^verbatim>\<open>WouldBlock\<close>, then at most one
  final attempt; it returns OK if that was accepted, the status of the call if the stream was
  closed or the call had ended, and for any other refusal the mapped error, after making the
  call terminal.
\<close>

theorem send_retries_exactly:
  assumes "bc_Send payload s bs = Some (st, s', bs')" and "b_stream (c_call s) = Some (Some h)"
  shows "\<exists>n reply.
    app_log s' = app_log s @ replicate n (K_send h payload (b_compression (c_call s)), EC_WouldBlock) @
      reply_entry (K_send h payload (b_compression (c_call s))) reply \<and>
    command_result (K_send h payload (b_compression (c_call s))) reply st s'"
proof -
  have "issues (\<lambda>stream. ClientStream_Send stream payload (b_compression (c_call s))) h
      (K_send h payload (b_compression (c_call s)))"
    by (auto simp: issues_def client_stream_defs Let_def)
  from RunCommand_log [OF this assms(1) [unfolded bc_Send_def], of "app_log s"] assms(2)
  show ?thesis by (auto simp: log_at_def)
qed

theorem send_retries_exactly_witness:
  "case bc_Send ''x'' sample_call [[], [], [E_writable]] of None \<Rightarrow> False
   | Some (st, s', bs') \<Rightarrow> st = grpc_ok \<and> (\<exists>n reply. app_log s' = app_log sample_call @
       replicate n (K_send 0 ''x'' (b_compression (c_call sample_call)), EC_WouldBlock) @
       reply_entry (K_send 0 ''x'' (b_compression (c_call sample_call))) reply)"
proof -
  have "b_stream (c_call sample_call) = Some (Some 0)" by code_simp
  moreover have "case bc_Send ''x'' sample_call [[], [], [E_writable]] of None \<Rightarrow> False
   | Some (st, s', bs') \<Rightarrow> st = grpc_ok" by code_simp
  ultimately show ?thesis using send_retries_exactly by (fastforce split: option.splits)
qed

text \<open>
  C34. A call whose context was cancelled, or has already completed a call, never reaches the
  network: \<^verbatim>\<open>Open\<close> on such a context sends no command to the transport, allocates nothing,
  and yields a terminal call with status CANCELLED.
\<close>

theorem open_refused_when_cancelled:
  assumes "cc_cancelled (c_ctx s) \<or> cc_terminal (c_ctx s)" and "idle (c_tr s)"
    and "bc_Open p now i path c owner s bs = Some (s', bs')"
  shows "t_log (c_tr s') = [] \<and> c_heap s' = c_heap s \<and> b_terminal (c_call s') \<and>
    g_code (b_status (c_call s')) = CANCELLED"
  using assms(3,2)
proof (cases rule: slot.Open_cases)
  case (refused s1 bs1)
  define x where "x = fst (bc_SetTerminal (grpc_status CANCELLED ''call cancelled before start'') [] s1 bs1)"
  have "t_log (c_tr x) = []" "c_heap x = c_heap s" "is_terminal x" "g_code (b_status (c_call x)) = CANCELLED"
    using SetTerminal_unopened [OF refused(2)] SetTerminal_pending [OF refused(2,4)] refused(5)
    by (simp_all add: x_def unopened_def idle_def is_terminal_SetTerminal grpc_status_def)
  moreover have "s' = x" using refused(6) by (metis fst_conv x_def)
  ultimately show ?thesis by (simp add: is_terminal_def)
qed (use assms(1) in auto)

definition sample_cancelled :: cstate where
  "sample_cancelled = sample_start\<lparr>c_ctx := fst (TryCancel (\<lambda>i. False) (c_ctx sample_start))\<rparr>"

theorem open_refused_when_cancelled_witness:
  "case bc_Open 64 0 7 ''/s/m'' Identity True sample_cancelled [] of None \<Rightarrow> False
   | Some (s', bs') \<Rightarrow> t_log (c_tr s') = [] \<and> g_code (b_status (c_call s')) = CANCELLED"
proof -
  have c: "cc_cancelled (c_ctx sample_cancelled) \<or> cc_terminal (c_ctx sample_cancelled)" by code_simp
  have i: "idle (c_tr sample_cancelled)" by (simp add: sample_cancelled_def sample_start_def idle_init)
  have "\<not> Option.is_none (bc_Open 64 0 7 ''/s/m'' Identity True sample_cancelled [])" by code_simp
  with open_refused_when_cancelled [OF c i] show ?thesis by (auto simp: Option.is_none_def split: option.splits)
qed

lemma open_logged:
  assumes "unopened s"
  shows "app_log (snd (open_stream path sopts s)) =
    [(K_open path (c_stream_options sopts), fst (open_stream path sopts s))]"
  using assms
  by (cases rule: open_effect [of s path sopts])
    (use assms in \<open>auto simp: app_log_def unopened_def idle_def c_cancel_def Error_ok_def\<close>)

lemma open_in_app_log: "(K_open m opts, e) \<in> set (t_log (c_tr s)) \<Longrightarrow> (K_open m opts, e) \<in> set (app_log s)"
  by (simp add: app_log_def)

text \<open>
  C17. A call is opened with the request its context describes. If \<^verbatim>\<open>Open\<close> sent an open command,
  it is the only command of the log besides a cancellation, it names the method, and it carries
  exactly the metadata of the context in iteration order, the compression of the call, and the
  timeout computed from the deadline of the context. On every path, errors included, the
  temporary metadata object is released: the number of live blocks is as before.
\<close>

theorem open_passes_request:
  assumes "idle (c_tr s)" and "bc_Open p now i path c owner s bs = Some (s', bs')"
  shows "h_live (c_heap s') = h_live (c_heap s) \<and>
    (\<forall>m opts e. (K_open m opts, e) \<in> set (t_log (c_tr s')) \<longrightarrow>
       app_log s' = [(K_open m opts, e)] \<and> m = path \<and> co_metadata opts = Some (cc_metadata (c_ctx s)) \<and>
       co_send_compression opts = Compression_value c \<and>
       open_timeout p now (c_ctx s) = Some (co_has_timeout opts \<noteq> 0, co_timeout_ns opts))"
  using assms(2,1)
proof (cases rule: slot.Open_cases)
  case (refused s1 bs1)
  then show ?thesis
    using SetTerminal_unopened [OF refused(2)] by (auto simp: unopened_def idle_def dest!: arg_cong [of _ _ fst])
next
  case (no_metadata e m h s1 bs1)
  then show ?thesis
    using SetTerminal_unopened [OF no_metadata(3)] CopyMetadata_balanced(1) [OF no_metadata(7)]
    by (auto simp: unopened_def idle_def open_exit_def split_beta dest!: arg_cong [of _ _ fst])
next
  case (streamed m h timeout s1 bs1 e s2)
  have "m = Some (cc_metadata (c_ctx s))" by (rule CopyMetadata_balanced(2) [OF streamed(6)]) simp
  define opts where "opts = c_stream_options (open_options m c timeout)"
  have o: "app_log s2 = [(K_open path opts, e)]" "c_heap s2 = h"
    using open_logged [OF streamed(3), of path "open_options m c timeout"] streamed(7,9)
      open_stream_heap [of path "open_options m c timeout" s1] by (auto simp: opts_def)
  have "app_log s' = [(K_open path opts, e)]" "h_live (c_heap s') = h_live (c_heap s)"
    using streamed(10) o CopyMetadata_balanced(1) [OF streamed(6)]
      log_at_SetTerminal [of "b_stream (c_call s2)" "app_log s2" s2 "ErrorStatus e" "[]" bs1]
    by (auto simp: open_exit_def split_beta log_at_def app_log_def split: if_splits)
  moreover have "co_metadata opts = m" "co_send_compression opts = Compression_value c"
    "timeout = (co_has_timeout opts \<noteq> 0, co_timeout_ns opts)"
    by (auto simp: opts_def c_stream_options_def open_options_def prod_eq_iff)
  ultimately show ?thesis using streamed(8) \<open>m = _\<close> by (auto dest!: open_in_app_log)
qed

theorem open_passes_request_witness:
  "idle (c_tr sample_start) \<and> h_live (c_heap sample_call) = 0 \<and>
   (case app_log sample_call of [(K_open m opts, e)] \<Rightarrow> co_metadata opts = Some [(''k'', ''v'')] | _ \<Rightarrow> False)"
proof -
  have i: "idle (c_tr sample_start)" by (simp add: sample_start_def idle_init)
  have "bc_Open 64 0 7 ''/s/m'' Identity True sample_start [] = Some (sample_call, [])"
    using sample_opens by (auto simp: sample_call_def split: option.splits)
  note p = open_passes_request [OF i this]
  have v: "h_live (c_heap sample_start) = 0" "cc_metadata (c_ctx sample_start) = [(''k'', ''v'')]"
    by code_simp+
  have "list_ex (\<lambda>x. case fst x of K_open m opts \<Rightarrow> True | _ \<Rightarrow> False) (t_log (c_tr sample_call))" by code_simp
  then obtain m opts e where "(K_open m opts, e) \<in> set (t_log (c_tr sample_call))"
    by (auto simp: list_ex_iff split: stream_cmd.splits) (metis stream_cmd.exhaust)
  with p v i show ?thesis by auto
qed

lemma cancel_pending:
  assumes "c_pending_cancels s > 0 \<or> b_terminal (c_call s) \<or> b_cancel_requested (c_call s)"
  shows "c_pending_cancels (fst (bc_handle e s)) > 0 \<or> b_terminal (c_call (fst (bc_handle e s))) \<or>
    b_cancel_requested (c_call (fst (bc_handle e s)))"
  using assms by (cases e) (auto simp: call_section_defs Let_def split: option.splits)

lemma terminal_by_event:
  "b_terminal (c_call (fst (deliver bc_handle es s))) \<Longrightarrow>
   b_terminal (c_call s) \<or> (\<exists>code msg trailers. E_terminal code msg trailers \<in> set es)"
proof (induction es arbitrary: s)
  case (Cons e es)
  have "b_terminal (c_call s) \<or> (\<exists>code msg trailers. e = E_terminal code msg trailers)"
    if "b_terminal (c_call (fst (bc_handle e s)))"
    using that
    by (cases e) (auto simp: call_section_defs Let_def
        split: option.splits if_splits)
  with Cons show ?case by (auto simp: Let_def split_beta simp del: bc_handle.simps bc_handle_simps)
qed simp



text \<open>Which context and which call the application sees do not change.\<close>

definition mine :: "cstate \<Rightarrow> bool" where
  "mine s \<longleftrightarrow> slot_ok s \<and> b_has_context (c_call s) \<and>
     cc_lock (c_alive s) (c_ctx s) \<in> {None, Some (b_id (c_call s))}"

lemma mine_handle: "mine s \<Longrightarrow> mine (fst (bc_handle e s))"
  using slot_ok_handle [of s e]
  by (cases e) (auto simp: mine_def cc_lock_def call_section_defs Let_def split: option.splits if_splits)

definition completed :: "entry list \<Rightarrow> cstate \<Rightarrow> bool" where
  "completed trailing s \<longleftrightarrow> cc_terminal (c_ctx s) \<and> cc_target (c_ctx s) = None \<and>
     cc_trailing_metadata (c_ctx s) = trailing"

lemma completed_handle: "completed md s \<Longrightarrow> completed md (fst (bc_handle e s))"
  by (cases e) (auto simp: completed_def call_section_defs Let_def split: option.splits if_splits)

lemma completed_complete: "mine s \<Longrightarrow> completed trailing (complete_call initial trailing s)"
  by (auto simp: mine_def completed_def complete_call_def CompleteCall_def split: option.splits)

lemma completed_frames:
  "completed md (detach_stream s) = completed md s" "completed md (release_stream stream s) = completed md s"
  by (simp_all add: completed_def detach_stream_def release_stream_def)

lemma completed_destroy: "completed md s \<Longrightarrow> completed md (fst (bc_DestroyStream s bs))"
  by (rule destroy_inv) (use completed_handle in \<open>auto simp: completed_frames\<close>)

lemma outcome_destroy: "outcome_is st md s \<Longrightarrow> outcome_is st md (fst (bc_DestroyStream s bs))"
  by (meson outcome.destroy outcome_is_def is_terminal_def)

lemma mine_preempt: "mine s \<Longrightarrow> mine (fst (bc_preempt s bs))"
  by (rule preempt_inv) (use mine_handle in auto)

lemma mine_wait: "bc_wait p s bs = Some (s', bs') \<Longrightarrow> mine s \<Longrightarrow> mine s'"
  unfolding bc_wait_def split_beta Let_def
  by (rule cv_wait_inv [where I = mine]) (use mine_handle mine_preempt in auto)

text \<open>
  C35. \<^verbatim>\<open>Finish\<close> completes the context. When the context still belongs to the call (or to none
  that is alive), a \<^verbatim>\<open>Finish\<close> that returns leaves the context terminal and without a target,
  publishes exactly the trailing metadata of the outcome, in key order with arrival order for
  equal keys, and makes every later \<^verbatim>\<open>TryCancel\<close> a no-op.
\<close>

theorem finish_completes_context:
  assumes "call_run s rs" and "bc_Finish s bs = Some (st, s', bs')" and "b_has_context (c_call s)"
    and "cc_lock (c_alive s) (c_ctx s) \<in> {None, Some (b_id (c_call s))}"
  shows "cc_terminal (c_ctx s') \<and> cc_target (c_ctx s') = None \<and>
    cc_trailing_metadata (c_ctx s') = sort_key fst (b_trailing_metadata (c_call s')) \<and>
    TryCancel (c_alive s') (c_ctx s') = (c_ctx s', None)"
  using assms(2)
proof (rule Finish_steps)
  fix s1 bs1
  assume w: "bc_wait is_terminal s bs = Some (s1, bs1)"
    and s': "s' = fst (bc_DestroyStream
       (complete_call (mm_of_entries (b_initial_metadata (c_call s1)))
         (mm_of_entries (b_trailing_metadata (c_call s1))) (fst (bc_preempt s1 bs1)))
       (snd (bc_preempt s1 bs1)))"
  have slot: "slot_ok s1" using slot.waited [OF w] slot.run [OF assms(1)] .
  have "mine s" using slot.run [OF assms(1)] assms(3,4) by (simp add: mine_def)
  then have "mine (fst (bc_preempt s1 bs1))" using mine_wait [OF w] mine_preempt by blast
  then have "completed (mm_of_entries (b_trailing_metadata (c_call s1))) s'"
    unfolding s' by (intro completed_destroy completed_complete)
  moreover have "outcome_is (b_status (c_call s1)) (b_trailing_metadata (c_call s1)) s'"
    unfolding s' by (rule outcome_destroy, intro outcome.complete outcome.preempted)
      (use bc_wait_holds [OF w] slot in \<open>auto simp: outcome_is_def is_terminal_def\<close>)
  ultimately show ?thesis by (simp add: completed_def outcome_is_def mm_of_entries_eq TryCancel_def)
qed

theorem finish_completes_context_witness:
  "case bc_Finish sample_done [] of None \<Rightarrow> False
   | Some (st, s', bs') \<Rightarrow> cc_terminal (c_ctx s') \<and> TryCancel (c_alive s') (c_ctx s') = (c_ctx s', None)"
proof -
  have "b_has_context (c_call sample_done)" by code_simp
  moreover have "cc_lock (c_alive sample_done) (c_ctx sample_done) = Some (b_id (c_call sample_done))" by code_simp
  moreover have "\<not> Option.is_none (bc_Finish sample_done [])" by code_simp
  ultimately show ?thesis
    using finish_completes_context [OF sample_runs(2)]
    by (auto simp: Option.is_none_def split: option.splits)
qed

end
