(* ===== verification/Client_Calls.thy ===== *)
theory Client_Calls
  imports Call_Properties
begin

section \<open>Synchronous client calls\<close>

text \<open>
  The calls an application makes: \<^verbatim>\<open>grpc::Channel::CallUnary\<close> and \<^verbatim>\<open>OpenRawStream\<close>
  (\<^verbatim>\<open>grpcpp/channel.h\<close>), the typed entry points of generated stubs
  (\<^verbatim>\<open>grpcpp/impl/client_unary_call.h\<close>, \<^verbatim>\<open>client_streaming_call.h\<close>) and the stream classes
  \<^verbatim>\<open>ClientReader\<close>, \<^verbatim>\<open>ClientWriter\<close> and \<^verbatim>\<open>ClientReaderWriter\<close>
  (\<^verbatim>\<open>grpcpp/support/sync_stream.h\<close>).

  Protocol buffer messages are generated code: a message type is a type parameter, and
  \<^verbatim>\<open>SerializeToString\<close> and \<^verbatim>\<open>ParseFromArray\<close> are functions that may fail. A pointer is an
  option, \<^const>\<open>None\<close> being null. An operation returns \<^const>\<open>None\<close> when it blocks for the rest
  of the schedule, or when it would write through a null pointer.
\<close>

subsection \<open>Channels\<close>

record grpc_Channel =
  ch_construction_status :: GrpcStatus
  ch_compression :: Compression
  ch_ready :: bool

text \<open>What a call takes from its surroundings: the precision of \<^verbatim>\<open>long double\<close>, the clock, its number.\<close>

record call_env =
  e_precision :: nat
  e_now :: rat
  e_id :: nat

text \<open>
  The constructor: credentials are \<^const>\<open>None\<close> for null and otherwise tell whether they are
  insecure; \<open>create_managed\<close> is the result of creating the native channel.
\<close>

definition grpc_Channel_new ::
  "bool option \<Rightarrow> GrpcStatus \<Rightarrow> Compression \<Rightarrow> ErrorCode \<Rightarrow> grpc_Channel" where
  "grpc_Channel_new credentials arguments_status arguments_compression create_managed =
     (let ch = \<lparr>ch_construction_status = grpc_ok, ch_compression = Identity, ch_ready = False\<rparr> in
      if credentials = None \<or> credentials = Some False
      then ch\<lparr>ch_construction_status :=
                grpc_status UNIMPLEMENTED ''only insecure channel credentials are supported''\<rparr>
      else if \<not> g_is_ok arguments_status then ch\<lparr>ch_construction_status := arguments_status\<rparr>
      else if \<not> Error_ok create_managed then ch\<lparr>ch_construction_status := ErrorStatus create_managed\<rparr>
      else ch\<lparr>ch_compression := arguments_compression, ch_ready := True\<rparr>)"

definition ChannelInterface_OpenRawStream :: "call_env \<Rightarrow> bool \<Rightarrow> cstate \<Rightarrow> cstate" where
  "ChannelInterface_OpenRawStream env context s =
     bc_Failed (e_id env) context
       (grpc_status UNIMPLEMENTED ''channel does not support server streaming'') s"

text \<open>\<open>context\<close> tells whether the context pointer is not null.\<close>

definition OpenRawStream ::
  "grpc_Channel \<Rightarrow> call_env \<Rightarrow> string \<Rightarrow> bool \<Rightarrow> cstate \<Rightarrow> schedule \<Rightarrow> (cstate \<times> schedule) option" where
  "OpenRawStream ch env method context s bs =
     (if \<not> context
      then Some (bc_Failed (e_id env) False (grpc_status INVALID_ARGUMENT ''null client context'') s, bs)
      else if \<not> g_is_ok (ch_construction_status ch)
      then Some (bc_Failed (e_id env) True (ch_construction_status ch) s, bs)
      else bc_Open (e_precision env) (e_now env) (e_id env) method (ch_compression ch) True s bs)"

text \<open>\<^verbatim>\<open>Cancel\<close> called by the application thread.\<close>

definition cancel_now :: "cstate \<Rightarrow> schedule \<Rightarrow> cstate \<times> schedule" where
  "cancel_now s bs = (let (s1, bs1) = bc_preempt s bs in (bc_Cancel s1, bs1))"

definition cancel_if :: "bool \<Rightarrow> cstate \<Rightarrow> schedule \<Rightarrow> cstate \<times> schedule" where
  "cancel_if b s bs = (if b then cancel_now s bs else (s, bs))"

text \<open>\<^verbatim>\<open>status.ok() && state->Read(&payload)\<close>.\<close>

definition read_if_ok ::
  "GrpcStatus \<Rightarrow> cstate \<Rightarrow> schedule \<Rightarrow> ((bool \<times> string option) \<times> cstate \<times> schedule) option" where
  "read_if_ok status s bs =
     (if g_is_ok status then bc_Read (Some []) s bs else Some ((False, Some []), s, bs))"

text \<open>The last lines of \<^verbatim>\<open>CallUnary\<close>: the status and the response it leaves.\<close>

definition unary_result ::
  "bool \<Rightarrow> bool \<Rightarrow> GrpcStatus \<Rightarrow> string option \<Rightarrow> string option \<Rightarrow> GrpcStatus \<times> string option" where
  "unary_result has_extra_response has_response status payload response =
     (if has_extra_response
      then (grpc_status INTERNAL ''unary call returned multiple responses'', response)
      else if \<not> g_is_ok status then (status, response)
      else if \<not> has_response then (grpc_status INTERNAL ''unary response is missing'', response)
      else (grpc_ok, payload))"

definition CallUnary ::
  "grpc_Channel \<Rightarrow> call_env \<Rightarrow> string \<Rightarrow> bool \<Rightarrow> string \<Rightarrow> string option \<Rightarrow> cstate \<Rightarrow> schedule \<Rightarrow>
   (GrpcStatus \<times> string option \<times> cstate \<times> schedule) option" where
  "CallUnary ch env method context request response s bs =
     (if \<not> g_is_ok (ch_construction_status ch) then Some (ch_construction_status ch, response, s, bs)
      else if \<not> context \<or> response = None
      then Some (grpc_status INVALID_ARGUMENT ''null unary call argument'', response, s, bs)
      else do {
        (s1, bs1) \<leftarrow> OpenRawStream ch env method context s bs;
        (status, s2, bs2) \<leftarrow> bc_SendAndClose request s1 bs1;
        ((has_response, payload), s3, bs3) \<leftarrow> read_if_ok status s2 bs2;
        ((has_extra_response, extra_payload), s4, bs4) \<leftarrow> read_if_ok status s3 bs3;
        let (s5, bs5) = cancel_if has_extra_response s4 bs4;
        (status, s6, bs6) \<leftarrow> bc_Finish s5 bs5;
        let (final, response') = unary_result has_extra_response has_response status payload response;
        Some (final, response', s6, bs6) })"

subsection \<open>Typed entry points\<close>

definition BlockingUnaryCall ::
  "('req \<Rightarrow> string option) \<Rightarrow> (string \<Rightarrow> 'resp option) \<Rightarrow> grpc_Channel option \<Rightarrow> call_env \<Rightarrow> string \<Rightarrow> bool \<Rightarrow>
   'req \<Rightarrow> 'resp option \<Rightarrow> cstate \<Rightarrow> schedule \<Rightarrow> (GrpcStatus \<times> 'resp option \<times> cstate \<times> schedule) option" where
  "BlockingUnaryCall serialize parse channel env method context request response s bs =
     (case channel of
        None \<Rightarrow> Some (grpc_status INVALID_ARGUMENT ''null unary call argument'', response, s, bs)
      | Some ch \<Rightarrow>
        if \<not> context \<or> Option.is_none response
        then Some (grpc_status INVALID_ARGUMENT ''null unary call argument'', response, s, bs)
        else case serialize request of
          None \<Rightarrow> Some (grpc_status INTERNAL ''failed to serialize request'', response, s, bs)
        | Some request_bytes \<Rightarrow> do {
            (status, response_bytes, s1, bs1) \<leftarrow>
              CallUnary ch env method context request_bytes (Some []) s bs;
            if \<not> g_is_ok status then Some (status, response, s1, bs1)
            else if INT_MAX < int (length (the response_bytes))
            then Some (grpc_status RESOURCE_EXHAUSTED ''response is too large to parse'', response, s1, bs1)
            else case parse (the response_bytes) of
              None \<Rightarrow> Some (grpc_status INTERNAL ''failed to parse response'', response, s1, bs1)
            | Some parsed_response \<Rightarrow> Some (status, Some parsed_response, s1, bs1) })"

text \<open>\<open>(result, message, parse_status)\<close>.\<close>

definition ParseMessage ::
  "(string \<Rightarrow> 'm option) \<Rightarrow> string \<Rightarrow> 'm option \<Rightarrow> GrpcStatus \<Rightarrow> string \<Rightarrow>
   (bool \<times> 'm option \<times> GrpcStatus) option" where
  "ParseMessage parse payload message parse_status description =
     (if INT_MAX < int (length payload)
      then Some (False, message, grpc_status RESOURCE_EXHAUSTED (description @ '' is too large to parse''))
      else case parse payload of
        None \<Rightarrow> Some (False, message, grpc_status INTERNAL (''failed to parse '' @ description))
      | Some parsed \<Rightarrow>
          (case message of None \<Rightarrow> None | Some _ \<Rightarrow> Some (True, Some parsed, parse_status)))"

text \<open>\<open>(result, write_status)\<close>.\<close>

definition WriteMessage ::
  "('m \<Rightarrow> string option) \<Rightarrow> 'm \<Rightarrow> cstate \<Rightarrow> schedule \<Rightarrow> ((bool \<times> GrpcStatus) \<times> cstate \<times> schedule) option" where
  "WriteMessage serialize message s bs =
     (case serialize message of
        None \<Rightarrow> Some ((False, grpc_status INTERNAL ''failed to serialize request''), cancel_now s bs)
      | Some payload \<Rightarrow> do {
          (write_status, s1, bs1) \<leftarrow> bc_Send payload s bs;
          Some ((g_is_ok write_status, write_status), s1, bs1) })"

subsection \<open>ClientReader\<close>

record ClientReader =
  r_final_status :: GrpcStatus
  r_parse_status :: GrpcStatus
  r_read_exhausted :: bool
  r_finished :: bool

definition ClientReader_new :: ClientReader where
  "ClientReader_new =
     \<lparr>r_final_status = grpc_ok, r_parse_status = grpc_ok, r_read_exhausted = False, r_finished = False\<rparr>"

definition ClientReader_Read ::
  "(string \<Rightarrow> 'm option) \<Rightarrow> 'm option \<Rightarrow> ClientReader \<Rightarrow> cstate \<Rightarrow> schedule \<Rightarrow>
   ((bool \<times> 'm option) \<times> ClientReader \<times> cstate \<times> schedule) option" where
  "ClientReader_Read parse response r s bs =
     (if Option.is_none response \<or> r_finished r \<or> \<not> g_is_ok (r_parse_status r)
      then Some ((False, response), r, s, bs)
      else do {
        ((ok, payload), s1, bs1) \<leftarrow> bc_Read (Some []) s bs;
        if \<not> ok then Some ((False, response), r\<lparr>r_read_exhausted := True\<rparr>, s1, bs1)
        else do {
          (parsed, response', parse_status) \<leftarrow>
            ParseMessage parse (the payload) response (r_parse_status r) ''response'';
          if \<not> parsed
          then Some ((False, response'), r\<lparr>r_parse_status := parse_status\<rparr>, cancel_now s1 bs1)
          else Some ((True, response'), r\<lparr>r_parse_status := parse_status\<rparr>, s1, bs1) } })"

definition ClientReader_Finish ::
  "ClientReader \<Rightarrow> cstate \<Rightarrow> schedule \<Rightarrow> (GrpcStatus \<times> ClientReader \<times> cstate \<times> schedule) option" where
  "ClientReader_Finish r s bs =
     (if r_finished r then Some (r_final_status r, r, s, bs)
      else do {
        let (s1, bs1) = cancel_if (\<not> r_read_exhausted r) s bs;
        (status, s2, bs2) \<leftarrow> bc_Finish s1 bs1;
        let final = (if \<not> g_is_ok (r_parse_status r) then r_parse_status r else status) in
        Some (final, r\<lparr>r_final_status := final, r_finished := True\<rparr>, s2, bs2) })"

definition ClientReader_destroy ::
  "ClientReader \<Rightarrow> cstate \<Rightarrow> schedule \<Rightarrow> (cstate \<times> schedule) option" where
  "ClientReader_destroy r s bs =
     (if r_finished r then Some (s, bs)
      else do {
        let (s1, bs1) = cancel_now s bs;
        (status, r', s2, bs2) \<leftarrow> ClientReader_Finish r s1 bs1;
        Some (s2, bs2) })"

definition BlockingServerStreamingCall ::
  "('req \<Rightarrow> string option) \<Rightarrow> grpc_Channel option \<Rightarrow> call_env \<Rightarrow> string \<Rightarrow> bool \<Rightarrow> 'req \<Rightarrow> cstate \<Rightarrow> schedule \<Rightarrow>
   (ClientReader \<times> cstate \<times> schedule) option" where
  "BlockingServerStreamingCall serialize channel env method context request s bs =
     (case channel of
        None \<Rightarrow> Some (ClientReader_new, bc_Failed (e_id env) context
                  (grpc_status INVALID_ARGUMENT ''null server streaming call argument'') s, bs)
      | Some ch \<Rightarrow>
        if \<not> context
        then Some (ClientReader_new, bc_Failed (e_id env) context
               (grpc_status INVALID_ARGUMENT ''null server streaming call argument'') s, bs)
        else case serialize request of
          None \<Rightarrow> Some (ClientReader_new, bc_Failed (e_id env) context
                    (grpc_status INTERNAL ''failed to serialize request'') s, bs)
        | Some request_bytes \<Rightarrow> do {
            (s1, bs1) \<leftarrow> OpenRawStream ch env method context s bs;
            (status, s2, bs2) \<leftarrow> bc_SendAndClose request_bytes s1 bs1;
            Some (ClientReader_new, s2, bs2) })"

subsection \<open>ClientWriter\<close>

record 'm ClientWriter =
  w_response :: "'m option"
  w_final_status :: GrpcStatus
  w_write_status :: GrpcStatus
  w_parse_status :: GrpcStatus
  w_writes_done :: bool
  w_finished :: bool

definition ClientWriter_new :: "'m option \<Rightarrow> 'm ClientWriter" where
  "ClientWriter_new response =
     \<lparr>w_response = response, w_final_status = grpc_ok, w_write_status = grpc_ok,
      w_parse_status = grpc_ok, w_writes_done = False, w_finished = False\<rparr>"

definition ClientWriter_Write ::
  "('req \<Rightarrow> string option) \<Rightarrow> 'req \<Rightarrow> 'm ClientWriter \<Rightarrow> cstate \<Rightarrow> schedule \<Rightarrow>
   (bool \<times> 'm ClientWriter \<times> cstate \<times> schedule) option" where
  "ClientWriter_Write serialize request w s bs =
     (if w_writes_done w \<or> w_finished w \<or> \<not> g_is_ok (w_write_status w) then Some (False, w, s, bs)
      else do {
        ((ok, write_status), s1, bs1) \<leftarrow> WriteMessage serialize request s bs;
        Some (ok, w\<lparr>w_write_status := write_status\<rparr>, s1, bs1) })"

definition ClientWriter_WritesDone ::
  "'m ClientWriter \<Rightarrow> cstate \<Rightarrow> schedule \<Rightarrow> (bool \<times> 'm ClientWriter \<times> cstate \<times> schedule) option" where
  "ClientWriter_WritesDone w s bs =
     (if w_finished w then Some (False, w, s, bs)
      else if w_writes_done w then Some (g_is_ok (w_write_status w), w, s, bs)
      else if \<not> g_is_ok (w_write_status w) then Some (False, w\<lparr>w_writes_done := True\<rparr>, s, bs)
      else do {
        (status, s1, bs1) \<leftarrow> bc_CloseSend s bs;
        Some (g_is_ok status, w\<lparr>w_writes_done := True, w_write_status := status\<rparr>, s1, bs1) })"

text \<open>The block of \<^verbatim>\<open>Finish\<close> that receives the one response: the writer and \<open>response_missing\<close>.\<close>

definition receive_response ::
  "(string \<Rightarrow> 'm option) \<Rightarrow> 'm ClientWriter \<Rightarrow> cstate \<Rightarrow> schedule \<Rightarrow>
   (bool \<times> 'm ClientWriter \<times> cstate \<times> schedule) option" where
  "receive_response parse w s bs =
     (if \<not> g_is_ok (w_write_status w) then Some (False, w, s, bs)
      else do {
        ((ok, payload), s1, bs1) \<leftarrow> bc_Read (Some []) s bs;
        if \<not> ok then Some (True, w, s1, bs1)
        else do {
          (parsed, response', parse_status) \<leftarrow>
            ParseMessage parse (the payload) (w_response w) (w_parse_status w) ''response'';
          let w1 = w\<lparr>w_response := response', w_parse_status := parse_status\<rparr> in
          if \<not> parsed then Some (False, w1, cancel_now s1 bs1)
          else do {
            ((more, extra), s2, bs2) \<leftarrow> bc_Read (Some []) s1 bs1;
            if more
            then Some (False, w1\<lparr>w_parse_status := grpc_status INTERNAL
                         ''client streaming call returned multiple responses''\<rparr>, cancel_now s2 bs2)
            else Some (False, w1, s2, bs2) } } })"

definition ClientWriter_Finish ::
  "(string \<Rightarrow> 'm option) \<Rightarrow> 'm ClientWriter \<Rightarrow> cstate \<Rightarrow> schedule \<Rightarrow>
   (GrpcStatus \<times> 'm ClientWriter \<times> cstate \<times> schedule) option" where
  "ClientWriter_Finish parse w s bs =
     (if w_finished w then Some (w_final_status w, w, s, bs)
      else do {
        (done, w1, s1, bs1) \<leftarrow>
          (if \<not> w_writes_done w then ClientWriter_WritesDone w s bs else Some (True, w, s, bs));
        (response_missing, w2, s2, bs2) \<leftarrow> receive_response parse w1 s1 bs1;
        (status, s3, bs3) \<leftarrow> bc_Finish s2 bs2;
        let final = (if \<not> g_is_ok (w_write_status w2) then w_write_status w2 else status);
            final = (if \<not> g_is_ok (w_parse_status w2) then w_parse_status w2
                     else if response_missing \<and> g_is_ok final
                     then grpc_status INTERNAL ''client streaming response is missing'' else final)
        in Some (final, w2\<lparr>w_final_status := final, w_finished := True\<rparr>, s3, bs3) })"

definition ClientWriter_destroy ::
  "(string \<Rightarrow> 'm option) \<Rightarrow> 'm ClientWriter \<Rightarrow> cstate \<Rightarrow> schedule \<Rightarrow> (cstate \<times> schedule) option" where
  "ClientWriter_destroy parse w s bs =
     (if w_finished w then Some (s, bs)
      else do {
        let (s1, bs1) = cancel_now s bs;
        (status, w', s2, bs2) \<leftarrow> ClientWriter_Finish parse w s1 bs1;
        Some (s2, bs2) })"

definition BlockingClientStreamingCall ::
  "grpc_Channel option \<Rightarrow> call_env \<Rightarrow> string \<Rightarrow> bool \<Rightarrow> 'm option \<Rightarrow> cstate \<Rightarrow> schedule \<Rightarrow>
   ('m ClientWriter \<times> cstate \<times> schedule) option" where
  "BlockingClientStreamingCall channel env method context response s bs =
     (case channel of
        None \<Rightarrow> Some (ClientWriter_new response, bc_Failed (e_id env) context
                  (grpc_status INVALID_ARGUMENT ''null client streaming call argument'') s, bs)
      | Some ch \<Rightarrow>
        if \<not> context \<or> Option.is_none response
        then Some (ClientWriter_new response, bc_Failed (e_id env) context
               (grpc_status INVALID_ARGUMENT ''null client streaming call argument'') s, bs)
        else do {
          (s1, bs1) \<leftarrow> OpenRawStream ch env method context s bs;
          Some (ClientWriter_new response, s1, bs1) })"

subsection \<open>ClientReaderWriter\<close>

record ClientReaderWriter =
  rw_final_status :: GrpcStatus
  rw_write_status :: GrpcStatus
  rw_parse_status :: GrpcStatus
  rw_writes_done :: bool
  rw_read_exhausted :: bool
  rw_finished :: bool

definition ClientReaderWriter_new :: ClientReaderWriter where
  "ClientReaderWriter_new =
     \<lparr>rw_final_status = grpc_ok, rw_write_status = grpc_ok, rw_parse_status = grpc_ok,
      rw_writes_done = False, rw_read_exhausted = False, rw_finished = False\<rparr>"

definition ClientReaderWriter_Write ::
  "('req \<Rightarrow> string option) \<Rightarrow> 'req \<Rightarrow> ClientReaderWriter \<Rightarrow> cstate \<Rightarrow> schedule \<Rightarrow>
   (bool \<times> ClientReaderWriter \<times> cstate \<times> schedule) option" where
  "ClientReaderWriter_Write serialize request w s bs =
     (if rw_writes_done w \<or> rw_finished w \<or> \<not> g_is_ok (rw_write_status w) then Some (False, w, s, bs)
      else do {
        ((ok, write_status), s1, bs1) \<leftarrow> WriteMessage serialize request s bs;
        Some (ok, w\<lparr>rw_write_status := write_status\<rparr>, s1, bs1) })"

definition ClientReaderWriter_WritesDone ::
  "ClientReaderWriter \<Rightarrow> cstate \<Rightarrow> schedule \<Rightarrow> (bool \<times> ClientReaderWriter \<times> cstate \<times> schedule) option" where
  "ClientReaderWriter_WritesDone w s bs =
     (if rw_finished w then Some (False, w, s, bs)
      else if rw_writes_done w then Some (g_is_ok (rw_write_status w), w, s, bs)
      else if \<not> g_is_ok (rw_write_status w) then Some (False, w\<lparr>rw_writes_done := True\<rparr>, s, bs)
      else do {
        (status, s1, bs1) \<leftarrow> bc_CloseSend s bs;
        Some (g_is_ok status, w\<lparr>rw_writes_done := True, rw_write_status := status\<rparr>, s1, bs1) })"

definition ClientReaderWriter_Read ::
  "(string \<Rightarrow> 'm option) \<Rightarrow> 'm option \<Rightarrow> ClientReaderWriter \<Rightarrow> cstate \<Rightarrow> schedule \<Rightarrow>
   ((bool \<times> 'm option) \<times> ClientReaderWriter \<times> cstate \<times> schedule) option" where
  "ClientReaderWriter_Read parse response w s bs =
     (if Option.is_none response \<or> rw_finished w \<or> \<not> g_is_ok (rw_parse_status w)
      then Some ((False, response), w, s, bs)
      else do {
        ((ok, payload), s1, bs1) \<leftarrow> bc_Read (Some []) s bs;
        if \<not> ok then Some ((False, response), w\<lparr>rw_read_exhausted := True\<rparr>, s1, bs1)
        else do {
          (parsed, response', parse_status) \<leftarrow>
            ParseMessage parse (the payload) response (rw_parse_status w) ''response'';
          if \<not> parsed
          then Some ((False, response'), w\<lparr>rw_parse_status := parse_status\<rparr>, cancel_now s1 bs1)
          else Some ((True, response'), w\<lparr>rw_parse_status := parse_status\<rparr>, s1, bs1) } })"

definition ClientReaderWriter_Finish ::
  "ClientReaderWriter \<Rightarrow> cstate \<Rightarrow> schedule \<Rightarrow> (GrpcStatus \<times> ClientReaderWriter \<times> cstate \<times> schedule) option" where
  "ClientReaderWriter_Finish w s bs =
     (if rw_finished w then Some (rw_final_status w, w, s, bs)
      else do {
        (done, w1, s1, bs1) \<leftarrow>
          (if \<not> rw_writes_done w then ClientReaderWriter_WritesDone w s bs else Some (True, w, s, bs));
        let (s2, bs2) = cancel_if (\<not> rw_read_exhausted w1) s1 bs1;
        (status, s3, bs3) \<leftarrow> bc_Finish s2 bs2;
        let final = (if \<not> g_is_ok (rw_write_status w1) then rw_write_status w1 else status);
            final = (if \<not> g_is_ok (rw_parse_status w1) then rw_parse_status w1 else final)
        in Some (final, w1\<lparr>rw_final_status := final, rw_finished := True\<rparr>, s3, bs3) })"

definition ClientReaderWriter_destroy ::
  "ClientReaderWriter \<Rightarrow> cstate \<Rightarrow> schedule \<Rightarrow> (cstate \<times> schedule) option" where
  "ClientReaderWriter_destroy w s bs =
     (if rw_finished w then Some (s, bs)
      else do {
        let (s1, bs1) = cancel_now s bs;
        (status, w', s2, bs2) \<leftarrow> ClientReaderWriter_Finish w s1 bs1;
        Some (s2, bs2) })"

definition BlockingBidiStreamingCall ::
  "grpc_Channel option \<Rightarrow> call_env \<Rightarrow> string \<Rightarrow> bool \<Rightarrow> cstate \<Rightarrow> schedule \<Rightarrow>
   (ClientReaderWriter \<times> cstate \<times> schedule) option" where
  "BlockingBidiStreamingCall channel env method context s bs =
     (case channel of
        None \<Rightarrow> Some (ClientReaderWriter_new, bc_Failed (e_id env) context
                  (grpc_status INVALID_ARGUMENT ''null bidirectional call argument'') s, bs)
      | Some ch \<Rightarrow>
        if \<not> context
        then Some (ClientReaderWriter_new, bc_Failed (e_id env) context
               (grpc_status INVALID_ARGUMENT ''null bidirectional call argument'') s, bs)
        else do {
          (s1, bs1) \<leftarrow> OpenRawStream ch env method context s bs;
          Some (ClientReaderWriter_new, s1, bs1) })"

subsection \<open>Runs through the wrappers\<close>

lemma run_preempt: "call_run s rs \<Longrightarrow> call_run (fst (bc_preempt s bs)) rs"
  by (rule preempt_inv [where I = "\<lambda>s. call_run s rs"])
    (metis append_Nil2 call_run.step call_step.event, assumption)

lemma run_cancel: "call_run s rs \<Longrightarrow> call_run (fst (cancel_now s bs)) rs"
  using call_run.step [OF run_preempt [of s rs bs] call_step.cancelled]
  by (simp add: cancel_now_def split_beta)

lemma run_Send: "bc_Send payload s bs = Some (st, s', bs') \<Longrightarrow> call_run s rs \<Longrightarrow> call_run s' rs"
  by (metis append_Nil2 call_run.step call_step.sent)

lemma run_CloseSend: "bc_CloseSend s bs = Some (st, s', bs') \<Longrightarrow> call_run s rs \<Longrightarrow> call_run s' rs"
  by (metis append_Nil2 call_run.step call_step.closed)

lemma run_SendAndClose: "bc_SendAndClose payload s bs = Some (st, s', bs') \<Longrightarrow> call_run s rs \<Longrightarrow> call_run s' rs"
  by (auto simp: bc_SendAndClose_def bind_eq_Some_conv split: if_splits dest: run_Send run_CloseSend)

lemma run_Finish: "bc_Finish s bs = Some (st, s', bs') \<Longrightarrow> call_run s rs \<Longrightarrow> call_run s' rs"
  by (metis append_Nil2 call_run.step call_step.finished)

lemma run_Read:
  assumes "bc_Read (Some x) s bs = Some ((r, out), s', bs')" "call_run s rs"
  shows "\<exists>m. out = Some m \<and> call_run s' (if r then rs @ [m] else rs)"
    and "\<not> r \<Longrightarrow> is_terminal s' \<and> \<not> b_has_message (c_call s')"
proof -
  obtain s1 bs1 where w: "bc_wait readable s bs = Some (s1, bs1)"
    and r: "r = b_has_message (c_call s1)" "\<not> r \<Longrightarrow> s' = s1"
      "out = (if r then Some (b_message (c_call s1)) else Some x)"
    using assms(1) by (auto simp: bc_Read_def bind_eq_Some_conv split_beta Let_def split: if_splits)
  show "\<exists>m. out = Some m \<and> call_run s' (if r then rs @ [m] else rs)"
    using call_run.step [OF assms(2)] call_step.read [of "Some x" s bs] call_step.read_end [of "Some x" s bs]
      assms(1) r by (cases r) fastforce+
  show "is_terminal s' \<and> \<not> b_has_message (c_call s')" if "\<not> r"
    using bc_wait_holds [OF w] r that by (auto simp: readable_def is_terminal_def)
qed

lemma run_Open:
  assumes "OpenRawStream ch env method context s bs = Some (s', bs')" "idle (c_tr s)"
  shows "call_run s' []"
  using assms call_run.failed [OF assms(2)] call_run.opened [OF assms(2)]
  by (auto simp: OpenRawStream_def split: if_splits)

text \<open>A call that the transport ended receives no more messages.\<close>

definition quiet :: "cstate \<Rightarrow> bool" where
  "quiet s \<longleftrightarrow> slot_ok s \<and> \<not> b_has_message (c_call s) \<and> t_terminal (c_tr s)"

lemma quiet_handle: "quiet s \<Longrightarrow> quiet (fst (bc_handle e s))"
  using slot_ok_handle [of s e]
  by (cases e) (auto simp: quiet_def call_section_defs Let_def split: option.splits)

interpretation silence: reading_invariant quiet
proof (unfold_locales, goal_cases)
  case (2 s e)
  then show ?case by (rule quiet_handle)
next
  case (3 s st md)
  with slot.terminal [of s st md] show ?case by (auto simp: quiet_def set_terminal_call)
next
  case (4 s k)
  with command_effect [of k s] slot.command [of s k] show ?case by (auto simp: quiet_def)
next
  case (5 s)
  with resume_effect [of s] slot.resume [of s] show ?case by (auto simp: quiet_def Let_def split: if_splits)
next
  case (7 s bs)
  show ?case by (rule destroy_inv) (use 7 quiet_handle in \<open>auto simp: quiet_def slot_ok_def\<close>)
next
  case (8 s)
  then show ?case
    by (auto simp: quiet_def slot_ok_def bc_Cancel_def client_stream_defs Let_def split: option.splits)
qed (auto simp: quiet_def slot_ok_def)

text \<open>
  The end of a successful call: if no message waits in a terminal state and \<^verbatim>\<open>Finish\<close> returns
  OK, then the messages read are all the messages the transport delivered.
\<close>

lemma Finish_ok_complete:
  assumes "call_run s rs" "is_terminal s" "\<not> b_has_message (c_call s)"
    "bc_Finish s bs = Some (st, s', bs')" "g_is_ok st"
  shows "t_delivered (c_tr s') = rs"
proof -
  have sl: "slot_ok s" using assms(1) by (rule slot.run)
  obtain md where "outcome_is st md s'" by (rule Finish_result [OF assms(4) sl])
  moreover have "outcome_is (b_status (c_call s)) (b_trailing_metadata (c_call s)) s'"
    by (rule outcome.Finish [OF assms(4)]) (use assms(2) sl in \<open>simp add: outcome_is_def is_terminal_def\<close>)
  ultimately have "b_status (c_call s) = st" by (simp add: outcome_is_def)
  with assms(2,3,5) success.run [OF assms(1)] have "quiet s"
    by (auto simp: quiet_def ok_from_transport_def is_terminal_def)
  then have "quiet s'" by (rule silence.Finish [OF assms(4)])
  with fifo_run [OF run_Finish [OF assms(4,1)]] show ?thesis by (simp add: quiet_def fifo_def)
qed

lemma Finish_stream_gone:
  assumes "call_run s rs" "bc_Finish s bs = Some (st, s', bs')"
  shows "log_ok (t_log (c_tr s')) \<and> b_stream (c_call s') = None \<and>
    (\<forall>h < t_opened (c_tr s'). destroyed h (t_log (c_tr s')))"
  using Finish_stream [OF assms(2) ownership.run [OF assms(1)]] by (auto simp: owns_def owns_stream_def)

subsection \<open>Unary calls\<close>

text \<open>The read that is made only while the call is healthy.\<close>

lemma run_read_if_ok:
  assumes "read_if_ok status s bs = Some ((r, out), s', bs')" "call_run s rs"
  shows "\<exists>m. out = Some m \<and> call_run s' (if r then rs @ [m] else rs) \<and> (r \<longrightarrow> g_is_ok status) \<and>
    (g_is_ok status \<and> \<not> r \<longrightarrow> is_terminal s' \<and> \<not> b_has_message (c_call s'))"
  using assms run_Read [of "[]" s bs r out s' bs' rs] by (cases "g_is_ok status") (auto simp: read_if_ok_def)

lemma run_cancel_if: "call_run s rs \<Longrightarrow> call_run (fst (cancel_if b s bs)) rs"
  by (simp add: cancel_if_def run_cancel)

lemma CallUnary_unfold:
  assumes "CallUnary ch env method context request response s bs = Some (st, response', s', bs')"
    "g_is_ok (ch_construction_status ch)" "context" "response \<noteq> None"
  obtains s1 bs1 status s2 bs2 r out s3 bs3 r2 out2 s4 bs4 st1 where
    "OpenRawStream ch env method context s bs = Some (s1, bs1)"
    "bc_SendAndClose request s1 bs1 = Some (status, s2, bs2)"
    "read_if_ok status s2 bs2 = Some ((r, out), s3, bs3)"
    "read_if_ok status s3 bs3 = Some ((r2, out2), s4, bs4)"
    "bc_Finish (fst (cancel_if r2 s4 bs4)) (snd (cancel_if r2 s4 bs4)) = Some (st1, s', bs')"
    "unary_result r2 r st1 out response = (st, response')"
  using assms by (clarsimp simp: CallUnary_def bind_eq_Some_conv split_beta Let_def)

lemma CallUnary_steps:
  assumes "CallUnary ch env method context request response s bs = Some (st, response', s', bs')" "idle (c_tr s)"
  obtains (rejected) "\<not> g_is_ok st" "response' = response" "s' = s"
  | (finished) s5 bs5 rs st1 where "call_run s5 rs" "bc_Finish s5 bs5 = Some (st1, s', bs')"
      "g_is_ok st \<Longrightarrow> g_is_ok st1 \<and> st = grpc_ok \<and> is_terminal s5 \<and> \<not> b_has_message (c_call s5) \<and>
         (\<exists>payload. rs = [payload] \<and> response' = Some payload)"
      "\<not> g_is_ok st \<Longrightarrow> response' = response"
proof (cases "g_is_ok (ch_construction_status ch) \<and> context \<and> response \<noteq> None")
  case False
  with assms(1) show thesis by (intro rejected) (auto simp: CallUnary_def split: if_splits)
next
  case True
  then obtain s1 bs1 status s2 bs2 r out s3 bs3 r2 out2 s4 bs4 st1 where
    o: "OpenRawStream ch env method context s bs = Some (s1, bs1)" and
    c: "bc_SendAndClose request s1 bs1 = Some (status, s2, bs2)" and
    r1: "read_if_ok status s2 bs2 = Some ((r, out), s3, bs3)" and
    r2: "read_if_ok status s3 bs3 = Some ((r2, out2), s4, bs4)" and
    f: "bc_Finish (fst (cancel_if r2 s4 bs4)) (snd (cancel_if r2 s4 bs4)) = Some (st1, s', bs')" and
    e: "unary_result r2 r st1 out response = (st, response')"
    by (elim conjE) (rule CallUnary_unfold [OF assms(1)])
  have "call_run s2 []" by (rule run_SendAndClose [OF c run_Open [OF o assms(2)]])
  from run_read_if_ok [OF r1 this] obtain m where
    m: "out = Some m" "call_run s3 (if r then [] @ [m] else [])" "r \<longrightarrow> g_is_ok status" by blast
  from run_read_if_ok [OF r2 m(2)] obtain m2 where
    m2: "call_run s4 (if r2 then (if r then [] @ [m] else []) @ [m2] else if r then [] @ [m] else [])"
    "g_is_ok status \<and> \<not> r2 \<longrightarrow> is_terminal s4 \<and> \<not> b_has_message (c_call s4)" by blast
  show thesis
  proof (rule finished [OF run_cancel_if [OF m2(1)] f])
    assume "g_is_ok st"
    with e have "\<not> r2" "r" "g_is_ok st1" "st = grpc_ok" "response' = out"
      by (auto simp: unary_result_def split: if_splits)
    with m m2(2) show "g_is_ok st1 \<and> st = grpc_ok \<and> is_terminal (fst (cancel_if r2 s4 bs4)) \<and>
        \<not> b_has_message (c_call (fst (cancel_if r2 s4 bs4))) \<and>
        (\<exists>payload. (if r2 then (if r then [] @ [m] else []) @ [m2] else if r then [] @ [m] else []) = [payload] \<and>
           response' = Some payload)"
      by (simp add: cancel_if_def)
  next
    assume "\<not> g_is_ok st"
    with e show "response' = response" by (auto simp: unary_result_def split: if_splits)
  qed
qed

text \<open>
  C3. A unary call either succeeds completely or leaves the response alone. If \<^verbatim>\<open>CallUnary\<close>
  returns OK, the transport reported OK and delivered exactly one message, and that message is
  what the response now holds; if it returns anything else, the response was not written.
  Whenever it returns after opening, the stream it used has been destroyed, exactly once and
  with no command to it afterwards.
\<close>

theorem unary_call_outcome:
  assumes "CallUnary ch env method context request response s bs = Some (st, response', s', bs')"
    and "idle (c_tr s)"
  shows "(g_is_ok st \<longrightarrow> (\<exists>payload. response' = Some payload \<and> t_delivered (c_tr s') = [payload] \<and>
       b_terminal (c_call s') \<and> g_is_ok (b_status (c_call s')))) \<and>
    (\<not> g_is_ok st \<longrightarrow> response' = response) \<and>
    log_ok (t_log (c_tr s')) \<and> (\<forall>h < t_opened (c_tr s'). destroyed h (t_log (c_tr s')))"
  using assms
proof (cases rule: CallUnary_steps)
  case rejected
  with assms(2) show ?thesis by (simp add: idle_def)
next
  case (finished s5 bs5 rs st1)
  obtain md where "outcome_is st1 md s'" by (rule Finish_result [OF finished(2) slot.run [OF finished(1)]])
  with finished Finish_ok_complete [OF finished(1) _ _ finished(2)] Finish_stream_gone [OF finished(1,2)]
  show ?thesis by (auto simp: outcome_is_def)
qed

lemma bc_Open_schedule:
  "bc_Open p now i method c owner s bs = Some (s', bs') \<Longrightarrow> \<exists>n \<le> 3. bs' = drop n bs"
proof -
  assume "bc_Open p now i method c owner s bs = Some (s', bs')"
  then have "bs' = tl bs \<or> bs' = tl (tl bs) \<or> bs' = tl (tl (tl bs))"
    by (auto simp: bc_Open_def Let_def split_beta bind_eq_Some_conv open_exit_def bc_SetTerminal_def
        preempt_schedule split: if_splits)
  then show ?thesis
    by (metis One_nat_def Suc_le_eq drop0 drop_Suc numeral_2_eq_2 numeral_3_eq_3 order_refl zero_less_Suc
        le_SucI)
qed

lemma OpenRawStream_returns:
  assumes "64 \<le> e_precision env" "idle (c_tr s)"
  obtains s' n where "n \<le> 3" "OpenRawStream ch env method context s bs = Some (s', drop n bs)"
proof -
  define t where "t now c = the (open_timeout (e_precision env) now c)" for now c
  have t: "open_timeout (e_precision env) now c = Some (t now c)" for now c
    using open_timeout_total [OF assms(1)] by (simp add: t_def)
  have "bc_Open (e_precision env) now i method c owner s bs \<noteq> None" for now i c owner
    by (simp add: bc_Open_def Let_def split_beta t)
  then have "OpenRawStream ch env method context s bs \<noteq> None" by (simp add: OpenRawStream_def)
  then obtain s' bs' where o: "OpenRawStream ch env method context s bs = Some (s', bs')" by auto
  moreover have "\<exists>n \<le> 3. bs' = drop n bs"
    using o bc_Open_schedule by (auto simp: OpenRawStream_def split: if_splits intro: exI [of _ 0])
  ultimately show thesis using that by blast
qed

lemma promised_drop:
  assumes "e \<in> set b" "b \<in> set (drop m bs)" "n \<le> m"
  shows "promised p e s (drop n bs)"
  using assms set_drop_subset_set_drop [OF assms(3), of bs] by (auto simp: promised_def)

lemma read_if_ok_returns:
  assumes "ends e" "live_ok s" "promised is_terminal e s bs"
  obtains r out s' bs' where "read_if_ok st s bs = Some ((r, out), s', bs')" "promised is_terminal e s' bs'"
proof -
  from Read_returns [OF assms, of "Some []"] obtain r out s' bs' where
    "bc_Read (Some []) s bs = Some ((r, out), s', bs')" by auto
  with that assms Read_promised [OF this assms] show thesis
    by (cases "g_is_ok st") (auto simp: read_if_ok_def)
qed

lemma cancel_promised:
  assumes "ends e" "live_ok s" "promised is_terminal e s bs"
  shows "promised is_terminal e (fst (cancel_if b s bs)) (snd (cancel_if b s bs))"
proof -
  have "b_terminal (c_call (bc_Cancel x)) = b_terminal (c_call x)" for x
    by (simp add: bc_Cancel_def Let_def split: option.splits)
  with preempt_promise [OF assms] assms(3) show ?thesis
    by (auto simp: cancel_if_def cancel_now_def split_beta Let_def promised_def is_terminal_def)
qed

definition sample_channel :: grpc_Channel where
  "sample_channel = grpc_Channel_new (Some True) grpc_ok Identity EC_Ok"

definition sample_env :: call_env where
  "sample_env = \<lparr>e_precision = 64, e_now = 0, e_id = 7\<rparr>"

definition sample_schedule :: schedule where
  "sample_schedule = [[], [], [], [], [E_writable], [], [], [], [], [E_message ''pong'' Identity], [],
     [E_terminal 0 [] []]]"

theorem unary_call_outcome_witness:
  "case CallUnary sample_channel sample_env ''/s/m'' True ''ping'' (Some []) sample_start sample_schedule of
     None \<Rightarrow> False
   | Some (st, response, s', bs') \<Rightarrow> g_is_ok st \<and> response = Some ''pong'' \<and> t_delivered (c_tr s') = [''pong'']"
proof -
  have "case CallUnary sample_channel sample_env ''/s/m'' True ''ping'' (Some []) sample_start sample_schedule of
     None \<Rightarrow> False | Some (st, response, s', bs') \<Rightarrow> g_is_ok st \<and> response = Some ''pong''" by code_simp
  moreover have "idle (c_tr sample_start)" by (simp add: sample_start_def idle_init)
  ultimately show ?thesis using unary_call_outcome by (fastforce split: option.splits)
qed

text \<open>
  C19. A unary call always comes back. On any channel and with any arguments, with at least 64
  bits of precision in \<^verbatim>\<open>long double\<close>, if the transport delivers the terminal event at some
  point after the stream was opened (after the at most three critical sections of \<^verbatim>\<open>Open\<close>),
  \<^verbatim>\<open>CallUnary\<close> returns, whatever the transport answers to the commands and whatever else happens.
\<close>

theorem unary_call_returns:
  assumes "64 \<le> e_precision env" and "idle (c_tr s)"
    and "E_terminal code msg md \<in> set b" and "b \<in> set (drop 3 bs)"
  shows "CallUnary ch env method context request response s bs \<noteq> None"
proof (cases "g_is_ok (ch_construction_status ch) \<and> context \<and> response \<noteq> None")
  case False
  then show ?thesis by (auto simp: CallUnary_def)
next
  case True
  let ?e = "E_terminal code msg md"
  have e: "ends ?e" by simp
  obtain s1 n where n: "n \<le> 3" and o: "OpenRawStream ch env method context s bs = Some (s1, drop n bs)"
    by (rule OpenRawStream_returns [OF assms(1,2)])
  have p1: "promised is_terminal ?e s1 (drop n bs)" by (rule promised_drop [OF assms(3,4) n])
  have run1: "call_run s1 []" by (rule run_Open [OF o assms(2)])
  note l1 = live_run [OF run1]
  obtain status s2 bs2 where c: "bc_SendAndClose request s1 (drop n bs) = Some (status, s2, bs2)"
    using SendAndClose_returns [OF e l1 p1] by (metis option.exhaust prod_cases3)
  note p2 = SendAndClose_promised [OF c e l1 p1]
  have run2: "call_run s2 []" by (rule run_SendAndClose [OF c run1])
  obtain r out s3 bs3 where r1: "read_if_ok status s2 bs2 = Some ((r, out), s3, bs3)"
    and p3: "promised is_terminal ?e s3 bs3" by (rule read_if_ok_returns [OF e live_run [OF run2] p2])
  obtain rs3 where run3: "call_run s3 rs3" using run_read_if_ok [OF r1 run2] by blast
  obtain r2 out2 s4 bs4 where r2: "read_if_ok status s3 bs3 = Some ((r2, out2), s4, bs4)"
    and p4: "promised is_terminal ?e s4 bs4" by (rule read_if_ok_returns [OF e live_run [OF run3] p3])
  obtain rs4 where run4: "call_run s4 rs4" using run_read_if_ok [OF r2 run3] by blast
  have "bc_Finish (fst (cancel_if r2 s4 bs4)) (snd (cancel_if r2 s4 bs4)) \<noteq> None"
    by (rule Finish_returns [OF e live_run [OF run_cancel_if [OF run4]] cancel_promised [OF e live_run [OF run4] p4]])
  with True o c r1 r2 show ?thesis by (auto simp: CallUnary_def split_beta Let_def)
qed

theorem unary_call_returns_witness:
  "CallUnary sample_channel sample_env ''/s/m'' True ''ping'' (Some []) sample_start sample_schedule \<noteq> None"
proof -
  have "idle (c_tr sample_start)" by (simp add: sample_start_def idle_init)
  moreover have "E_terminal 0 [] [] \<in> set [E_terminal 0 [] []]" by simp
  moreover have "[E_terminal 0 [] []] \<in> set (drop 3 sample_schedule)" by (simp add: sample_schedule_def)
  moreover have "64 \<le> e_precision sample_env" by (simp add: sample_env_def)
  ultimately show ?thesis using unary_call_returns by blast
qed

subsection \<open>Streaming calls\<close>

lemma ParseMessage_result:
  assumes "ParseMessage parse payload message status d = Some (ok, message', status')"
  shows "if ok then \<exists>m. parse payload = Some m \<and> message' = Some m \<and> status' = status
    else message' = message \<and> \<not> g_is_ok status'"
  using assms by (auto simp: ParseMessage_def split: if_splits option.splits)

lemma run_WritesDone:
  assumes "ClientWriter_WritesDone w s bs = Some (r, w', s', bs')" "call_run s rs"
  shows "call_run s' rs" "w_response w' = w_response w" "w_parse_status w' = w_parse_status w"
  using assms by (auto simp: ClientWriter_WritesDone_def bind_eq_Some_conv split: if_splits dest: run_CloseSend)

text \<open>The three ways in which the response of a client stream can arrive.\<close>

lemma receive_response_steps:
  assumes "receive_response parse w s bs = Some (missing, w', s', bs')" "call_run s []"
    "g_is_ok (w_parse_status w)"
  obtains (skipped) "\<not> g_is_ok (w_write_status w)" "w' = w" "\<not> missing" "call_run s' []"
  | (missed) "g_is_ok (w_write_status w)" "missing" "w' = w" "call_run s' []"
  | (broken) rs where "\<not> g_is_ok (w_parse_status w')" "\<not> missing" "call_run s' rs"
      "w_write_status w' = w_write_status w"
  | (received) payload m where "g_is_ok (w_write_status w)" "\<not> missing" "parse payload = Some m"
      "w' = w\<lparr>w_response := Some m, w_parse_status := w_parse_status w\<rparr>" "call_run s' [payload]"
      "is_terminal s'" "\<not> b_has_message (c_call s')"
proof (cases "g_is_ok (w_write_status w)")
  case False
  with assms show thesis by (intro skipped) (auto simp: receive_response_def)
next
  case True
  from True assms(1) obtain ok payload s1 bs1 where r: "bc_Read (Some []) s bs = Some ((ok, payload), s1, bs1)"
    by (auto simp: receive_response_def bind_eq_Some_conv)
  from run_Read(1) [OF r assms(2)] obtain m1 where m1: "payload = Some m1" "call_run s1 (if ok then [m1] else [])"
    by (cases ok) auto
  show thesis
  proof (cases ok)
    case False
    with True r m1 assms(1) show thesis by (intro missed) (auto simp: receive_response_def)
  next
    case ok: True
    with True r m1 assms(1) obtain parsed m' st' where
      p: "ParseMessage parse m1 (w_response w) (w_parse_status w) ''response'' = Some (parsed, m', st')"
      by (auto simp: receive_response_def bind_eq_Some_conv)
    note pr = ParseMessage_result [OF p]
    have run1: "call_run s1 [m1]" using m1 ok by simp
    show thesis
    proof (cases parsed)
      case False
      with True r ok m1 p assms(1) have "w' = w\<lparr>w_response := m', w_parse_status := st'\<rparr>" "\<not> missing"
        "s' = fst (cancel_now s1 bs1)" by (auto simp: receive_response_def Let_def)
      with False pr run_cancel [OF run1] show thesis by (intro broken [of "[m1]"]) auto
    next
      case parsed: True
      with True r ok m1 p assms(1) obtain more extra s2 bs2 where
        r2: "bc_Read (Some []) s1 bs1 = Some ((more, extra), s2, bs2)"
        by (auto simp: receive_response_def Let_def bind_eq_Some_conv)
      from run_Read(1) [OF r2 run1] obtain m2 where run2: "call_run s2 (if more then [m1, m2] else [m1])"
        by (cases more) auto
      show thesis
      proof (cases more)
        case True
        with \<open>g_is_ok (w_write_status w)\<close> r ok m1 p parsed r2 assms(1)
        have "w' = w\<lparr>w_response := m', w_parse_status := grpc_status INTERNAL
            ''client streaming call returned multiple responses''\<rparr>" "\<not> missing" "s' = fst (cancel_now s2 bs2)"
          by (auto simp: receive_response_def Let_def)
        with True run_cancel [of s2 "[m1, m2]" bs2] run2 show thesis by (intro broken [of "[m1, m2]"]) auto
      next
        case False
        with \<open>g_is_ok (w_write_status w)\<close> r ok m1 p parsed r2 assms(1) pr
        have "w' = w\<lparr>w_response := m', w_parse_status := w_parse_status w\<rparr>" "\<not> missing" "s' = s2"
          by (auto simp: receive_response_def Let_def)
        with False \<open>g_is_ok (w_write_status w)\<close> run2 run_Read(2) [OF r2 run1] parsed pr show thesis
          by (intro received [of m1 "the m'"]) auto
      qed
    qed
  qed
qed

text \<open>
  C20. A client-streaming call delivers exactly one response. Whenever \<^verbatim>\<open>ClientWriter::Finish\<close>
  returns OK on a call of which nothing was read before, all writes succeeded, the transport
  reported OK and delivered exactly one message, and the response holds that message as parsed. A
  failed parse, a second message or a failed write takes precedence over the status of the
  transport. Finishing again returns the same status and does nothing, and the stream is gone.
\<close>

theorem client_writer_outcome:
  assumes "ClientWriter_Finish parse w s bs = Some (st, w', s', bs')" and "call_run s []"
    and "\<not> w_finished w" and "g_is_ok (w_parse_status w)"
  shows "(g_is_ok st \<longrightarrow> g_is_ok (w_write_status w') \<and> g_is_ok (b_status (c_call s')) \<and>
       (\<exists>payload m. t_delivered (c_tr s') = [payload] \<and> parse payload = Some m \<and> w_response w' = Some m)) \<and>
    (\<not> g_is_ok (w_parse_status w') \<longrightarrow> st = w_parse_status w') \<and>
    (g_is_ok (w_parse_status w') \<and> \<not> g_is_ok (w_write_status w') \<longrightarrow> st = w_write_status w') \<and>
    ClientWriter_Finish parse w' s2 bs2 = Some (st, w', s2, bs2) \<and>
    b_stream (c_call s') = None \<and> (\<forall>h < t_opened (c_tr s'). destroyed h (t_log (c_tr s')))"
proof -
  from assms(1,3) obtain r w1 s1 bs1 missing w2 s2' bs2' st1 where
    d: "(if \<not> w_writes_done w then ClientWriter_WritesDone w s bs else Some (True, w, s, bs)) =
      Some (r, w1, s1, bs1)" and
    m: "receive_response parse w1 s1 bs1 = Some (missing, w2, s2', bs2')" and
    f: "bc_Finish s2' bs2' = Some (st1, s', bs')" and
    st: "st = (if \<not> g_is_ok (w_parse_status w2) then w_parse_status w2
       else let x = (if \<not> g_is_ok (w_write_status w2) then w_write_status w2 else st1) in
         if missing \<and> g_is_ok x then grpc_status INTERNAL ''client streaming response is missing'' else x)" and
    w': "w' = w2\<lparr>w_final_status := st, w_finished := True\<rparr>"
    unfolding ClientWriter_Finish_def by (clarsimp simp: bind_eq_Some_conv Let_def)
  have 1: "call_run s1 []" "g_is_ok (w_parse_status w1)"
    using d assms(2,4) run_WritesDone [of w s bs r w1 s1 bs1 "[]"] by (auto split: if_splits)
  from m 1 obtain rs where run: "call_run s2' rs"
    by (cases rule: receive_response_steps) auto
  obtain md where out: "outcome_is st1 md s'" by (rule Finish_result [OF f slot.run [OF run]])
  have ok: "g_is_ok (w_write_status w') \<and> g_is_ok (b_status (c_call s')) \<and>
       (\<exists>payload m. t_delivered (c_tr s') = [payload] \<and> parse payload = Some m \<and> w_response w' = Some m)"
    if "g_is_ok st"
    using m 1
  proof (cases rule: receive_response_steps)
    case (received payload m)
    with that st have "g_is_ok st1" by (auto simp: Let_def split: if_splits)
    with received Finish_ok_complete [OF received(5,6,7) f] out w' show ?thesis by (auto simp: outcome_is_def)
  qed (use that st in \<open>auto simp: Let_def split: if_splits\<close>)
  show ?thesis
    using ok st w' Finish_stream_gone [OF run f]
    by (auto simp: ClientWriter_Finish_def Let_def split: if_splits)
qed

definition sample_finish :: schedule where
  "sample_finish = [[], [], [E_writable], [], [], [E_message ''pong'' Identity], [], [E_terminal 0 [] []]]"

theorem client_writer_outcome_witness:
  "case ClientWriter_Finish (\<lambda>p. Some (length p)) (ClientWriter_new (Some 0)) sample_call sample_finish of
     None \<Rightarrow> False
   | Some (st, w', s', bs') \<Rightarrow> st = grpc_ok \<and> w_response w' = Some 4 \<and>
       (\<exists>payload. t_delivered (c_tr s') = [payload] \<and> length payload = 4)"
proof -
  have "case ClientWriter_Finish (\<lambda>p. Some (length p)) (ClientWriter_new (Some 0)) sample_call sample_finish of
     None \<Rightarrow> False | Some (st, w', s', bs') \<Rightarrow> st = grpc_ok \<and> w_response w' = Some 4" by code_simp
  then obtain st w' s' bs' where run: "ClientWriter_Finish (\<lambda>p. Some (length p)) (ClientWriter_new (Some 0))
      sample_call sample_finish = Some (st, w', s', bs')" and st: "st = grpc_ok" "w_response w' = Some 4"
    by (auto split: option.splits)
  have "\<not> w_finished (ClientWriter_new (Some (0::nat)))"
    "g_is_ok (w_parse_status (ClientWriter_new (Some (0::nat))))" by (simp_all add: ClientWriter_new_def)
  from client_writer_outcome [OF run sample_run this] st run show ?thesis by auto
qed

lemma run_ClientReader_Read:
  assumes "ClientReader_Read parse response r s bs = Some ((ok, response'), r', s', bs')" "call_run s rs"
  shows "\<exists>ps. call_run s' (rs @ ps) \<and>
    (if ok then \<exists>payload m. ps = [payload] \<and> parse payload = Some m \<and> response' = Some m \<and> r' = r
     else response' = response \<and>
       (r' = r \<and> ps = [] \<and> (response = None \<or> r_finished r \<or> \<not> g_is_ok (r_parse_status r)) \<or>
        r' = r\<lparr>r_read_exhausted := True\<rparr> \<and> ps = [] \<and> is_terminal s' \<and> \<not> b_has_message (c_call s') \<or>
        (\<exists>payload st. ps = [payload] \<and> r' = r\<lparr>r_parse_status := st\<rparr> \<and> \<not> g_is_ok st \<and>
           (parse payload = None \<or> INT_MAX < int (length payload)))))"
proof (cases "Option.is_none response \<or> r_finished r \<or> \<not> g_is_ok (r_parse_status r)")
  case True
  with assms show ?thesis by (intro exI [of _ "[]"]) (auto simp: ClientReader_Read_def Option.is_none_def)
next
  case False
  with assms(1) obtain got payload s1 bs1 where r: "bc_Read (Some []) s bs = Some ((got, payload), s1, bs1)"
    by (auto simp: ClientReader_Read_def bind_eq_Some_conv)
  from run_Read [OF r assms(2)] obtain m where m: "payload = Some m" "call_run s1 (if got then rs @ [m] else rs)"
    "\<not> got \<longrightarrow> is_terminal s1 \<and> \<not> b_has_message (c_call s1)" by blast
  show ?thesis
  proof (cases got)
    case False
    with \<open>\<not> (_ \<or> _)\<close> r m assms(1) show ?thesis
      by (intro exI [of _ "[]"]) (auto simp: ClientReader_Read_def)
  next
    case True
    with \<open>\<not> (_ \<or> _)\<close> r m assms(1) obtain parsed m' st' where
      p: "ParseMessage parse m response (r_parse_status r) ''response'' = Some (parsed, m', st')"
      by (auto simp: ClientReader_Read_def bind_eq_Some_conv)
    have e: "(ok, response', r', s') =
        (parsed, m', r\<lparr>r_parse_status := st'\<rparr>, if parsed then s1 else fst (cancel_now s1 bs1))"
      using \<open>\<not> (_ \<or> _)\<close> True r m p assms(1) by (auto simp: ClientReader_Read_def split: if_splits)
    have "call_run s' (rs @ [m])" using e True m run_cancel [of s1 "rs @ [m]" bs1] by auto
    moreover have "\<not> parsed \<Longrightarrow> parse m = None \<or> INT_MAX < int (length m)"
      using p by (auto simp: ParseMessage_def split: if_splits option.splits)
    ultimately show ?thesis
      using e ParseMessage_result [OF p] by (intro exI [of _ "[m]"]) (auto split: if_splits)
  qed
qed

text \<open>
  C21. A server-streaming reader hands out the messages in order. A successful
  \<^verbatim>\<open>ClientReader::Read\<close> takes the next message the transport delivered and stores it parsed; an
  unsuccessful one leaves the response alone and means either that nothing was attempted (null
  response, finished, an earlier parse failure), or that the call is over with nothing left to
  read, or that the next message does not parse, which is then recorded. In every case the
  messages handed out so far are a prefix of what the transport delivered.
\<close>

theorem client_reader_reads_in_order:
  assumes "call_run s rs" and "ClientReader_Read parse response r s bs = Some ((ok, response'), r', s', bs')"
  shows "\<exists>ps rest. t_delivered (c_tr s') = rs @ ps @ rest \<and> length rest \<le> 1 \<and>
    (if ok then \<exists>payload m. ps = [payload] \<and> parse payload = Some m \<and> response' = Some m \<and> r' = r
     else response' = response \<and>
       (r' = r \<and> ps = [] \<and> (response = None \<or> r_finished r \<or> \<not> g_is_ok (r_parse_status r)) \<or>
        r' = r\<lparr>r_read_exhausted := True\<rparr> \<and> ps = [] \<and> rest = [] \<and> is_terminal s' \<or>
        (\<exists>payload st. ps = [payload] \<and> r' = r\<lparr>r_parse_status := st\<rparr> \<and> \<not> g_is_ok st \<and>
           (parse payload = None \<or> INT_MAX < int (length payload)))))"
proof -
  from run_ClientReader_Read [OF assms(2,1)] obtain ps where run: "call_run s' (rs @ ps)" and
    r: "if ok then \<exists>payload m. ps = [payload] \<and> parse payload = Some m \<and> response' = Some m \<and> r' = r
     else response' = response \<and>
       (r' = r \<and> ps = [] \<and> (response = None \<or> r_finished r \<or> \<not> g_is_ok (r_parse_status r)) \<or>
        r' = r\<lparr>r_read_exhausted := True\<rparr> \<and> ps = [] \<and> is_terminal s' \<and> \<not> b_has_message (c_call s') \<or>
        (\<exists>payload st. ps = [payload] \<and> r' = r\<lparr>r_parse_status := st\<rparr> \<and> \<not> g_is_ok st \<and>
           (parse payload = None \<or> INT_MAX < int (length payload))))" by blast
  define rest where "rest = (if b_has_message (c_call s') then [b_message (c_call s')] else [])"
  have "t_delivered (c_tr s') = rs @ ps @ rest" "length rest \<le> 1"
    using fifo_run [OF run] by (auto simp: fifo_def rest_def)
  moreover have "\<not> b_has_message (c_call s') \<Longrightarrow> rest = []" by (simp add: rest_def)
  ultimately show ?thesis using r by (intro exI [of _ ps] exI [of _ rest]) (cases ok; auto)
qed

theorem client_reader_reads_in_order_witness:
  "case ClientReader_Read (\<lambda>p. Some (length p)) (Some 0) ClientReader_new sample_read [] of None \<Rightarrow> False
   | Some ((ok, response), r', s', bs') \<Rightarrow> ok \<and> response = Some 5 \<and>
       (\<exists>payload rest. t_delivered (c_tr s') = payload # rest \<and> length payload = 5)"
proof -
  have "case ClientReader_Read (\<lambda>p. Some (length p)) (Some 0) ClientReader_new sample_read [] of None \<Rightarrow> False
   | Some ((ok, response), r', s', bs') \<Rightarrow> ok \<and> response = Some 5" by code_simp
  then obtain r' s' bs' where run: "ClientReader_Read (\<lambda>p. Some (length p)) (Some 0) ClientReader_new sample_read [] =
      Some ((True, Some 5), r', s', bs')" by (auto split: option.splits)
  from client_reader_reads_in_order [OF sample_runs(1) this] run show ?thesis by auto
qed

end
