(* ===== verification/Channel_Options.thy ===== *)
theory Channel_Options
  imports Client_Stream Client_Context
begin

section \<open>Options\<close>

text \<open>
  The option structures of channels and servers (\<^verbatim>\<open>grpc_lite/cpp/channel.hpp\<close>, \<^verbatim>\<open>server.hpp\<close>),
  the C structures they are copied to (\<^verbatim>\<open>grpc_lite/grpc_lite.h\<close>), and \<^verbatim>\<open>grpc::ChannelArguments\<close> (\<^verbatim>\<open>grpcpp/channel_arguments.h\<close>), which
  sets the options of a channel from application values.

  A logger is known by whether there is one; pointers to loggers belong to the handle classes.
  The member \<^verbatim>\<open>struct_size\<close> of the C structures is a constant and left out.
\<close>

subsection \<open>Channel options\<close>

record ChannelOptions =
  k_allow_initial_offline :: bool
  k_initial_backoff_ns :: u64
  k_max_backoff_ns :: u64
  k_multiplier_millis :: u32
  k_jitter_percent :: u32
  k_logger :: bool
  k_max_response_header_list_size :: u64
  k_max_unary_calls :: u64
  k_max_unary_request_bytes :: u64
  k_max_streams :: u64
  k_max_stream_buffer_bytes :: u64

definition ChannelOptions_default :: ChannelOptions where
  "ChannelOptions_default =
     \<lparr>k_allow_initial_offline = False, k_initial_backoff_ns = 1000000000, k_max_backoff_ns = 120000000000,
      k_multiplier_millis = 1600, k_jitter_percent = 20, k_logger = False,
      k_max_response_header_list_size = 65536, k_max_unary_calls = 4096, k_max_unary_request_bytes = 67108864,
      k_max_streams = 1024, k_max_stream_buffer_bytes = 1073741824\<rparr>"

text \<open>The C structure; its logger is the \<^verbatim>\<open>user_data\<close> of the logger, if there is one.\<close>

record grpc_lite_channel_options =
  kc_allow_initial_offline :: u32
  kc_initial_backoff_ns :: u64
  kc_max_backoff_ns :: u64
  kc_multiplier_millis :: u32
  kc_jitter_percent :: u32
  kc_logger :: "nat option"
  kc_max_response_header_list_size :: u64
  kc_max_unary_calls :: u64
  kc_max_unary_request_bytes :: u64
  kc_max_streams :: u64
  kc_max_stream_buffer_bytes :: u64

definition GRPC_LITE_CHANNEL_OPTIONS_INIT :: grpc_lite_channel_options where
  "GRPC_LITE_CHANNEL_OPTIONS_INIT =
     \<lparr>kc_allow_initial_offline = 0, kc_initial_backoff_ns = 1000000000, kc_max_backoff_ns = 120000000000,
      kc_multiplier_millis = 1600, kc_jitter_percent = 20, kc_logger = None,
      kc_max_response_header_list_size = 65536, kc_max_unary_calls = 4096, kc_max_unary_request_bytes = 67108864,
      kc_max_streams = 1024, kc_max_stream_buffer_bytes = 1073741824\<rparr>"

definition u32_of_bool :: "bool \<Rightarrow> u32" where
  "u32_of_bool b = (if b then 1 else 0)"

definition c_channel_options :: "ChannelOptions \<Rightarrow> nat option \<Rightarrow> grpc_lite_channel_options" where
  "c_channel_options options logger =
     GRPC_LITE_CHANNEL_OPTIONS_INIT
       \<lparr>kc_allow_initial_offline := u32_of_bool (k_allow_initial_offline options),
        kc_initial_backoff_ns := k_initial_backoff_ns options,
        kc_max_backoff_ns := k_max_backoff_ns options,
        kc_multiplier_millis := k_multiplier_millis options,
        kc_jitter_percent := k_jitter_percent options,
        kc_logger := logger,
        kc_max_response_header_list_size := k_max_response_header_list_size options,
        kc_max_unary_calls := k_max_unary_calls options,
        kc_max_unary_request_bytes := k_max_unary_request_bytes options,
        kc_max_streams := k_max_streams options,
        kc_max_stream_buffer_bytes := k_max_stream_buffer_bytes options\<rparr>"

subsection \<open>Server options\<close>

record ServerOptions =
  so_host :: string
  so_port :: u32
  so_reactor_count :: u32
  so_max_message_size :: u64
  so_max_inbound_buffer_size :: u64
  so_max_outbound_buffer_size :: u64
  so_logger :: bool
  so_max_connections :: u64
  so_cleartext_preface_timeout_ns :: u64
  so_connection_idle_timeout_ns :: u64
  so_max_concurrent_streams_per_connection :: u32

definition ServerOptions_default :: ServerOptions where
  "ServerOptions_default =
     \<lparr>so_host = ''127.0.0.1'', so_port = 0, so_reactor_count = 1, so_max_message_size = 4194304,
      so_max_inbound_buffer_size = 8388608, so_max_outbound_buffer_size = 8388608, so_logger = False,
      so_max_connections = 1024, so_cleartext_preface_timeout_ns = 10000000000,
      so_connection_idle_timeout_ns = 300000000000, so_max_concurrent_streams_per_connection = 100\<rparr>"

record grpc_lite_server_options =
  sc_host :: bytes_view
  sc_port :: u32
  sc_reactor_count :: u32
  sc_max_message_size :: u64
  sc_max_inbound_buffer_size :: u64
  sc_max_outbound_buffer_size :: u64
  sc_logger :: "nat option"
  sc_max_connections :: u64
  sc_cleartext_preface_timeout_ns :: u64
  sc_connection_idle_timeout_ns :: u64
  sc_max_concurrent_streams_per_connection :: u32

definition GRPC_LITE_SERVER_OPTIONS_INIT :: grpc_lite_server_options where
  "GRPC_LITE_SERVER_OPTIONS_INIT =
     \<lparr>sc_host = \<lparr>bv_data = Some ''127.0.0.1'', bv_size = 9\<rparr>, sc_port = 0, sc_reactor_count = 1,
      sc_max_message_size = 4194304, sc_max_inbound_buffer_size = 8388608, sc_max_outbound_buffer_size = 8388608,
      sc_logger = None, sc_max_connections = 1024, sc_cleartext_preface_timeout_ns = 10000000000,
      sc_connection_idle_timeout_ns = 300000000000, sc_max_concurrent_streams_per_connection = 100\<rparr>"

definition c_server_options :: "ServerOptions \<Rightarrow> nat option \<Rightarrow> grpc_lite_server_options" where
  "c_server_options options logger =
     GRPC_LITE_SERVER_OPTIONS_INIT
       \<lparr>sc_host := Bytes (so_host options), sc_port := so_port options, sc_reactor_count := so_reactor_count options,
        sc_max_message_size := so_max_message_size options,
        sc_max_inbound_buffer_size := so_max_inbound_buffer_size options,
        sc_max_outbound_buffer_size := so_max_outbound_buffer_size options,
        sc_logger := logger,
        sc_max_connections := so_max_connections options,
        sc_cleartext_preface_timeout_ns := so_cleartext_preface_timeout_ns options,
        sc_connection_idle_timeout_ns := so_connection_idle_timeout_ns options,
        sc_max_concurrent_streams_per_connection := so_max_concurrent_streams_per_connection options\<rparr>"

record ServerMethodOptions =
  mo_receive_initially_paused :: bool
  mo_explicit_initial_metadata :: bool

definition ServerMethodOptions_default :: ServerMethodOptions where
  "ServerMethodOptions_default = \<lparr>mo_receive_initially_paused = False, mo_explicit_initial_metadata = True\<rparr>"

record grpc_lite_server_method_options =
  mc_receive_initially_paused :: u32
  mc_explicit_initial_metadata :: u32

definition GRPC_LITE_SERVER_METHOD_OPTIONS_INIT :: grpc_lite_server_method_options where
  "GRPC_LITE_SERVER_METHOD_OPTIONS_INIT = \<lparr>mc_receive_initially_paused = 0, mc_explicit_initial_metadata = 1\<rparr>"

definition c_method_options :: "ServerMethodOptions \<Rightarrow> grpc_lite_server_method_options" where
  "c_method_options options =
     GRPC_LITE_SERVER_METHOD_OPTIONS_INIT
       \<lparr>mc_receive_initially_paused := u32_of_bool (mo_receive_initially_paused options),
        mc_explicit_initial_metadata := u32_of_bool (mo_explicit_initial_metadata options)\<rparr>"

definition GRPC_LITE_CLIENT_STREAM_OPTIONS_INIT :: grpc_lite_client_stream_options where
  "GRPC_LITE_CLIENT_STREAM_OPTIONS_INIT =
     \<lparr>co_metadata = None, co_has_timeout = 0, co_send_compression = 0, co_timeout_ns = 0,
      co_max_message_size = 4194304, co_max_inbound_buffer_size = 8388608,
      co_max_outbound_buffer_size = 8388608\<rparr>"

subsection \<open>Channel arguments\<close>

text \<open>
  A \<^verbatim>\<open>double\<close>: a finite one is the rational number it denotes, an operation rounds to 53 bits; a
  conversion to \<^verbatim>\<open>uint32_t\<close> truncates and is undefined (\<^const>\<open>None\<close>) when the result does not fit.
\<close>

datatype double = Double rat | Double_infinite | Double_nan

definition double_round :: "rat \<Rightarrow> rat" where
  "double_round = ld_round 53"

definition u32_of_double :: "rat \<Rightarrow> u32 option" where
  "u32_of_double x = (if 0 \<le> x \<and> x < 2 ^ 32 then Some (word_of_int \<lfloor>x\<rfloor>) else None)"

record ChannelArguments =
  ca_options :: ChannelOptions
  ca_compression :: Compression
  ca_status :: GrpcStatus

definition ChannelArguments_new :: ChannelArguments where
  "ChannelArguments_new =
     \<lparr>ca_options = ChannelOptions_default\<lparr>k_allow_initial_offline := True\<rparr>, ca_compression = Identity,
      ca_status = grpc_ok\<rparr>"

definition SetAllowInitialOffline :: "bool \<Rightarrow> ChannelArguments \<Rightarrow> ChannelArguments" where
  "SetAllowInitialOffline allow a = a\<lparr>ca_options := (ca_options a)\<lparr>k_allow_initial_offline := allow\<rparr>\<rparr>"

text \<open>An \<^verbatim>\<open>int\<close> argument is an integer; the product is computed at 64 bits.\<close>

definition SetBackoffMs ::
  "(u64 \<Rightarrow> ChannelOptions \<Rightarrow> ChannelOptions) \<Rightarrow> int \<Rightarrow> ChannelArguments \<Rightarrow> ChannelArguments" where
  "SetBackoffMs output milliseconds a =
     (if milliseconds < 0
      then a\<lparr>ca_status := grpc_status INVALID_ARGUMENT ''reconnect backoff must not be negative''\<rparr>
      else a\<lparr>ca_options := output (word_of_int milliseconds * 1000000) (ca_options a)\<rparr>)"

definition SetInitialReconnectBackoffMs :: "int \<Rightarrow> ChannelArguments \<Rightarrow> ChannelArguments" where
  "SetInitialReconnectBackoffMs = SetBackoffMs (\<lambda>ns. k_initial_backoff_ns_update (\<lambda>_. ns))"

definition SetMinReconnectBackoffMs :: "int \<Rightarrow> ChannelArguments \<Rightarrow> ChannelArguments" where
  "SetMinReconnectBackoffMs = SetBackoffMs (\<lambda>ns. k_initial_backoff_ns_update (\<lambda>_. ns))"

definition SetMaxReconnectBackoffMs :: "int \<Rightarrow> ChannelArguments \<Rightarrow> ChannelArguments" where
  "SetMaxReconnectBackoffMs = SetBackoffMs (\<lambda>ns. k_max_backoff_ns_update (\<lambda>_. ns))"

definition SetReconnectBackoffMultiplier :: "double \<Rightarrow> ChannelArguments \<Rightarrow> ChannelArguments option" where
  "SetReconnectBackoffMultiplier multiplier a =
     (let invalid = Some (a\<lparr>ca_status := grpc_status INVALID_ARGUMENT ''invalid reconnect backoff multiplier''\<rparr>) in
      case multiplier of
        Double m \<Rightarrow>
          if m < 1 \<or> double_round (4294967295 / 1000) < m then invalid
          else do { millis \<leftarrow> u32_of_double (double_round (m * 1000));
                    Some (a\<lparr>ca_options := (ca_options a)\<lparr>k_multiplier_millis := millis\<rparr>\<rparr>) }
      | _ \<Rightarrow> invalid)"

definition SetReconnectBackoffJitter :: "double \<Rightarrow> ChannelArguments \<Rightarrow> ChannelArguments option" where
  "SetReconnectBackoffJitter jitter a =
     (let invalid = Some (a\<lparr>ca_status := grpc_status INVALID_ARGUMENT ''invalid reconnect backoff jitter''\<rparr>) in
      case jitter of
        Double j \<Rightarrow>
          if j < 0 \<or> 1 < j then invalid
          else do { percent \<leftarrow> u32_of_double (double_round (j * 100));
                    Some (a\<lparr>ca_options := (ca_options a)\<lparr>k_jitter_percent := percent\<rparr>\<rparr>) }
      | _ \<Rightarrow> invalid)"

definition SetCompressionAlgorithm :: "grpc_compression_algorithm \<Rightarrow> ChannelArguments \<Rightarrow> ChannelArguments" where
  "SetCompressionAlgorithm algorithm a =
     (if algorithm = GRPC_COMPRESS_NONE then a\<lparr>ca_compression := Identity\<rparr>
      else if algorithm = GRPC_COMPRESS_GZIP then a\<lparr>ca_compression := Gzip\<rparr>
      else a\<lparr>ca_status := grpc_status UNIMPLEMENTED ''only identity and gzip compression are supported''\<rparr>)"

definition SetDefaultCompressionAlgorithm :: "grpc_compression_algorithm \<Rightarrow> ChannelArguments \<Rightarrow> ChannelArguments" where
  "SetDefaultCompressionAlgorithm algorithm a = SetCompressionAlgorithm algorithm a"

definition SetLogger :: "bool \<Rightarrow> ChannelArguments \<Rightarrow> ChannelArguments" where
  "SetLogger logger a = a\<lparr>ca_options := (ca_options a)\<lparr>k_logger := logger\<rparr>\<rparr>"

text \<open>The calls an application makes to fill in its arguments.\<close>

datatype setting =
    P_allow_initial_offline bool
  | P_initial_backoff int
  | P_min_backoff int
  | P_max_backoff int
  | P_multiplier double
  | P_jitter double
  | P_compression grpc_compression_algorithm
  | P_default_compression grpc_compression_algorithm
  | P_logger bool

fun apply_setting :: "setting \<Rightarrow> ChannelArguments \<Rightarrow> ChannelArguments option" where
  "apply_setting (P_allow_initial_offline b) a = Some (SetAllowInitialOffline b a)"
| "apply_setting (P_initial_backoff n) a = Some (SetInitialReconnectBackoffMs n a)"
| "apply_setting (P_min_backoff n) a = Some (SetMinReconnectBackoffMs n a)"
| "apply_setting (P_max_backoff n) a = Some (SetMaxReconnectBackoffMs n a)"
| "apply_setting (P_multiplier x) a = SetReconnectBackoffMultiplier x a"
| "apply_setting (P_jitter x) a = SetReconnectBackoffJitter x a"
| "apply_setting (P_compression c) a = Some (SetCompressionAlgorithm c a)"
| "apply_setting (P_default_compression c) a = Some (SetDefaultCompressionAlgorithm c a)"
| "apply_setting (P_logger b) a = Some (SetLogger b a)"

fun apply_settings :: "setting list \<Rightarrow> ChannelArguments \<Rightarrow> ChannelArguments option" where
  "apply_settings [] a = Some a"
| "apply_settings (p # ps) a = do { b \<leftarrow> apply_setting p a; apply_settings ps b }"

lemmas setter_defs =
  SetAllowInitialOffline_def SetLogger_def SetInitialReconnectBackoffMs_def SetMinReconnectBackoffMs_def
  SetMaxReconnectBackoffMs_def SetBackoffMs_def SetReconnectBackoffMultiplier_def SetReconnectBackoffJitter_def
  SetCompressionAlgorithm_def SetDefaultCompressionAlgorithm_def

subsection \<open>Rounding to integers\<close>

lemma round_half_even_le:
  assumes "x \<le> of_int n"
  shows "round_half_even x \<le> n"
proof (cases "\<lfloor>x\<rfloor> = n")
  case True
  then have "x = of_int \<lfloor>x\<rfloor>" using assms of_int_floor_le [of x] by linarith
  with True show ?thesis by (simp add: round_half_even_def Let_def)
next
  case False
  then have "\<lfloor>x\<rfloor> < n" using assms by linarith
  then show ?thesis by (simp add: round_half_even_def Let_def)
qed

lemma round_half_even_ge:
  assumes "of_int n \<le> x"
  shows "n \<le> round_half_even x"
proof -
  have "n \<le> \<lfloor>x\<rfloor>" using assms by (simp add: le_floor_iff)
  then show ?thesis by (simp add: round_half_even_def Let_def)
qed

text \<open>An integer of at most \<open>p\<close> bits is a floating-point number, so rounding does not cross it.\<close>

lemma ld_round_unit:
  assumes "0 < x" "x < 2 ^ p"
  obtains k where "ld_round p x = of_int (round_half_even (x * 2 ^ k)) / 2 ^ k"
proof -
  have "2 powi ilog2 x < (2::rat) powi int p"
    using ilog2_bounds(1) [OF assms(1)] assms(2) by (simp add: power_int_def)
  then have "ilog2 x < int p" using power_int_increasing [of "int p" "ilog2 x" "2::rat"] by linarith
  then have s: "2 powi (ilog2 x - int p + 1) = 1 / (2 ^ nat (int p - 1 - ilog2 x) :: rat)"
    by (cases "ilog2 x - int p + 1 = 0") (simp_all add: power_int_def field_simps nat_diff_distrib')
  have "ld_round p x = of_int (round_half_even (x * 2 ^ nat (int p - 1 - ilog2 x))) / 2 ^ nat (int p - 1 - ilog2 x)"
    using assms(1) by (simp add: ld_round_def s)
  then show thesis by (rule that)
qed

lemma ld_round_le_int:
  assumes "0 < x" "x \<le> of_int n" "n < 2 ^ p"
  shows "ld_round p x \<le> of_int n"
proof -
  have "x < 2 ^ p" using assms(2,3) by (metis le_less_trans of_int_less_iff of_int_numeral of_int_power)
  then obtain k where k: "ld_round p x = of_int (round_half_even (x * 2 ^ k)) / 2 ^ k"
    by (rule ld_round_unit [OF assms(1)])
  have "round_half_even (x * 2 ^ k) \<le> n * 2 ^ k"
    by (rule round_half_even_le) (use assms(2) in \<open>simp add: mult_right_mono\<close>)
  then have "of_int (round_half_even (x * 2 ^ k)) \<le> (of_int (n * 2 ^ k) :: rat)" by (simp only: of_int_le_iff)
  then show ?thesis by (simp add: k field_simps)
qed

lemma ld_round_ge_int:
  assumes "of_int n \<le> x" "0 < n" "x < 2 ^ p"
  shows "of_int n \<le> ld_round p x"
proof -
  have "0 < x" using assms(1,2) by (meson less_le_trans of_int_0_less_iff)
  then obtain k where k: "ld_round p x = of_int (round_half_even (x * 2 ^ k)) / 2 ^ k"
    by (rule ld_round_unit [OF _ assms(3)])
  have "n * 2 ^ k \<le> round_half_even (x * 2 ^ k)"
    by (rule round_half_even_ge) (use assms(1) in \<open>simp add: mult_right_mono\<close>)
  then have "of_int (n * 2 ^ k) \<le> (of_int (round_half_even (x * 2 ^ k)) :: rat)" by (simp only: of_int_le_iff)
  then show ?thesis by (simp add: k field_simps)
qed

lemma unat_of_int: "0 \<le> n \<Longrightarrow> n < 2 ^ LENGTH('a) \<Longrightarrow> unat (word_of_int n :: 'a::len word) = nat n"
  by (simp add: unsigned_of_int take_bit_int_eq_self)

definition truncated :: "rat \<Rightarrow> u32 \<Rightarrow> bool" where
  "truncated x n \<longleftrightarrow> x - 1 - 1 / 1000000 < of_nat (unat n) \<and> of_nat (unat n) \<le> x + 1 / 1000000"

lemma truncated_round:
  assumes "u32_of_double (double_round x) = Some n" "\<bar>x\<bar> < 2 ^ 33"
  shows "truncated x n"
proof -
  have b: "0 \<le> double_round x" "double_round x < 2 ^ 32" and n: "n = word_of_int \<lfloor>double_round x\<rfloor>"
    using assms(1) by (auto simp: u32_of_double_def split: if_splits)
  then have "int (unat n) = \<lfloor>double_round x\<rfloor>" by (subst n, subst unat_of_int) (auto simp: floor_less_iff)
  then have u: "(of_nat (unat n) :: rat) = of_int \<lfloor>double_round x\<rfloor>" by (metis of_int_of_nat_eq)
  have "\<bar>double_round x - x\<bar> \<le> 2 powi (32 - int 53)"
    unfolding double_round_def by (rule ld_round_error) (use assms(2) in \<open>simp add: power_int_def\<close>)
  also have "(2::rat) powi (32 - int 53) = 1 / 2097152" by (simp add: power_int_def power_one_over)
  finally show ?thesis using floor_correct [of "double_round x"] u unfolding truncated_def abs_le_iff by linarith
qed

lemma multiplier_converts:
  assumes "1 \<le> m" "m \<le> double_round (4294967295 / 1000)"
  obtains millis where "u32_of_double (double_round (m * 1000)) = Some millis" "1000 \<le> unat millis"
proof -
  have "\<bar>double_round (4294967295 / 1000) - 4294967295 / 1000\<bar> \<le> 2 powi (22 - int 53)"
    unfolding double_round_def by (rule ld_round_near) (simp_all add: power_int_def)
  also have "(2::rat) powi (22 - int 53) = 1 / 2147483648" by (simp add: power_int_def power_one_over)
  finally have m: "m * 1000 \<le> 4294967295 + 1 / 1000" using assms(2) unfolding abs_le_iff by linarith
  then have "\<bar>double_round (m * 1000) - m * 1000\<bar> \<le> 2 powi (31 - int 53)"
    unfolding double_round_def by (intro ld_round_near) (use assms(1) in \<open>simp_all add: power_int_def\<close>)
  also have "(2::rat) powi (31 - int 53) = 1 / 4194304" by (simp add: power_int_def power_one_over)
  finally have hi: "double_round (m * 1000) < 2 ^ 32" using m unfolding abs_le_iff by simp
  have "of_int 1000 \<le> double_round (m * 1000)"
    unfolding double_round_def by (rule ld_round_ge_int) (use assms(1) m in simp_all)
  then have lo: "1000 \<le> double_round (m * 1000)" by simp
  have f: "1000 \<le> \<lfloor>double_round (m * 1000)\<rfloor>" "\<lfloor>double_round (m * 1000)\<rfloor> < 2 ^ 32"
    using lo hi by (simp_all add: le_floor_iff floor_less_iff)
  then have "1000 \<le> unat (word_of_int \<lfloor>double_round (m * 1000)\<rfloor> :: u32)"
    by (subst unat_of_int) (simp, simp, linarith)
  with lo hi show thesis using that by (simp add: u32_of_double_def)
qed


lemma jitter_converts:
  assumes "0 \<le> j" "j \<le> 1"
  obtains percent where "u32_of_double (double_round (j * 100)) = Some percent" "unat percent \<le> 100"
proof -
  have lo: "0 \<le> double_round (j * 100)" unfolding double_round_def by (rule ld_round_nonneg) (use assms in simp)
  have "double_round (j * 100) \<le> of_int 100"
  proof (cases "j = 0")
    case True
    then show ?thesis by (simp add: double_round_def ld_round_def)
  next
    case False
    then show ?thesis unfolding double_round_def by (intro ld_round_le_int) (use assms in simp_all)
  qed
  then have hi: "double_round (j * 100) \<le> 100" by simp
  have f: "0 \<le> \<lfloor>double_round (j * 100)\<rfloor>" "\<lfloor>double_round (j * 100)\<rfloor> \<le> 100"
    using lo floor_mono [OF hi] by simp_all
  then have "unat (word_of_int \<lfloor>double_round (j * 100)\<rfloor> :: u32) \<le> 100"
    by (subst unat_of_int) (simp, simp, linarith)
  with lo hi show thesis using that by (simp add: u32_of_double_def)
qed

text \<open>What a setting that is accepted promises, and which settings are refused.\<close>

definition options_in_range :: "ChannelOptions \<Rightarrow> bool" where
  "options_in_range k \<longleftrightarrow>
     1000 \<le> unat (k_multiplier_millis k) \<and> unat (k_jitter_percent k) \<le> 100 \<and>
     unat (k_initial_backoff_ns k) \<le> 2147483647 * 1000000 \<and> unat (k_max_backoff_ns k) \<le> 2147483647 * 1000000"

fun refused :: "setting \<Rightarrow> bool" where
  "refused (P_initial_backoff n) = (n < 0)"
| "refused (P_min_backoff n) = (n < 0)"
| "refused (P_max_backoff n) = (n < 0)"
| "refused (P_multiplier x) = (case x of Double m \<Rightarrow> m < 1 \<or> double_round (4294967295 / 1000) < m | _ \<Rightarrow> True)"
| "refused (P_jitter x) = (case x of Double j \<Rightarrow> j < 0 \<or> 1 < j | _ \<Rightarrow> True)"
| "refused (P_compression c) = (c = GRPC_COMPRESS_DEFLATE)"
| "refused (P_default_compression c) = (c = GRPC_COMPRESS_DEFLATE)"
| "refused _ = False"

fun int_argument :: "setting \<Rightarrow> int" where
  "int_argument (P_initial_backoff n) = n"
| "int_argument (P_min_backoff n) = n"
| "int_argument (P_max_backoff n) = n"
| "int_argument _ = 0"

text \<open>
  What the application asked for: the value of an option is the one of the last setter of it whose
  argument was accepted, in the unit of that setter.
\<close>

fun initial_of :: "setting \<Rightarrow> int option" where
  "initial_of (P_initial_backoff n) = Some n"
| "initial_of (P_min_backoff n) = Some n"
| "initial_of _ = None"

fun maximum_of :: "setting \<Rightarrow> int option" where
  "maximum_of (P_max_backoff n) = Some n"
| "maximum_of _ = None"

fun multiplier_of :: "setting \<Rightarrow> rat option" where
  "multiplier_of (P_multiplier (Double m)) = Some m"
| "multiplier_of _ = None"

fun jitter_of :: "setting \<Rightarrow> rat option" where
  "jitter_of (P_jitter (Double j)) = Some j"
| "jitter_of _ = None"

fun compression_of :: "setting \<Rightarrow> grpc_compression_algorithm option" where
  "compression_of (P_compression c) = Some c"
| "compression_of (P_default_compression c) = Some c"
| "compression_of _ = None"

fun offline_of :: "setting \<Rightarrow> bool option" where
  "offline_of (P_allow_initial_offline b) = Some b"
| "offline_of _ = None"

fun logger_of :: "setting \<Rightarrow> bool option" where
  "logger_of (P_logger b) = Some b"
| "logger_of _ = None"

fun last_accepted :: "(setting \<Rightarrow> 'a option) \<Rightarrow> setting list \<Rightarrow> 'a option" where
  "last_accepted f [] = None"
| "last_accepted f (p # ps) =
     (case last_accepted f ps of Some v \<Rightarrow> Some v | None \<Rightarrow> if refused p then None else f p)"

text \<open>
  The options hold these values: the backoff times exactly, in nanoseconds; the multiplier in
  thousandths and the jitter in percent, truncated (with the rounding of one multiplication).
\<close>

definition set_to :: "('v \<Rightarrow> 'k \<Rightarrow> bool) \<Rightarrow> (setting \<Rightarrow> 'v option) \<Rightarrow> (ChannelArguments \<Rightarrow> 'k) \<Rightarrow>
  setting list \<Rightarrow> ChannelArguments \<Rightarrow> bool" where
  "set_to R f field ps a \<longleftrightarrow>
     (case last_accepted f ps of None \<Rightarrow> field a = field ChannelArguments_new | Some v \<Rightarrow> R v (field a))"

definition options_as_set :: "setting list \<Rightarrow> ChannelArguments \<Rightarrow> bool" where
  "options_as_set ps a \<longleftrightarrow>
     set_to (\<lambda>ms ns. uint ns = ms * 1000000) initial_of (\<lambda>a. k_initial_backoff_ns (ca_options a)) ps a \<and>
     set_to (\<lambda>ms ns. uint ns = ms * 1000000) maximum_of (\<lambda>a. k_max_backoff_ns (ca_options a)) ps a \<and>
     set_to (\<lambda>m. truncated (m * 1000)) multiplier_of (\<lambda>a. k_multiplier_millis (ca_options a)) ps a \<and>
     set_to (\<lambda>j. truncated (j * 100)) jitter_of (\<lambda>a. k_jitter_percent (ca_options a)) ps a \<and>
     set_to (\<lambda>c k. k = (if c = GRPC_COMPRESS_GZIP then Gzip else Identity)) compression_of ca_compression ps a \<and>
     set_to (\<lambda>v b. b = v) offline_of (\<lambda>a. k_allow_initial_offline (ca_options a)) ps a \<and>
     set_to (\<lambda>v b. b = v) logger_of (\<lambda>a. k_logger (ca_options a)) ps a"

lemma backoff_product:
  assumes "0 \<le> n" "n \<le> INT_MAX"
  shows "unat (word_of_int n * 1000000 :: u64) = nat n * 1000000"
proof -
  have "word_of_int n * 1000000 = (word_of_int (n * 1000000) :: u64)" by simp
  moreover have "unat (word_of_int (n * 1000000) :: u64) = nat (n * 1000000)"
    by (rule unat_of_int) (use assms in \<open>simp_all add: INT_MAX_def\<close>)
  ultimately show ?thesis using assms by (simp add: nat_mult_distrib)
qed

lemma apply_setting_ok:
  assumes "int_argument p \<le> INT_MAX" "options_in_range (ca_options a)"
  shows "\<exists>b. apply_setting p a = Some b \<and> options_in_range (ca_options b) \<and>
    (if refused p then \<not> g_is_ok (ca_status b) \<and> ca_options b = ca_options a \<and> ca_compression b = ca_compression a
     else ca_status b = ca_status a)"
proof (cases p)
  case (P_multiplier x)
  with assms show ?thesis
    by (cases x) (auto simp: SetReconnectBackoffMultiplier_def options_in_range_def not_less elim!: multiplier_converts)
next
  case (P_jitter x)
  with assms show ?thesis
    by (cases x) (auto simp: SetReconnectBackoffJitter_def options_in_range_def not_less elim!: jitter_converts)
next
  case (P_compression c)
  with assms show ?thesis by (cases c) (simp_all add: SetCompressionAlgorithm_def)
next
  case (P_default_compression c)
  with assms show ?thesis by (cases c) (simp_all add: SetDefaultCompressionAlgorithm_def SetCompressionAlgorithm_def)
qed (use assms in \<open>auto simp: SetAllowInitialOffline_def SetLogger_def SetInitialReconnectBackoffMs_def
    SetMinReconnectBackoffMs_def SetMaxReconnectBackoffMs_def SetBackoffMs_def options_in_range_def backoff_product
    INT_MAX_def\<close>)


lemma apply_setting_same:
  assumes "apply_setting p a = Some a'" "apply_setting p b = Some b'"
    and "ca_options a = ca_options b" "ca_compression a = ca_compression b"
  shows "ca_options a' = ca_options b' \<and> ca_compression a' = ca_compression b'"
  using assms
  by (cases p) (auto simp: SetAllowInitialOffline_def SetLogger_def SetInitialReconnectBackoffMs_def
      SetMinReconnectBackoffMs_def SetMaxReconnectBackoffMs_def SetBackoffMs_def SetReconnectBackoffMultiplier_def
      SetReconnectBackoffJitter_def SetCompressionAlgorithm_def SetDefaultCompressionAlgorithm_def bind_eq_Some_conv Let_def
      split: double.splits if_splits)

lemma double_maximum: "double_round (4294967295 / 1000) \<le> 4294968"
proof -
  have "double_round (4294967295 / 1000) \<le> of_int 4294968"
    unfolding double_round_def by (rule ld_round_le_int) simp_all
  then show ?thesis by simp
qed

definition sets_to :: "('v \<Rightarrow> 'k \<Rightarrow> bool) \<Rightarrow> (setting \<Rightarrow> 'v option) \<Rightarrow> (ChannelArguments \<Rightarrow> 'k) \<Rightarrow>
  setting \<Rightarrow> ChannelArguments \<Rightarrow> ChannelArguments \<Rightarrow> bool" where
  "sets_to R f field p a b \<longleftrightarrow>
     (case if refused p then None else f p of None \<Rightarrow> field b = field a | Some v \<Rightarrow> R v (field b))"

lemma set_toI:
  assumes step: "\<And>p a b. p \<in> set ps \<Longrightarrow> apply_setting p a = Some b \<Longrightarrow> sets_to R f field p a b"
    and "apply_settings ps ChannelArguments_new = Some b"
  shows "set_to R f field ps b"
proof -
  have "case last_accepted f ps of None \<Rightarrow> field b = field a | Some v \<Rightarrow> R v (field b)"
    if "apply_settings ps a = Some b" for a
    using that step
  proof (induction ps arbitrary: a)
    case (Cons p ps)
    then obtain a1 where a1: "apply_setting p a = Some a1" "apply_settings ps a1 = Some b"
      by (auto simp: bind_eq_Some_conv)
    have "case last_accepted f ps of None \<Rightarrow> field b = field a1 | Some v \<Rightarrow> R v (field b)"
      by (rule Cons.IH [OF a1(2)]) (rule Cons.prems(2), simp_all)
    moreover have "sets_to R f field p a a1" using Cons.prems(2) a1(1) by simp
    ultimately show ?case by (auto simp: sets_to_def split: option.splits if_splits)
  qed simp
  with assms(2) show ?thesis by (simp add: set_to_def)
qed

lemma apply_setting_values:
  assumes "apply_setting p a = Some b" "int_argument p \<le> INT_MAX"
  shows "sets_to (\<lambda>ms ns. uint ns = ms * 1000000) initial_of (\<lambda>a. k_initial_backoff_ns (ca_options a)) p a b"
    "sets_to (\<lambda>ms ns. uint ns = ms * 1000000) maximum_of (\<lambda>a. k_max_backoff_ns (ca_options a)) p a b"
    "sets_to (\<lambda>m. truncated (m * 1000)) multiplier_of (\<lambda>a. k_multiplier_millis (ca_options a)) p a b"
    "sets_to (\<lambda>j. truncated (j * 100)) jitter_of (\<lambda>a. k_jitter_percent (ca_options a)) p a b"
    "sets_to (\<lambda>c k. k = (if c = GRPC_COMPRESS_GZIP then Gzip else Identity)) compression_of ca_compression p a b"
    "sets_to (\<lambda>v b. b = v) offline_of (\<lambda>a. k_allow_initial_offline (ca_options a)) p a b"
    "sets_to (\<lambda>v b. b = v) logger_of (\<lambda>a. k_logger (ca_options a)) p a b"
proof -
  have m: "truncated (m * 1000) n"
    if "u32_of_double (double_round (m * 1000)) = Some n" "1 \<le> m" "m \<le> double_round (4294967295 / 1000)" for m n
    by (rule truncated_round [OF that(1)]) (use that double_maximum in \<open>auto simp: abs_less_iff\<close>)
  have j: "truncated (j * 100) n" if "u32_of_double (double_round (j * 100)) = Some n" "0 \<le> j" "j \<le> 1" for j n
    by (rule truncated_round [OF that(1)]) (use that in \<open>auto simp: abs_less_iff\<close>)
  have n: "uint (word_of_int n * 1000000 :: u64) = n * 1000000" if "0 \<le> n" "n \<le> INT_MAX" for n
    using arg_cong [OF backoff_product [OF that], of int] that(1) by simp
  note simps = sets_to_def setter_defs bind_eq_Some_conv Let_def not_less
  show "sets_to (\<lambda>ms ns. uint ns = ms * 1000000) initial_of (\<lambda>a. k_initial_backoff_ns (ca_options a)) p a b"
    "sets_to (\<lambda>ms ns. uint ns = ms * 1000000) maximum_of (\<lambda>a. k_max_backoff_ns (ca_options a)) p a b"
    using assms by (cases p; force simp: simps n split: double.splits if_splits)+
  show "sets_to (\<lambda>m. truncated (m * 1000)) multiplier_of (\<lambda>a. k_multiplier_millis (ca_options a)) p a b"
    "sets_to (\<lambda>j. truncated (j * 100)) jitter_of (\<lambda>a. k_jitter_percent (ca_options a)) p a b"
    using assms m j by (cases p; auto simp: simps split: double.splits if_splits)+
  have "c = GRPC_COMPRESS_NONE \<or> c = GRPC_COMPRESS_GZIP \<or> c = GRPC_COMPRESS_DEFLATE" for c by (cases c) auto
  then show "sets_to (\<lambda>c k. k = (if c = GRPC_COMPRESS_GZIP then Gzip else Identity)) compression_of ca_compression p a b"
    using assms(1) by (cases p; auto simp: simps split: double.splits if_splits)
  show "sets_to (\<lambda>v b. b = v) offline_of (\<lambda>a. k_allow_initial_offline (ca_options a)) p a b"
    "sets_to (\<lambda>v b. b = v) logger_of (\<lambda>a. k_logger (ca_options a)) p a b"
    using assms(1) by (cases p; auto simp: simps split: double.splits if_splits)+
qed

lemma settings_as_set:
  assumes "apply_settings ps ChannelArguments_new = Some b" "\<forall>p \<in> set ps. int_argument p \<le> INT_MAX"
  shows "options_as_set ps b"
  unfolding options_as_set_def
  by (intro conjI; rule set_toI [OF _ assms(1)]; rule apply_setting_values; use assms(2) in blast)

subsection \<open>Properties\<close>


definition sample_settings :: "setting list" where
  "sample_settings = [P_max_backoff 2147483647, P_min_backoff 250, P_initial_backoff (- 1), P_multiplier (Double (3 / 2)),
     P_jitter Double_nan]"


text \<open>
  The defaults of the C++ option structures are the defaults of the C interface: an object with
  its initial values is passed to the C functions as the structure the \<^verbatim>\<open>INIT\<close> macro of that structure
  gives, for channels, servers, methods and client streams.
\<close>

theorem default_options_agree:
  "c_channel_options ChannelOptions_default None = GRPC_LITE_CHANNEL_OPTIONS_INIT \<and>
   c_server_options ServerOptions_default None = GRPC_LITE_SERVER_OPTIONS_INIT \<and>
   c_method_options ServerMethodOptions_default = GRPC_LITE_SERVER_METHOD_OPTIONS_INIT \<and>
   c_stream_options ClientStreamOptions_default = GRPC_LITE_CLIENT_STREAM_OPTIONS_INIT"
  by (simp add: c_channel_options_def ChannelOptions_default_def GRPC_LITE_CHANNEL_OPTIONS_INIT_def u32_of_bool_def
      c_server_options_def ServerOptions_default_def GRPC_LITE_SERVER_OPTIONS_INIT_def Bytes_def
      c_method_options_def ServerMethodOptions_default_def GRPC_LITE_SERVER_METHOD_OPTIONS_INIT_def
      c_stream_options_def ClientStreamOptions_default_def GRPC_LITE_CLIENT_STREAM_OPTIONS_INIT_def Compression_value_def)


text \<open>
  The conversions truncate: the nearest \<^verbatim>\<open>double\<close> to 0.29 becomes 28 percent, and a multiplier of
  1.001 becomes 1000 thousandths, which does not grow at all.
\<close>

theorem conversion_truncates:
  "map_option (\<lambda>a. k_jitter_percent (ca_options a))
     (SetReconnectBackoffJitter (Double (double_round (29 / 100))) ChannelArguments_new) = Some 28 \<and>
   map_option (\<lambda>a. k_multiplier_millis (ca_options a))
     (SetReconnectBackoffMultiplier (Double (double_round (1001 / 1000))) ChannelArguments_new) = Some 1000"
  by code_simp

end
