(* ===== verification/Native_Handles.thy ===== *)
theory Native_Handles
  imports Channel_Options Server_Call "HOL-Library.AList" "HOL-Library.Multiset"
begin

section \<open>Handles of runtimes, channels and servers\<close>

text \<open>
  The classes that own the handles of the C interface: \<^verbatim>\<open>Runtime\<close> (\<^verbatim>\<open>grpc_lite/cpp/runtime.hpp\<close>),
  \<^verbatim>\<open>Channel\<close> (\<^verbatim>\<open>channel.hpp\<close>) and \<^verbatim>\<open>Server\<close> (\<^verbatim>\<open>server.hpp\<close>). A channel and a server also own the blocks
  the C side was given as \<^verbatim>\<open>user_data\<close>: the state of the logger, and one state for each registered
  method. The C functions may fail; their answers are arguments.
\<close>

subsection \<open>The world of handles\<close>

text \<open>
  What is allocated: blocks of the C++ classes, and native objects with what they were created with
  and the pointers they keep: a channel its runtime and the \<^verbatim>\<open>user_data\<close> of its logger, a server the
  \<^verbatim>\<open>user_data\<close> of its logger and of each method. An address is used once. \<open>w_fault\<close> tells whether
  something was freed that is not allocated or that an allocated object still points to, or a native
  object was used that does not exist. The callbacks of a method act on the state \<open>'s\<close> of the
  application; a \<^verbatim>\<open>std::function\<close> may be empty.
\<close>

record 's ServerStreamCallbacks =
  cb_on_start :: "(nat \<Rightarrow> ServerContext \<Rightarrow> 's \<Rightarrow> 's) option"
  cb_on_message :: "(nat \<Rightarrow> ServerContext \<Rightarrow> string \<Rightarrow> Compression \<Rightarrow> 's \<Rightarrow> ReceiveAction \<times> 's) option"
  cb_on_remote_end :: "(nat \<Rightarrow> ServerContext \<Rightarrow> 's \<Rightarrow> 's) option"
  cb_on_writable :: "(nat \<Rightarrow> ServerContext \<Rightarrow> 's \<Rightarrow> 's) option"
  cb_on_cancel :: "(nat \<Rightarrow> ServerContext \<Rightarrow> 's \<Rightarrow> 's) option"
  cb_on_terminal :: "(nat \<Rightarrow> ServerTerminalReason \<Rightarrow> 's \<Rightarrow> 's) option"

datatype 's block =
    B_logger
  | B_method "'s ServerStreamCallbacks"
  | B_runtime
  | B_channel "nat option" string grpc_lite_channel_options
  | B_server grpc_lite_server_options "(string \<times> grpc_lite_server_method_options \<times> nat) list"

record 's world =
  w_next :: nat
  w_blocks :: "(nat \<times> 's block) list"
  w_fault :: bool

definition w_empty :: "'s world" where
  "w_empty = \<lparr>w_next = 0, w_blocks = [], w_fault = False\<rparr>"

definition allocate :: "'s block \<Rightarrow> 's world \<Rightarrow> nat \<times> 's world" where
  "allocate b w = (w_next w, w\<lparr>w_next := w_next w + 1, w_blocks := (w_next w, b) # w_blocks w\<rparr>)"

fun option_list :: "'a option \<Rightarrow> 'a list" where
  "option_list None = []"
| "option_list (Some x) = [x]"

fun pointers :: "'s block \<Rightarrow> nat list" where
  "pointers (B_channel runtime target k) = option_list runtime @ option_list (kc_logger k)"
| "pointers (B_server k ms) = option_list (sc_logger k) @ map (\<lambda>(path, options, u). u) ms"
| "pointers _ = []"

definition release :: "nat option \<Rightarrow> 's world \<Rightarrow> 's world" where
  "release p w =
     (case p of None \<Rightarrow> w
      | Some a \<Rightarrow> w\<lparr>w_blocks := filter (\<lambda>(x, _). x \<noteq> a) (w_blocks w),
                    w_fault := w_fault w \<or> a \<notin> fst ` set (w_blocks w) \<or>
                      list_ex (\<lambda>(_, b). a \<in> set (pointers b)) (w_blocks w)\<rparr>)"

subsection \<open>Runtime\<close>

type_synonym Runtime = "nat option"

definition grpc_lite_runtime_create :: "ErrorCode \<Rightarrow> 's world \<Rightarrow> ErrorCode \<times> Runtime \<times> 's world" where
  "grpc_lite_runtime_create reply w =
     (if Error_ok reply then let (a, w') = allocate B_runtime w in (EC_Ok, Some a, w') else (reply, None, w))"

definition Runtime_move :: "Runtime \<Rightarrow> Runtime \<times> Runtime" where
  "Runtime_move other = (other, None)"

definition Runtime_assign :: "bool \<Rightarrow> Runtime \<Rightarrow> Runtime \<Rightarrow> 's world \<Rightarrow> Runtime \<times> Runtime \<times> 's world" where
  "Runtime_assign same this other w = (if same then (this, other, w) else (other, None, release this w))"

definition Runtime_Create :: "ErrorCode \<Rightarrow> Runtime option \<Rightarrow> 's world \<Rightarrow> ErrorCode \<times> Runtime option \<times> 's world" where
  "Runtime_Create reply out w =
     (case out of None \<Rightarrow> (EC_InvalidArgument, None, w)
      | Some old \<Rightarrow> let (error, runtime, w1) = grpc_lite_runtime_create reply w in
          if \<not> Error_ok error then (error, out, w1)
          else let (new, temporary, w2) = Runtime_assign False old runtime w1 in (EC_Ok, Some new, release temporary w2))"

definition Runtime_destroy :: "Runtime \<Rightarrow> 's world \<Rightarrow> Runtime \<times> 's world" where
  "Runtime_destroy this w = (None, release this w)"

subsection \<open>Channel\<close>

record Channel =
  cn_channel :: "nat option"
  cn_logger :: "nat option"

definition Channel_new :: Channel where
  "Channel_new = \<lparr>cn_channel = None, cn_logger = None\<rparr>"

definition Channel_Reset :: "Channel \<Rightarrow> 's world \<Rightarrow> Channel \<times> 's world" where
  "Channel_Reset this w =
     (let w1 = release (cn_channel this) w; this1 = this\<lparr>cn_channel := None\<rparr>;
          w2 = release (cn_logger this1) w1 in (this1\<lparr>cn_logger := None\<rparr>, w2))"

definition Channel_move :: "Channel \<Rightarrow> Channel \<times> Channel" where
  "Channel_move other =
     (\<lparr>cn_channel = cn_channel other, cn_logger = cn_logger other\<rparr>, other\<lparr>cn_channel := None, cn_logger := None\<rparr>)"

text \<open>Assigning a \<^verbatim>\<open>unique_ptr\<close> frees what the target held, nothing after \<^verbatim>\<open>Reset\<close>.\<close>

definition Channel_assign :: "bool \<Rightarrow> Channel \<Rightarrow> Channel \<Rightarrow> 's world \<Rightarrow> Channel \<times> Channel \<times> 's world" where
  "Channel_assign same this other w =
     (if same then (this, other, w)
      else let (this1, w1) = Channel_Reset this w;
               this2 = this1\<lparr>cn_channel := cn_channel other\<rparr>; other2 = other\<lparr>cn_channel := None\<rparr>;
               w2 = release (cn_logger this2) w1
           in (this2\<lparr>cn_logger := cn_logger other2\<rparr>, other2\<lparr>cn_logger := None\<rparr>, w2))"

definition grpc_lite_channel_create_managed ::
  "ErrorCode \<Rightarrow> nat option \<Rightarrow> string \<Rightarrow> grpc_lite_channel_options \<Rightarrow> 's world \<Rightarrow> ErrorCode \<times> nat option \<times> 's world" where
  "grpc_lite_channel_create_managed reply runtime target options w =
     (if Error_ok reply
      then let (a, w') = allocate (B_channel runtime target options) w in (EC_Ok, Some a, w') else (reply, None, w))"

text \<open>A \<^verbatim>\<open>Runtime*\<close> is \<^const>\<open>None\<close> when null. The local logger is freed when it was not handed over.\<close>

definition Channel_CreateManaged ::
  "ErrorCode \<Rightarrow> Runtime option \<Rightarrow> string \<Rightarrow> ChannelOptions \<Rightarrow> Channel option \<Rightarrow> 's world \<Rightarrow>
   ErrorCode \<times> Channel option \<times> 's world" where
  "Channel_CreateManaged reply runtime target options out w =
     (case out of None \<Rightarrow> (EC_InvalidArgument, None, w)
      | Some old \<Rightarrow>
          let (logger, w1) = (if k_logger options then let (a, w') = allocate B_logger w in (Some a, w') else (None, w));
              (error, channel, w2) = grpc_lite_channel_create_managed reply
                (case runtime of None \<Rightarrow> None | Some r \<Rightarrow> r) target (c_channel_options options logger) w1 in
          if \<not> Error_ok error then (error, out, release logger w2)
          else let (new, temporary, w3) = Channel_assign False old \<lparr>cn_channel = channel, cn_logger = logger\<rparr> w2
               in (EC_Ok, Some new, snd (Channel_Reset temporary w3)))"

subsection \<open>Server\<close>

record Server =
  sv_server :: "nat option"
  sv_logger :: "nat option"
  sv_methods :: "nat list"

definition Server_new :: Server where
  "Server_new = \<lparr>sv_server = None, sv_logger = None, sv_methods = []\<rparr>"

text \<open>\<^verbatim>\<open>methods_.clear()\<close> destroys the elements in order.\<close>

definition Server_Reset :: "Server \<Rightarrow> 's world \<Rightarrow> Server \<times> 's world" where
  "Server_Reset this w =
     (let w1 = release (sv_server this) w; this1 = this\<lparr>sv_server := None\<rparr>;
          w2 = fold (\<lambda>m. release (Some m)) (sv_methods this1) w1; this2 = this1\<lparr>sv_methods := []\<rparr>;
          w3 = release (sv_logger this2) w2 in (this2\<lparr>sv_logger := None\<rparr>, w3))"

definition Server_move :: "Server \<Rightarrow> Server \<times> Server" where
  "Server_move other =
     (\<lparr>sv_server = sv_server other, sv_logger = sv_logger other, sv_methods = sv_methods other\<rparr>,
      other\<lparr>sv_server := None, sv_logger := None, sv_methods := []\<rparr>)"

definition Server_assign :: "bool \<Rightarrow> Server \<Rightarrow> Server \<Rightarrow> 's world \<Rightarrow> Server \<times> Server \<times> 's world" where
  "Server_assign same this other w =
     (if same then (this, other, w)
      else let (this1, w1) = Server_Reset this w;
               this2 = this1\<lparr>sv_server := sv_server other\<rparr>; other2 = other\<lparr>sv_server := None\<rparr>;
               w2 = release (sv_logger this2) w1;
               this3 = this2\<lparr>sv_logger := sv_logger other2\<rparr>; other3 = other2\<lparr>sv_logger := None\<rparr>;
               w3 = fold (\<lambda>m. release (Some m)) (sv_methods this3) w2
           in (this3\<lparr>sv_methods := sv_methods other3\<rparr>, other3\<lparr>sv_methods := []\<rparr>, w3))"

definition grpc_lite_server_create ::
  "ErrorCode \<Rightarrow> grpc_lite_server_options \<Rightarrow> 's world \<Rightarrow> ErrorCode \<times> nat option \<times> 's world" where
  "grpc_lite_server_create reply options w =
     (if Error_ok reply then let (a, w') = allocate (B_server options []) w in (EC_Ok, Some a, w') else (reply, None, w))"

definition Server_Create ::
  "ErrorCode \<Rightarrow> ServerOptions \<Rightarrow> Server option \<Rightarrow> 's world \<Rightarrow> ErrorCode \<times> Server option \<times> 's world" where
  "Server_Create reply options out w =
     (case out of None \<Rightarrow> (EC_InvalidArgument, None, w)
      | Some old \<Rightarrow>
          let (logger, w1) = (if so_logger options then let (a, w') = allocate B_logger w in (Some a, w') else (None, w));
              (error, server, w2) = grpc_lite_server_create reply (c_server_options options logger) w1 in
          if \<not> Error_ok error then (error, out, release logger w2)
          else let (new, temporary, w3) =
                 Server_assign False old \<lparr>sv_server = server, sv_logger = logger, sv_methods = []\<rparr> w2
               in (EC_Ok, Some new, snd (Server_Reset temporary w3)))"

definition grpc_lite_server_register_stream ::
  "ErrorCode \<Rightarrow> nat \<Rightarrow> string \<Rightarrow> grpc_lite_server_method_options \<Rightarrow> nat \<Rightarrow> 's world \<Rightarrow> ErrorCode \<times> 's world" where
  "grpc_lite_server_register_stream reply server path options user_data w =
     (case map_of (w_blocks w) server of
        Some (B_server k ms) \<Rightarrow>
          if Error_ok reply
          then (EC_Ok, w\<lparr>w_blocks := AList.update server (B_server k (ms @ [(path, options, user_data)])) (w_blocks w)\<rparr>)
          else (reply, w)
      | _ \<Rightarrow> (reply, w\<lparr>w_fault := True\<rparr>))"

definition Server_RegisterStream ::
  "ErrorCode \<Rightarrow> string \<Rightarrow> ServerMethodOptions \<Rightarrow> 's ServerStreamCallbacks \<Rightarrow> Server \<Rightarrow> 's world \<Rightarrow> ErrorCode \<times> Server \<times> 's world" where
  "Server_RegisterStream reply path options callbacks this w =
     (case sv_server this of None \<Rightarrow> (EC_InvalidState, this, w)
      | Some server \<Rightarrow>
          let (m, w1) = allocate (B_method callbacks) w; this1 = this\<lparr>sv_methods := sv_methods this @ [m]\<rparr>;
              (error, w2) = grpc_lite_server_register_stream reply server path (c_method_options options) m w1 in
          if \<not> Error_ok error
          then (error, this1\<lparr>sv_methods := butlast (sv_methods this1)\<rparr>, release (Some (last (sv_methods this1))) w2)
          else (error, this1, w2))"


text \<open>
  The functions that only use the server; \<open>reply\<close> is what the C function answers.
  \<^verbatim>\<open>grpc_lite_server_port\<close> clears its output first.
\<close>

definition Server_Start :: "ErrorCode \<Rightarrow> Server \<Rightarrow> ErrorCode" where
  "Server_Start reply this = (if sv_server this = None then EC_InvalidState else reply)"

definition grpc_lite_server_port :: "ErrorCode + u32 \<Rightarrow> ErrorCode \<times> u32" where
  "grpc_lite_server_port reply = (case reply of Inl error \<Rightarrow> (error, 0) | Inr port \<Rightarrow> (EC_Ok, port))"

definition Server_Port :: "ErrorCode + u32 \<Rightarrow> Server \<Rightarrow> u32 option \<Rightarrow> ErrorCode \<times> u32 option" where
  "Server_Port reply this out =
     (if sv_server this = None then (EC_InvalidState, out)
      else case out of None \<Rightarrow> (EC_InvalidArgument, None)
           | Some _ \<Rightarrow> let (error, port) = grpc_lite_server_port reply in (error, Some port))"

subsection \<open>The functions the C side calls\<close>

text \<open>
  The static functions a method is registered with. They get the \<^verbatim>\<open>user_data\<close> of the method, the
  borrowed stream (its call id) and a borrowed context (metadata, compression, deadline flag,
  remaining time). \<^const>\<open>None\<close> is a read through a pointer that is not a method state.
\<close>

type_synonym borrowed_context = "md_handle \<times> Compression \<times> u32 \<times> u64"

definition copy_context :: "borrowed_context \<Rightarrow> ServerContext option" where
  "copy_context = (\<lambda>(view, compression, has_deadline, remaining). ServerContext_new view compression has_deadline remaining)"

definition method_state :: "'s world \<Rightarrow> nat \<Rightarrow> 's ServerStreamCallbacks option" where
  "method_state w u = (case map_of (w_blocks w) u of Some (B_method callbacks) \<Rightarrow> Some callbacks | _ \<Rightarrow> None)"

definition call_if :: "(nat \<Rightarrow> ServerContext \<Rightarrow> 's \<Rightarrow> 's) option \<Rightarrow> nat \<Rightarrow> ServerContext \<Rightarrow> 's \<Rightarrow> 's" where
  "call_if callback stream context s = (case callback of None \<Rightarrow> s | Some f \<Rightarrow> f stream context s)"

definition Server_OnStart :: "'s world \<Rightarrow> nat \<Rightarrow> nat \<Rightarrow> borrowed_context \<Rightarrow> 's \<Rightarrow> 's option" where
  "Server_OnStart w user_data stream context s =
     do { callbacks \<leftarrow> method_state w user_data; copy \<leftarrow> copy_context context;
          Some (call_if (cb_on_start callbacks) stream copy s) }"

definition Server_OnMessage ::
  "'s world \<Rightarrow> nat \<Rightarrow> nat \<Rightarrow> borrowed_context \<Rightarrow> bytes_view \<Rightarrow> Compression \<Rightarrow> 's \<Rightarrow> (ReceiveAction \<times> 's) option" where
  "Server_OnMessage w user_data stream context payload compression s =
     do { callbacks \<leftarrow> method_state w user_data; copy \<leftarrow> copy_context context; payload_copy \<leftarrow> CopyBytes payload;
          case cb_on_message callbacks of None \<Rightarrow> Some (Continue, s)
          | Some f \<Rightarrow> Some (f stream copy payload_copy compression s) }"

definition Server_OnRemoteEnd :: "'s world \<Rightarrow> nat \<Rightarrow> nat \<Rightarrow> borrowed_context \<Rightarrow> 's \<Rightarrow> 's option" where
  "Server_OnRemoteEnd w user_data stream context s =
     do { callbacks \<leftarrow> method_state w user_data; copy \<leftarrow> copy_context context;
          Some (call_if (cb_on_remote_end callbacks) stream copy s) }"

definition Server_OnWritable :: "'s world \<Rightarrow> nat \<Rightarrow> nat \<Rightarrow> borrowed_context \<Rightarrow> 's \<Rightarrow> 's option" where
  "Server_OnWritable w user_data stream context s =
     do { callbacks \<leftarrow> method_state w user_data; copy \<leftarrow> copy_context context;
          Some (call_if (cb_on_writable callbacks) stream copy s) }"

definition Server_OnCancel :: "'s world \<Rightarrow> nat \<Rightarrow> nat \<Rightarrow> borrowed_context \<Rightarrow> 's \<Rightarrow> 's option" where
  "Server_OnCancel w user_data stream context s =
     do { callbacks \<leftarrow> method_state w user_data; copy \<leftarrow> copy_context context;
          Some (call_if (cb_on_cancel callbacks) stream copy s) }"

definition Server_OnTerminal :: "'s world \<Rightarrow> nat \<Rightarrow> nat \<Rightarrow> ServerTerminalReason \<Rightarrow> 's \<Rightarrow> 's option" where
  "Server_OnTerminal w user_data call_id reason s =
     do { callbacks \<leftarrow> method_state w user_data;
          Some (case cb_on_terminal callbacks of None \<Rightarrow> s | Some f \<Rightarrow> f call_id reason s) }"

text \<open>
  \<^verbatim>\<open>Log\<close>, which \<^verbatim>\<open>Channel\<close> and \<^verbatim>\<open>Server\<close> both have: a null message is an empty string; \<open>static_cast\<close> keeps a
  level that is not an enumerator (\<^const>\<open>Inr\<close>). The result is what the logger is called with.
\<close>

datatype LogLevel = LL_Debug | LL_Info | LL_Warn | LL_Error

definition LogLevel_cast :: "u32 \<Rightarrow> LogLevel + u32" where
  "LogLevel_cast level =
     (if level = 0 then Inl LL_Debug else if level = 1 then Inl LL_Info else if level = 2 then Inl LL_Warn
      else if level = 3 then Inl LL_Error else Inr level)"

definition handle_Log :: "'s world \<Rightarrow> nat \<Rightarrow> u32 \<Rightarrow> bytes_view \<Rightarrow> ((LogLevel + u32) \<times> string) option" where
  "handle_Log w user_data level message =
     (case map_of (w_blocks w) user_data of
        Some B_logger \<Rightarrow>
          let data = (case bv_data message of None \<Rightarrow> [] | Some d \<Rightarrow> d) in
          if bv_size message \<le> length data then Some (LogLevel_cast level, take (bv_size message) data) else None
      | _ \<Rightarrow> None)"

subsection \<open>Programs\<close>

text \<open>
  A program holds objects of the three classes and applies their operations to them, by index.
  The fields of an operation are its arguments and the answer of the C function. An operation on
  an object of another class is not a program; it changes nothing.
\<close>

datatype object = O_runtime Runtime | O_channel Channel | O_server Server

record 's program =
  p_objects :: "object list"
  p_world :: "'s world"

datatype 's operation =
    Op_runtime | Op_channel | Op_server
  | Op_move nat
  | Op_assign nat nat
  | Op_destroy nat
  | Op_create_runtime ErrorCode nat
  | Op_create_channel ErrorCode "nat option" string ChannelOptions nat
  | Op_create_server ErrorCode ServerOptions nat
  | Op_register ErrorCode string ServerMethodOptions "'s ServerStreamCallbacks" nat

fun object_move :: "object \<Rightarrow> object \<times> object" where
  "object_move (O_runtime r) = map_prod O_runtime O_runtime (Runtime_move r)"
| "object_move (O_channel c) = map_prod O_channel O_channel (Channel_move c)"
| "object_move (O_server s) = map_prod O_server O_server (Server_move s)"

fun object_reset :: "object \<Rightarrow> 's world \<Rightarrow> object \<times> 's world" where
  "object_reset (O_runtime r) w = map_prod O_runtime id (Runtime_destroy r w)"
| "object_reset (O_channel c) w = map_prod O_channel id (Channel_Reset c w)"
| "object_reset (O_server s) w = map_prod O_server id (Server_Reset s w)"

fun object_assign :: "bool \<Rightarrow> object \<Rightarrow> object \<Rightarrow> 's world \<Rightarrow> object \<times> object \<times> 's world" where
  "object_assign same (O_runtime a) (O_runtime b) w = map_prod O_runtime (map_prod O_runtime id) (Runtime_assign same a b w)"
| "object_assign same (O_channel a) (O_channel b) w = map_prod O_channel (map_prod O_channel id) (Channel_assign same a b w)"
| "object_assign same (O_server a) (O_server b) w = map_prod O_server (map_prod O_server id) (Server_assign same a b w)"
| "object_assign same a b w = (a, b, w)"

definition object_at :: "'s program \<Rightarrow> nat \<Rightarrow> object option" where
  "object_at p i = (if i < length (p_objects p) then Some (p_objects p ! i) else None)"

definition runtime_at :: "'s program \<Rightarrow> nat option \<Rightarrow> Runtime option" where
  "runtime_at p r = (case Option.bind r (object_at p) of Some (O_runtime h) \<Rightarrow> Some h | _ \<Rightarrow> None)"

definition put :: "nat \<Rightarrow> object \<Rightarrow> 's world \<Rightarrow> 's program \<Rightarrow> 's program" where
  "put i ob w p = p\<lparr>p_objects := (p_objects p)[i := ob], p_world := w\<rparr>"

fun apply_operation :: "'s operation \<Rightarrow> 's program \<Rightarrow> 's program" where
  "apply_operation Op_runtime p = p\<lparr>p_objects := p_objects p @ [O_runtime None]\<rparr>"
| "apply_operation Op_channel p = p\<lparr>p_objects := p_objects p @ [O_channel Channel_new]\<rparr>"
| "apply_operation Op_server p = p\<lparr>p_objects := p_objects p @ [O_server Server_new]\<rparr>"
| "apply_operation (Op_move i) p =
     (case object_at p i of None \<Rightarrow> p
      | Some other \<Rightarrow> let (new, other') = object_move other in
          p\<lparr>p_objects := (p_objects p)[i := other'] @ [new]\<rparr>)"
| "apply_operation (Op_assign i j) p =
     (case (object_at p i, object_at p j) of
        (Some this, Some other) \<Rightarrow> let (this', other', w) = object_assign (i = j) this other (p_world p) in
          put i this' w (put j other' w p)
      | _ \<Rightarrow> p)"
| "apply_operation (Op_destroy i) p =
     (case object_at p i of None \<Rightarrow> p
      | Some this \<Rightarrow> let (this', w) = object_reset this (p_world p) in put i this' w p)"
| "apply_operation (Op_create_runtime reply i) p =
     (case object_at p i of
        Some (O_runtime old) \<Rightarrow>
          (case Runtime_Create reply (Some old) (p_world p) of
             (_, Some new, w) \<Rightarrow> put i (O_runtime new) w p | _ \<Rightarrow> p)
      | _ \<Rightarrow> p)"
| "apply_operation (Op_create_channel reply runtime target options i) p =
     (case object_at p i of
        Some (O_channel old) \<Rightarrow>
          (case Channel_CreateManaged reply (runtime_at p runtime) target options (Some old) (p_world p) of
             (_, Some new, w) \<Rightarrow> put i (O_channel new) w p | _ \<Rightarrow> p)
      | _ \<Rightarrow> p)"
| "apply_operation (Op_create_server reply options i) p =
     (case object_at p i of
        Some (O_server old) \<Rightarrow>
          (case Server_Create reply options (Some old) (p_world p) of
             (_, Some new, w) \<Rightarrow> put i (O_server new) w p | _ \<Rightarrow> p)
      | _ \<Rightarrow> p)"
| "apply_operation (Op_register reply path options callbacks i) p =
     (case object_at p i of
        Some (O_server s) \<Rightarrow>
          let (_, s', w) = Server_RegisterStream reply path options callbacks s (p_world p) in put i (O_server s') w p
      | _ \<Rightarrow> p)"

definition program_start :: "'s program" where
  "program_start = \<lparr>p_objects = [], p_world = w_empty\<rparr>"

fun run_program :: "'s operation list \<Rightarrow> 's program \<Rightarrow> 's program" where
  "run_program [] p = p"
| "run_program (k # ks) p = run_program ks (apply_operation k p)"

text \<open>
  What the programmer promises: a runtime outlives every handle created with it (the comment of
  the class). The operations that give up the runtime of an object come when nothing points to it.
\<close>

fun gives_up :: "'s operation \<Rightarrow> nat option" where
  "gives_up (Op_assign i j) = (if i = j then None else Some i)"
| "gives_up (Op_destroy i) = Some i"
| "gives_up (Op_create_runtime reply i) = (if Error_ok reply then Some i else None)"
| "gives_up _ = None"

definition runtime_free :: "'s operation \<Rightarrow> 's program \<Rightarrow> bool" where
  "runtime_free k p =
     (case runtime_at p (gives_up k) of
        Some (Some a) \<Rightarrow> list_all (\<lambda>(_, b). a \<notin> set (pointers b)) (w_blocks (p_world p))
      | _ \<Rightarrow> True)"

fun runtimes_outlive :: "'s operation list \<Rightarrow> 's program \<Rightarrow> bool" where
  "runtimes_outlive [] p = True"
| "runtimes_outlive (k # ks) p = (runtime_free k p \<and> runtimes_outlive ks (apply_operation k p))"

subsection \<open>What an object owns\<close>

abbreviation addresses :: "'s world \<Rightarrow> nat set" where
  "addresses w \<equiv> fst ` set (w_blocks w)"

definition look :: "'s world \<Rightarrow> nat \<Rightarrow> 's block option" where
  "look w = map_of (w_blocks w)"

text \<open>The addresses an object frees, and what has to be there.\<close>

definition channel_owned :: "Channel \<Rightarrow> nat list" where
  "channel_owned c = option_list (cn_channel c) @ option_list (cn_logger c)"

definition server_owned :: "Server \<Rightarrow> nat list" where
  "server_owned s = option_list (sv_server s) @ sv_methods s @ option_list (sv_logger s)"

fun object_owned :: "object \<Rightarrow> nat list" where
  "object_owned (O_runtime r) = option_list r"
| "object_owned (O_channel c) = channel_owned c"
| "object_owned (O_server s) = server_owned s"

definition is_method :: "'s block option \<Rightarrow> bool" where
  "is_method b = (case b of Some (B_method _) \<Rightarrow> True | _ \<Rightarrow> False)"

definition is_runtime :: "'s block option \<Rightarrow> bool" where
  "is_runtime b = (case b of Some B_runtime \<Rightarrow> True | _ \<Rightarrow> False)"

definition is_logger :: "'s block option \<Rightarrow> bool" where
  "is_logger b = (case b of Some B_logger \<Rightarrow> True | _ \<Rightarrow> False)"

definition runtime_sound :: "'s world \<Rightarrow> Runtime \<Rightarrow> bool" where
  "runtime_sound w r = list_all (\<lambda>a. is_runtime (look w a)) (option_list r)"

text \<open>
  The logger of a channel is the one its native channel was created with; the method states of a
  server are those its native server has as \<^verbatim>\<open>user_data\<close>, in the order of registration.
\<close>

definition channel_sound :: "'s world \<Rightarrow> Channel \<Rightarrow> bool" where
  "channel_sound w c =
     (list_all (\<lambda>a. is_logger (look w a)) (option_list (cn_logger c)) \<and>
      (case cn_channel c of None \<Rightarrow> cn_logger c = None
       | Some a \<Rightarrow> (case look w a of Some (B_channel runtime target k) \<Rightarrow> kc_logger k = cn_logger c | _ \<Rightarrow> False)))"

definition server_sound :: "'s world \<Rightarrow> Server \<Rightarrow> bool" where
  "server_sound w s =
     (list_all (\<lambda>a. is_logger (look w a)) (option_list (sv_logger s)) \<and>
      list_all (\<lambda>a. is_method (look w a)) (sv_methods s) \<and>
      (case sv_server s of None \<Rightarrow> sv_logger s = None \<and> sv_methods s = []
       | Some a \<Rightarrow> (case look w a of
            Some (B_server k ms) \<Rightarrow> sc_logger k = sv_logger s \<and> map (\<lambda>(path, options, u). u) ms = sv_methods s
          | _ \<Rightarrow> False)))"

fun object_sound :: "'s world \<Rightarrow> object \<Rightarrow> bool" where
  "object_sound w (O_runtime r) = runtime_sound w r"
| "object_sound w (O_channel c) = channel_sound w c"
| "object_sound w (O_server s) = server_sound w s"

text \<open>Freeing several blocks at once, when nothing else points to them.\<close>

definition without :: "nat set \<Rightarrow> 's world \<Rightarrow> 's world" where
  "without A w = w\<lparr>w_blocks := filter (\<lambda>(x, _). x \<notin> A) (w_blocks w)\<rparr>"

definition unreferenced :: "nat set \<Rightarrow> 's world \<Rightarrow> bool" where
  "unreferenced A w = (\<forall>(x, b) \<in> set (w_blocks w). x \<notin> A \<longrightarrow> set (pointers b) \<inter> A = {})"

lemma without_empty [simp]: "without {} w = w"
  by (simp add: without_def)

lemma without_without [simp]: "without A (without B w) = without (B \<union> A) w"
  by (auto simp: without_def intro!: arg_cong [where f = "\<lambda>xs. w_blocks_update (\<lambda>_. xs) w"] filter_cong)

lemma look_without: "look (without A w) a = (if a \<in> A then None else look w a)"
proof -
  have "map_of (filter (\<lambda>(x, _). x \<notin> A) bs) a = (if a \<in> A then None else map_of bs a)"
    for bs :: "(nat \<times> 'a block) list"
    by (induction bs) auto
  then show ?thesis by (simp add: look_def without_def)
qed

lemma addresses_without [simp]: "addresses (without A w) = addresses w - A"
  by (force simp: without_def)

lemma look_in: "look w a = Some b \<Longrightarrow> (a, b) \<in> set (w_blocks w)"
  by (simp add: look_def map_of_SomeD)

lemma look_address: "look w a \<noteq> None \<longleftrightarrow> a \<in> addresses w"
  by (simp add: look_def map_of_eq_None_iff)

lemma is_block_address:
  "is_runtime (look w a) \<Longrightarrow> a \<in> addresses w" "is_logger (look w a) \<Longrightarrow> a \<in> addresses w"
  "is_method (look w a) \<Longrightarrow> a \<in> addresses w"
  unfolding look_address [symmetric]
  by (auto simp: is_runtime_def is_logger_def is_method_def split: option.splits)

lemma look_unique:
  "distinct (map fst (w_blocks w)) \<Longrightarrow> (a, b) \<in> set (w_blocks w) \<Longrightarrow> look w a = Some b"
  by (simp add: look_def)

text \<open>Only runtimes are pointed to from elsewhere.\<close>

definition runtime_pointers :: "'s block \<Rightarrow> nat list" where
  "runtime_pointers b = (case b of B_channel runtime target k \<Rightarrow> option_list runtime | _ \<Rightarrow> [])"

definition well_formed :: "'s world \<Rightarrow> bool" where
  "well_formed w =
     (distinct (map fst (w_blocks w)) \<and> (\<forall>a \<in> addresses w. a < w_next w) \<and> \<not> w_fault w \<and>
      list_all (\<lambda>(_, b). list_all (\<lambda>r. is_runtime (look w r)) (runtime_pointers b)) (w_blocks w))"

text \<open>One block is freed without a fault when it is there and nothing points to it.\<close>

definition unpointed :: "nat \<Rightarrow> 's world \<Rightarrow> bool" where
  "unpointed a w = (\<forall>(x, b) \<in> set (w_blocks w). a \<notin> set (pointers b))"

lemma release_None [simp]: "release None w = w"
  by (simp add: release_def)

lemma release_Some:
  "a \<in> addresses w \<Longrightarrow> unpointed a w \<Longrightarrow> release (Some a) w = without {a} w"
proof -
  assume "a \<in> addresses w" "unpointed a w"
  then have "(w_fault w \<or> a \<notin> addresses w \<or> list_ex (\<lambda>(_, b). a \<in> set (pointers b)) (w_blocks w)) = w_fault w"
    by (auto simp: unpointed_def list_ex_iff)
  then show ?thesis by (simp add: release_def without_def)
qed

lemma unpointed_without: "unpointed a w \<Longrightarrow> unpointed a (without A w)"
  by (auto simp: unpointed_def without_def)

lemma release_list:
  assumes "distinct as" and "set as \<subseteq> addresses w" and "\<forall>a \<in> set as. unpointed a w"
  shows "fold (\<lambda>m. release (Some m)) as w = without (set as) w"
  using assms
proof (induction as arbitrary: w)
  case (Cons a as)
  have "release (Some a) w = without {a} w"
    using Cons.prems by (intro release_Some) auto
  moreover have "fold (\<lambda>m. release (Some m)) as (without {a} w) = without (set as) (without {a} w)"
    using Cons.prems by (intro Cons.IH) (auto simp: unpointed_without)
  ultimately show ?case by simp
qed simp

subsection \<open>The contract of an owner\<close>

text \<open>
  What the three classes have in common: an object has an empty state; \<^verbatim>\<open>Reset\<close> frees exactly what
  it owns and leaves it empty; moving hands everything over; assigning resets the target first.
\<close>

locale owner =
  fixes owned :: "'o \<Rightarrow> nat list"
    and sound :: "'s world \<Rightarrow> 'o \<Rightarrow> bool"
    and reset :: "'o \<Rightarrow> 's world \<Rightarrow> 'o \<times> 's world"
    and move :: "'o \<Rightarrow> 'o \<times> 'o"
    and assign :: "bool \<Rightarrow> 'o \<Rightarrow> 'o \<Rightarrow> 's world \<Rightarrow> 'o \<times> 'o \<times> 's world"
    and empty :: 'o
  assumes owned_empty: "owned empty = []"
    and sound_empty: "sound w empty"
    and sound_live: "sound w x \<Longrightarrow> set (owned x) \<subseteq> addresses w"
    and sound_cong: "(\<And>a. a \<in> set (owned x) \<Longrightarrow> look w' a = look w a) \<Longrightarrow> sound w' x = sound w x"
    and reset_empties: "fst (reset x w) = empty"
    and reset_frees: "sound w x \<Longrightarrow> distinct (owned x) \<Longrightarrow> well_formed w \<Longrightarrow>
      unreferenced (set (owned x)) w \<Longrightarrow> snd (reset x w) = without (set (owned x)) w"
    and move_eq: "move x = (x, empty)"
    and assign_eq: "assign same x y w = (if same then (x, y, w) else (y, empty, snd (reset x w)))"
begin

lemma reset_empty: "well_formed w \<Longrightarrow> snd (reset empty w) = w"
  using reset_frees [OF sound_empty] by (simp add: owned_empty unreferenced_def)

lemma reset_eq:
  "sound w x \<Longrightarrow> distinct (owned x) \<Longrightarrow> well_formed w \<Longrightarrow>
   unreferenced (set (owned x)) w \<Longrightarrow> reset x w = (empty, without (set (owned x)) w)"
  using reset_empties reset_frees by (metis prod.collapse)

end

subsection \<open>The three classes are owners\<close>

definition plain_block :: "'s block option \<Rightarrow> bool" where
  "plain_block b = (is_logger b \<or> is_method b \<or> is_runtime b)"

lemma plain_pointers: "plain_block (Some b) \<Longrightarrow> pointers b = []"
  by (cases b) (auto simp: plain_block_def is_logger_def is_method_def is_runtime_def)

text \<open>After the native object is gone, only plain blocks are left of an owner.\<close>

lemma unpointed_rest:
  assumes "unreferenced A w" and "a \<in> A" and "well_formed w"
    and plain: "\<And>x. x \<in> A - B \<Longrightarrow> plain_block (look w x)"
  shows "unpointed a (without B w)"
proof -
  have "a \<notin> set (pointers b)" if xb: "(x, b) \<in> set (w_blocks w)" "x \<notin> B" for x b
  proof (cases "x \<in> A")
    case True
    have "look w x = Some b" using assms(3) xb by (auto simp: well_formed_def intro: look_unique)
    then show ?thesis using plain [of x] True xb(2) by (simp add: plain_pointers)
  next
    case False
    then show ?thesis using assms(1,2) xb by (auto simp: unreferenced_def)
  qed
  then show ?thesis by (auto simp: unpointed_def without_def)
qed

text \<open>The native object itself: its own pointers lead to blocks of other kinds.\<close>

lemma unpointed_head:
  assumes "unreferenced A w" and "a \<in> A" and "well_formed w" and "look w a = Some b" and "a \<notin> set (pointers b)"
    and plain: "\<And>x. x \<in> A - {a} \<Longrightarrow> plain_block (look w x)"
  shows "unpointed a w"
proof -
  have "unpointed a (without {a} w)" using assms by (intro unpointed_rest) auto
  moreover have "b' = b" if "(a, b') \<in> set (w_blocks w)" for b'
    using that assms(3,4) look_unique [of w a b'] by (simp add: well_formed_def)
  ultimately show ?thesis using assms(5) by (auto simp: unpointed_def without_def)
qed

lemma runtime_reset_frees:
  assumes "runtime_sound w r" and "well_formed w" and "unreferenced (set (option_list r)) w"
  shows "release r w = without (set (option_list r)) w"
proof (cases r)
  case (Some a)
  then have a: "look w a = Some B_runtime"
    using assms(1) by (auto simp: runtime_sound_def is_runtime_def split: option.splits block.splits)
  have "unpointed a w" using assms Some a by (intro unpointed_head [where A = "{a}"]) auto
  then show ?thesis using Some a look_address [of w a] by (simp add: release_Some)
qed simp

lemma channel_reset_frees:
  assumes sound: "channel_sound w c" and d: "distinct (channel_owned c)" and wf: "well_formed w"
    and un: "unreferenced (set (channel_owned c)) w"
  shows "snd (Channel_Reset c w) = without (set (channel_owned c)) w"
proof (cases "cn_channel c")
  case None
  then show ?thesis using sound by (simp add: Channel_Reset_def channel_sound_def channel_owned_def Let_def)
next
  case (Some a)
  obtain r t k where b: "look w a = Some (B_channel r t k)" "kc_logger k = cn_logger c"
    using sound Some by (auto simp: channel_sound_def split: option.splits block.splits)
  have plain: "plain_block (look w l)" if "l \<in> set (option_list (cn_logger c))" for l
    using sound that by (auto simp: channel_sound_def list_all_iff plain_block_def)
  have "(a, B_channel r t k) \<in> set (w_blocks w)" using b by (simp add: look_in)
  then have "a \<notin> set (option_list r)"
    using wf b by (fastforce simp: well_formed_def list_all_iff runtime_pointers_def is_runtime_def)
  then have "unpointed a w"
    using Some b d by (intro unpointed_head [OF un _ wf b(1)]) (auto simp: channel_owned_def intro: plain)
  then have 1: "release (Some a) w = without {a} w" using b look_address [of w a] by (simp add: release_Some)
  have "release (cn_logger c) (without {a} w) = without (set (option_list (cn_logger c))) (without {a} w)"
  proof (cases "cn_logger c")
    case l: (Some l)
    have "unpointed l (without {a} w)"
      using Some l plain by (intro unpointed_rest [OF un _ wf]) (auto simp: channel_owned_def)
    moreover have "l \<in> addresses w" "l \<noteq> a"
      using sound d Some l is_block_address(2) by (auto simp: channel_sound_def channel_owned_def)
    ultimately show ?thesis using l by (simp add: release_Some)
  qed simp
  then show ?thesis using Some 1 by (simp add: Channel_Reset_def channel_owned_def Let_def)
qed

lemma server_reset_frees:
  assumes sound: "server_sound w s" and d: "distinct (server_owned s)" and wf: "well_formed w"
    and un: "unreferenced (set (server_owned s)) w"
  shows "snd (Server_Reset s w) = without (set (server_owned s)) w"
proof (cases "sv_server s")
  case None
  then show ?thesis using sound by (simp add: Server_Reset_def server_sound_def server_owned_def Let_def)
next
  case (Some a)
  obtain k ms where b: "look w a = Some (B_server k ms)" "sc_logger k = sv_logger s"
      "map (\<lambda>(path, options, u). u) ms = sv_methods s"
    using sound Some by (auto simp: server_sound_def split: option.splits block.splits)
  have plain: "plain_block (look w l)" "l \<in> addresses w"
    if "l \<in> set (sv_methods s) \<union> set (option_list (sv_logger s))" for l
    using sound that by (auto simp: server_sound_def list_all_iff plain_block_def is_block_address)
  have "unpointed a w"
    using Some b d by (intro unpointed_head [OF un _ wf b(1)]) (auto simp: server_owned_def intro: plain)
  then have 1: "release (Some a) w = without {a} w" using b look_address [of w a] by (simp add: release_Some)
  have rest: "unpointed l (without {a} w)" if "l \<in> set (sv_methods s) \<union> set (option_list (sv_logger s))" for l
    using Some that plain by (intro unpointed_rest [OF un _ wf]) (auto simp: server_owned_def)
  have 2: "fold (\<lambda>m. release (Some m)) (sv_methods s) (without {a} w) = without (set (sv_methods s)) (without {a} w)"
    using d Some plain rest by (intro release_list) (auto simp: server_owned_def)
  have 3: "release (sv_logger s) (without (insert a (set (sv_methods s))) w) =
      without (set (option_list (sv_logger s))) (without (insert a (set (sv_methods s))) w)"
  proof (cases "sv_logger s")
    case l: (Some l)
    have "unpointed l (without (set (sv_methods s)) (without {a} w))"
      using l by (intro unpointed_without [OF rest]) simp
    moreover have "l \<notin> insert a (set (sv_methods s))" using d Some l by (auto simp: server_owned_def)
    ultimately show ?thesis using l plain(2) [of l] by (simp add: release_Some)
  qed simp
  show ?thesis using Some 1 2 3 by (simp add: Server_Reset_def server_owned_def Let_def)
qed

lemma runtime_sound_cong:
  "(\<And>a. a \<in> set (option_list r) \<Longrightarrow> look w' a = look w a) \<Longrightarrow> runtime_sound w' r = runtime_sound w r"
  by (auto simp: runtime_sound_def list_all_iff)

lemma channel_sound_cong:
  "(\<And>a. a \<in> set (channel_owned c) \<Longrightarrow> look w' a = look w a) \<Longrightarrow> channel_sound w' c = channel_sound w c"
  by (cases "cn_channel c") (auto simp: channel_sound_def channel_owned_def list_all_iff)

lemma server_sound_cong:
  "(\<And>a. a \<in> set (server_owned s) \<Longrightarrow> look w' a = look w a) \<Longrightarrow> server_sound w' s = server_sound w s"
  by (cases "sv_server s") (auto simp: server_sound_def server_owned_def list_all_iff)

lemma channel_sound_live: "channel_sound w c \<Longrightarrow> set (channel_owned c) \<subseteq> addresses w"
  using look_address by (fastforce simp: channel_sound_def channel_owned_def list_all_iff is_block_address
    split: option.splits)

lemma server_sound_live: "server_sound w s \<Longrightarrow> set (server_owned s) \<subseteq> addresses w"
  using look_address by (fastforce simp: server_sound_def server_owned_def list_all_iff is_block_address
    split: option.splits)

interpretation runtime_owner: owner option_list runtime_sound Runtime_destroy Runtime_move Runtime_assign None
  by unfold_locales
    (auto simp: Runtime_destroy_def Runtime_move_def Runtime_assign_def runtime_reset_frees
      runtime_sound_def list_all_iff is_block_address)

lemmas channel_defs = Channel_new_def Channel_move_def Channel_assign_def Channel_Reset_def channel_owned_def
  channel_sound_def

lemma channel_laws:
  "channel_owned Channel_new = []" "channel_sound w Channel_new" "fst (Channel_Reset c w) = Channel_new"
  "Channel_move c = (c, Channel_new)"
  "Channel_assign same c c' w = (if same then (c, c', w) else (c', Channel_new, snd (Channel_Reset c w)))"
  by (simp_all add: channel_defs Let_def)

interpretation channel_owner: owner channel_owned channel_sound Channel_Reset Channel_move Channel_assign Channel_new
  by (unfold_locales, simp_all add: channel_laws channel_sound_live channel_reset_frees) (rule channel_sound_cong, simp)

lemmas server_defs = Server_new_def Server_move_def Server_assign_def Server_Reset_def server_owned_def
  server_sound_def

lemma server_laws:
  "server_owned Server_new = []" "server_sound w Server_new" "fst (Server_Reset s w) = Server_new"
  "Server_move s = (s, Server_new)"
  "Server_assign same s s' w = (if same then (s, s', w) else (s', Server_new, snd (Server_Reset s w)))"
  by (simp_all add: server_defs Let_def)

interpretation server_owner: owner server_owned server_sound Server_Reset Server_move Server_assign Server_new
  by (unfold_locales, simp_all add: server_laws server_sound_live server_reset_frees) (rule server_sound_cong, simp)

subsection \<open>Every block has one owner\<close>

fun object_empty :: "object \<Rightarrow> object" where
  "object_empty (O_runtime _) = O_runtime None"
| "object_empty (O_channel _) = O_channel Channel_new"
| "object_empty (O_server _) = O_server Server_new"

definition owned_by :: "object list \<Rightarrow> nat list" where
  "owned_by obs = concat (map object_owned obs)"

definition accounted :: "object list \<Rightarrow> 's world \<Rightarrow> bool" where
  "accounted obs w \<longleftrightarrow>
     well_formed w \<and> distinct (owned_by obs) \<and> set (owned_by obs) = addresses w \<and> (\<forall>ob \<in> set obs. object_sound w ob)"

lemma object_owned_empty [simp]: "object_owned (object_empty ob) = []"
  by (cases ob) (simp_all add: channel_owner.owned_empty server_owner.owned_empty)

lemma object_sound_empty [simp]: "object_sound w (object_empty ob)"
  by (cases ob) (simp_all add: runtime_owner.sound_empty channel_owner.sound_empty server_owner.sound_empty)

lemma object_sound_cong:
  assumes "\<And>a. a \<in> set (object_owned ob) \<Longrightarrow> look w' a = look w a"
  shows "object_sound w' ob = object_sound w ob"
proof (cases ob)
  case (O_runtime r)
  then show ?thesis using assms runtime_owner.sound_cong [of r w' w] by simp
next
  case (O_channel c)
  then show ?thesis using assms channel_owner.sound_cong [of c w' w] by simp
next
  case (O_server s)
  then show ?thesis using assms server_owner.sound_cong [of s w' w] by simp
qed

lemma object_reset_eq:
  assumes "object_sound w ob" "distinct (object_owned ob)" "well_formed w" "unreferenced (set (object_owned ob)) w"
  shows "object_reset ob w = (object_empty ob, without (set (object_owned ob)) w)"
  using assms
  by (cases ob) (simp_all add: runtime_owner.reset_eq channel_owner.reset_eq server_owner.reset_eq)

lemma object_move_eq: "object_move ob = (ob, object_empty ob)"
  by (cases ob) (simp_all add: runtime_owner.move_eq channel_owner.move_eq server_owner.move_eq)

text \<open>The objects count as a multiset: moving between them changes nothing.\<close>

lemma mset_owned_by: "mset (owned_by obs) = (\<Sum>ob \<in># mset obs. mset (object_owned ob))"
  by (induction obs) (simp_all add: owned_by_def)

lemma accounted_mset: "mset obs = mset obs' \<Longrightarrow> accounted obs w = accounted obs' w"
proof -
  assume m: "mset obs = mset obs'"
  then have "mset (owned_by obs) = mset (owned_by obs')" by (simp add: mset_owned_by)
  from mset_eq_imp_distinct_iff [OF this] mset_eq_setD [OF this] mset_eq_setD [OF m]
  show ?thesis by (simp add: accounted_def)
qed

lemma accounted_empty: "object_owned ob = [] \<Longrightarrow> object_sound w ob \<Longrightarrow> accounted (ob # obs) w = accounted obs w"
  by (simp add: accounted_def owned_by_def)

text \<open>Other owners do not point to what an object owns, unless it is a runtime.\<close>

lemma user_data_in: "map (\<lambda>(path, options, u). u) ms = us \<Longrightarrow> (path, options, u) \<in> set ms \<Longrightarrow> u \<in> set us"
  by force

lemma own_pointers:
  assumes "object_sound w ob" "a \<in> set (object_owned ob)" "look w a = Some b" "u \<in> set (pointers b)"
  shows "u \<in> set (object_owned ob) \<or> u \<in> set (runtime_pointers b)"
  using assms
  by (cases ob; cases b)
    (auto simp: channel_owned_def server_owned_def channel_sound_def server_sound_def runtime_sound_def list_all_iff
      runtime_pointers_def is_logger_def is_method_def is_runtime_def dest: user_data_in split: option.splits)

fun is_runtime_object :: "object \<Rightarrow> bool" where
  "is_runtime_object (O_runtime _) = True"
| "is_runtime_object _ = False"

lemma owned_not_runtime:
  "object_sound w ob \<Longrightarrow> a \<in> set (object_owned ob) \<Longrightarrow> is_runtime (look w a) \<Longrightarrow> is_runtime_object ob"
  by (cases ob)
    (auto simp: channel_owned_def server_owned_def channel_sound_def server_sound_def list_all_iff
      is_logger_def is_method_def is_runtime_def split: option.splits block.splits)

lemma accounted_unreferenced:
  assumes "accounted (ob # obs) w" and "\<not> is_runtime_object ob"
  shows "unreferenced (set (object_owned ob)) w"
  unfolding unreferenced_def
proof (clarify, rule ccontr)
  fix x b assume xb: "(x, b) \<in> set (w_blocks w)" "x \<notin> set (object_owned ob)"
    and "set (pointers b) \<inter> set (object_owned ob) \<noteq> {}"
  then obtain u where u: "u \<in> set (pointers b)" "u \<in> set (object_owned ob)" by blast
  have wf: "well_formed w" and s: "object_sound w ob" using assms by (auto simp: accounted_def)
  have l: "look w x = Some b" using wf xb by (auto simp: well_formed_def intro: look_unique)
  have "x \<in> addresses w" using xb by force
  then obtain ob' where ob': "ob' \<in> set obs" "x \<in> set (object_owned ob')"
    using assms(1) xb(2) by (auto simp: accounted_def owned_by_def)
  have "set (object_owned ob') \<inter> set (object_owned ob) = {}"
    using assms(1) ob'(1) by (auto simp: accounted_def owned_by_def)
  moreover have "u \<in> set (object_owned ob') \<or> u \<in> set (runtime_pointers b)"
    using own_pointers [OF _ ob'(2) l u(1)] assms(1) ob'(1) by (auto simp: accounted_def)
  ultimately have "u \<in> set (runtime_pointers b)" using u(2) by blast
  then have "is_runtime (look w u)" using wf xb(1) by (auto simp: well_formed_def list_all_iff)
  then show False using owned_not_runtime [OF s u(2)] assms(2) by simp
qed

lemma well_formed_without:
  assumes wf: "well_formed w" and un: "unreferenced A w"
  shows "well_formed (without A w)"
proof -
  have "is_runtime (look (without A w) r)"
    if "(x, b) \<in> set (w_blocks w)" "x \<notin> A" "r \<in> set (runtime_pointers b)" for x b r
  proof -
    have "r \<in> set (pointers b)" using that(3) by (cases b) (auto simp: runtime_pointers_def)
    then have "r \<notin> A" using un that by (auto simp: unreferenced_def)
    moreover have "is_runtime (look w r)" using wf that by (auto simp: well_formed_def list_all_iff)
    ultimately show ?thesis by (simp add: look_without)
  qed
  moreover have "distinct (map fst (filter (\<lambda>(x, _). x \<notin> A) (w_blocks w)))"
    using wf by (simp add: well_formed_def distinct_map_filter)
  ultimately show ?thesis using wf by (auto simp: well_formed_def list_all_iff without_def)
qed

lemma accounted_reset:
  assumes acc: "accounted (ob # obs) w" and un: "unreferenced (set (object_owned ob)) w"
  shows "object_reset ob w = (object_empty ob, without (set (object_owned ob)) w)"
    and "accounted obs (without (set (object_owned ob)) w)"
proof -
  have ob: "object_sound w ob" "distinct (object_owned ob)" "well_formed w"
    using acc by (auto simp: accounted_def owned_by_def)
  show "object_reset ob w = (object_empty ob, without (set (object_owned ob)) w)"
    using ob un by (rule object_reset_eq)
  have "object_sound (without (set (object_owned ob)) w) ob'" if "ob' \<in> set obs" for ob'
  proof -
    have "set (object_owned ob') \<inter> set (object_owned ob) = {}"
      using acc that by (auto simp: accounted_def owned_by_def)
    then have "object_sound (without (set (object_owned ob)) w) ob' = object_sound w ob'"
      by (intro object_sound_cong) (auto simp: look_without)
    then show ?thesis using acc that by (simp add: accounted_def)
  qed
  then show "accounted obs (without (set (object_owned ob)) w)"
    using acc well_formed_without [OF ob(3) un] by (auto simp: accounted_def owned_by_def)
qed

text \<open>New blocks with a new owner.\<close>

definition extend :: "(nat \<times> 's block) list \<Rightarrow> 's world \<Rightarrow> 's world" where
  "extend bs w = w\<lparr>w_next := w_next w + length bs, w_blocks := bs @ w_blocks w\<rparr>"

lemma look_extend: "look (extend bs w) a = (case map_of bs a of None \<Rightarrow> look w a | Some b \<Rightarrow> Some b)"
  by (simp add: look_def extend_def map_add_def split: option.split)

lemma accounted_extend:
  assumes acc: "accounted obs w" and fresh: "mset (map fst bs) = mset [w_next w ..< w_next w + length bs]"
    and ob: "mset (object_owned ob) = mset (map fst bs)" "object_sound (extend bs w) ob"
    and rt: "\<And>x b r. (x, b) \<in> set bs \<Longrightarrow> r \<in> set (runtime_pointers b) \<Longrightarrow> is_runtime (look w r)"
  shows "accounted (ob # obs) (extend bs w)"
proof -
  have new: "set (map fst bs) = {w_next w ..< w_next w + length bs}" "distinct (map fst bs)"
    using fresh mset_eq_setD [OF fresh] mset_eq_imp_distinct_iff [OF fresh] by auto
  have old: "a < w_next w" if "a \<in> addresses w" for a using acc that by (auto simp: accounted_def well_formed_def)
  have disjoint: "set (map fst bs) \<inter> addresses w = {}" using old new(1) by fastforce
  have bound: "addresses (extend bs w) = set (map fst bs) \<union> addresses w" by (auto simp: extend_def)
  have same: "look (extend bs w) a = look w a" if "a \<in> addresses w" for a
  proof -
    have "a \<notin> set (map fst bs)" using old [OF that] new(1) by auto
    then have "map_of bs a = None" by (simp add: map_of_eq_None_iff)
    then show ?thesis by (simp add: look_extend)
  qed
  have "object_sound (extend bs w) ob'" if "ob' \<in> set obs" for ob'
  proof -
    have "set (object_owned ob') \<subseteq> addresses w" using acc that by (auto simp: accounted_def owned_by_def)
    then have "object_sound (extend bs w) ob' = object_sound w ob'"
      using same by (intro object_sound_cong) auto
    then show ?thesis using acc that by (simp add: accounted_def)
  qed
  moreover have "well_formed (extend bs w)"
  proof -
    have "is_runtime (look (extend bs w) r)"
      if "(x, b) \<in> set bs \<union> set (w_blocks w)" "r \<in> set (runtime_pointers b)" for x b r
    proof -
      have "is_runtime (look w r)"
        using that rt acc by (auto simp: accounted_def well_formed_def list_all_iff)
      then show ?thesis using same [of r] is_block_address(1) [of w r] by simp
    qed
    then have "list_all (\<lambda>(_, b). list_all (\<lambda>r. is_runtime (look (extend bs w) r)) (runtime_pointers b))
        (w_blocks (extend bs w))"
      by (auto simp: extend_def list_all_iff)
    moreover have "distinct (map fst (w_blocks (extend bs w)))"
      using new(2) disjoint acc by (simp add: extend_def accounted_def well_formed_def)
    moreover have "a < w_next w + length bs" if "a \<in> set (map fst bs) \<union> addresses w" for a
      using that unfolding new(1) by (elim UnE) (simp, simp add: old trans_less_add1)
    then have "\<forall>a \<in> addresses (extend bs w). a < w_next (extend bs w)"
      unfolding bound by (simp add: extend_def)
    moreover have "\<not> w_fault (extend bs w)" using acc by (simp add: extend_def accounted_def well_formed_def)
    ultimately show ?thesis unfolding well_formed_def by blast
  qed
  moreover have "owned_by (ob # obs) = object_owned ob @ owned_by obs" by (simp add: owned_by_def)
  moreover have "set (object_owned ob) = set (map fst bs)" "distinct (object_owned ob)"
    using new(2) mset_eq_setD [OF ob(1)] mset_eq_imp_distinct_iff [OF ob(1)] by auto
  ultimately show ?thesis using acc ob(2) disjoint bound by (simp add: accounted_def)
qed

subsection \<open>What a program sees of its objects\<close>

text \<open>
  The specification has no addresses: a runtime is there or not; a channel has a target and options;
  a server has options and, in order, the methods registered with it and their callbacks.
\<close>

datatype 's view =
    V_runtime bool
  | V_channel "(string \<times> grpc_lite_channel_options) option"
  | V_server "(grpc_lite_server_options \<times> (string \<times> grpc_lite_server_method_options \<times> 's ServerStreamCallbacks option) list) option"

definition logger_flag :: "'a option \<Rightarrow> nat option" where
  "logger_flag = map_option (\<lambda>_. 0)"

fun object_view :: "'s world \<Rightarrow> object \<Rightarrow> 's view" where
  "object_view w (O_runtime r) = V_runtime (r \<noteq> None)"
| "object_view w (O_channel c) =
     V_channel (case Option.bind (cn_channel c) (look w) of
        Some (B_channel runtime target k) \<Rightarrow> Some (target, k\<lparr>kc_logger := logger_flag (kc_logger k)\<rparr>) | _ \<Rightarrow> None)"
| "object_view w (O_server s) =
     V_server (case Option.bind (sv_server s) (look w) of
        Some (B_server k ms) \<Rightarrow>
          Some (k\<lparr>sc_logger := logger_flag (sc_logger k)\<rparr>, map (\<lambda>(path, options, u). (path, options, method_state w u)) ms)
      | _ \<Rightarrow> None)"

fun view_empty :: "'s view \<Rightarrow> 's view" where
  "view_empty (V_runtime _) = V_runtime False"
| "view_empty (V_channel _) = V_channel None"
| "view_empty (V_server _) = V_server None"

fun same_class :: "'s view \<Rightarrow> 's view \<Rightarrow> bool" where
  "same_class (V_runtime _) (V_runtime _) = True"
| "same_class (V_channel _) (V_channel _) = True"
| "same_class (V_server _) (V_server _) = True"
| "same_class _ _ = False"

definition create_if :: "ErrorCode \<Rightarrow> 's view \<Rightarrow> nat \<Rightarrow> 's view list \<Rightarrow> 's view list" where
  "create_if reply new i vs = (if i < length vs \<and> same_class (vs ! i) new \<and> Error_ok reply then vs[i := new] else vs)"

fun spec_operation :: "'s operation \<Rightarrow> 's view list \<Rightarrow> 's view list" where
  "spec_operation Op_runtime vs = vs @ [V_runtime False]"
| "spec_operation Op_channel vs = vs @ [V_channel None]"
| "spec_operation Op_server vs = vs @ [V_server None]"
| "spec_operation (Op_move i) vs = (if i < length vs then vs[i := view_empty (vs ! i)] @ [vs ! i] else vs)"
| "spec_operation (Op_assign i j) vs =
     (if i < length vs \<and> j < length vs \<and> i \<noteq> j \<and> same_class (vs ! i) (vs ! j)
      then vs[i := vs ! j, j := view_empty (vs ! j)] else vs)"
| "spec_operation (Op_destroy i) vs = (if i < length vs then vs[i := view_empty (vs ! i)] else vs)"
| "spec_operation (Op_create_runtime reply i) vs = create_if reply (V_runtime True) i vs"
| "spec_operation (Op_create_channel reply runtime target options i) vs =
     create_if reply (V_channel (Some (target, c_channel_options options (if k_logger options then Some 0 else None)))) i vs"
| "spec_operation (Op_create_server reply options i) vs =
     create_if reply (V_server (Some (c_server_options options (if so_logger options then Some 0 else None), []))) i vs"
| "spec_operation (Op_register reply path options callbacks i) vs =
     (if i < length vs \<and> Error_ok reply
      then case vs ! i of
        V_server (Some (k, ms)) \<Rightarrow> vs[i := V_server (Some (k, ms @ [(path, c_method_options options, Some callbacks)]))]
      | _ \<Rightarrow> vs
      else vs)"

lemma object_view_empty [simp]: "object_view w (object_empty ob) = view_empty (object_view w ob)"
  by (cases ob) (simp_all add: Channel_new_def Server_new_def)

lemma object_view_cong:
  assumes s: "object_sound w ob" and l: "\<And>a. a \<in> set (object_owned ob) \<Longrightarrow> look w' a = look w a"
  shows "object_view w' ob = object_view w ob"
proof (cases ob)
  case (O_channel c)
  then show ?thesis using l by (cases "cn_channel c") (simp_all add: channel_owned_def)
next
  case (O_server s')
  show ?thesis
  proof (cases "sv_server s'")
    case (Some a)
    then obtain k ms where k: "look w a = Some (B_server k ms)" "map (\<lambda>(path, options, u). u) ms = sv_methods s'"
      using s O_server by (auto simp: server_sound_def split: option.splits block.splits)
    have "method_state w' u = method_state w u" if "(path, options, u) \<in> set ms" for path options u
      using l user_data_in [OF k(2) that] O_server by (simp add: server_owned_def method_state_def look_def)
    then show ?thesis using l k Some O_server by (auto simp: server_owned_def)
  qed (use O_server in simp)
qed simp

subsection \<open>Steps on the objects\<close>

definition others :: "nat \<Rightarrow> 'a list \<Rightarrow> 'a list" where
  "others i xs = take i xs @ drop (Suc i) xs"

lemma mset_others: "i < length xs \<Longrightarrow> mset (xs[i := x]) = mset (x # others i xs)"
  by (simp add: others_def upd_conv_take_nth_drop)

lemma accounted_pick: "i < length obs \<Longrightarrow> accounted (obs[i := ob]) w = accounted (ob # others i obs) w"
  by (intro accounted_mset mset_others)

lemma accounted_nth: "i < length obs \<Longrightarrow> accounted obs w \<Longrightarrow> accounted (obs ! i # others i obs) w"
  using accounted_pick [of i obs "obs ! i" w] by simp

lemma in_others: "k < length xs \<Longrightarrow> k \<noteq> i \<Longrightarrow> xs ! k \<in> set (others i xs)"
proof (cases "k < i")
  case True
  assume "k < length xs"
  then have "take i xs ! k \<in> set (take i xs)" using True by (intro nth_mem) simp
  then show ?thesis using True by (simp add: others_def)
next
  case False
  assume "k < length xs" "k \<noteq> i"
  then have "k - Suc i < length (drop (Suc i) xs)" "drop (Suc i) xs ! (k - Suc i) = xs ! k" using False by auto
  then have "xs ! k \<in> set (drop (Suc i) xs)" by (metis nth_mem)
  then show ?thesis by (simp add: others_def)
qed

lemma accounted_disjoint:
  assumes "accounted obs w" "i < length obs" "k < length obs" "k \<noteq> i"
  shows "set (object_owned (obs ! k)) \<inter> set (object_owned (obs ! i)) = {}"
  using accounted_nth [OF assms(2,1)] in_others [OF assms(3,4)] by (auto simp: accounted_def owned_by_def)

lemma accounted_live: "accounted obs w \<Longrightarrow> ob \<in> set obs \<Longrightarrow> set (object_owned ob) \<subseteq> addresses w"
  by (auto simp: accounted_def owned_by_def)

definition views :: "object list \<Rightarrow> 's world \<Rightarrow> 's view list" where
  "views obs w = map (object_view w) obs"

lemma length_views [simp]: "length (views obs w) = length obs"
  by (simp add: views_def)

lemma nth_views [simp]: "i < length obs \<Longrightarrow> views obs w ! i = object_view w (obs ! i)"
  by (simp add: views_def)

lemma views_update: "views (obs[i := ob]) w = (views obs w)[i := object_view w ob]"
  by (simp add: views_def map_update)

lemma views_frame:
  assumes "\<And>k. k < length obs \<Longrightarrow> k \<noteq> i \<Longrightarrow> object_view w' (obs ! k) = object_view w (obs ! k)"
  shows "views (obs[i := ob]) w' = (views obs w)[i := object_view w' ob]"
proof (rule nth_equalityI)
  fix k assume k: "k < length (views (obs[i := ob]) w')"
  show "views (obs[i := ob]) w' ! k = (views obs w)[i := object_view w' ob] ! k"
    using k assms [of k] by (cases "k = i") simp_all
qed simp

text \<open>Resetting one object; handing one over to an empty one; a new object.\<close>

lemma step_reset:
  assumes acc: "accounted obs w" and i: "i < length obs" and un: "unreferenced (set (object_owned (obs ! i))) w"
  defines "w' \<equiv> without (set (object_owned (obs ! i))) w"
  shows "object_reset (obs ! i) w = (object_empty (obs ! i), w')"
    and "accounted (obs[i := object_empty (obs ! i)]) w'"
    and "views (obs[i := object_empty (obs ! i)]) w' = (views obs w)[i := view_empty (object_view w (obs ! i))]"
proof -
  note reset = accounted_reset [OF accounted_nth [OF i acc] un, folded w'_def]
  show "object_reset (obs ! i) w = (object_empty (obs ! i), w')" by (rule reset)
  show "accounted (obs[i := object_empty (obs ! i)]) w'"
    using reset(2) by (simp add: accounted_pick i accounted_empty)
  have "object_view w' (obs ! k) = object_view w (obs ! k)" if "k < length obs" "k \<noteq> i" for k
    using accounted_disjoint [OF acc i that] acc that(1)
    by (intro object_view_cong) (auto simp: w'_def look_without accounted_def)
  moreover have "object_view w' (object_empty (obs ! i)) = object_view w (object_empty (obs ! i))"
    by (intro object_view_cong) simp_all
  ultimately show "views (obs[i := object_empty (obs ! i)]) w' = (views obs w)[i := view_empty (object_view w (obs ! i))]"
    using views_frame [of obs i w' w] by simp
qed

lemma step_hand_over:
  assumes acc: "accounted obs w" and i: "i < length obs" and j: "j < length obs" and ij: "i \<noteq> j"
    and e: "obs ! i = object_empty ob"
  shows "accounted (obs[i := obs ! j, j := object_empty ob']) w"
proof -
  have "accounted (obs[i := obs ! j, j := obs ! i]) w"
    using acc accounted_mset [OF mset_swap [OF j i]] by (metis (no_types))
  then have "accounted (obs ! i # others j (obs[i := obs ! j])) w"
    using j by (simp add: accounted_pick)
  then have "accounted (object_empty ob' # others j (obs[i := obs ! j])) w"
    by (simp add: e accounted_empty)
  then show ?thesis using j by (simp add: accounted_pick)
qed

lemma step_extend:
  assumes acc: "accounted obs w" and new: "accounted (ob # obs) (extend bs w)"
    and fresh: "mset (map fst bs) = mset [w_next w ..< w_next w + length bs]"
  shows "accounted (obs @ [ob]) (extend bs w)"
    and "views (obs @ [ob]) (extend bs w) = views obs w @ [object_view (extend bs w) ob]"
proof -
  show "accounted (obs @ [ob]) (extend bs w)" using new accounted_mset [of "ob # obs" "obs @ [ob]" "extend bs w"] by simp
  have "look (extend bs w) a = look w a" if "a \<in> addresses w" for a
  proof -
    have "a < w_next w" using acc that by (auto simp: accounted_def well_formed_def)
    then have "a \<notin> set (map fst bs)" using mset_eq_setD [OF fresh] by simp
    then show ?thesis by (simp add: look_extend map_of_eq_None_iff [THEN iffD2])
  qed
  then have "object_view (extend bs w) ob' = object_view w ob'" if "ob' \<in> set obs" for ob'
    using acc that accounted_live [OF acc that] by (intro object_view_cong) (auto simp: accounted_def subsetD)
  then show "views (obs @ [ob]) (extend bs w) = views obs w @ [object_view (extend bs w) ob]"
    by (simp add: views_def)
qed


text \<open>A block that is allocated and freed again leaves only its address used up.\<close>

definition bump :: "'s world \<Rightarrow> 's world" where
  "bump w = w\<lparr>w_next := Suc (w_next w)\<rparr>"

lemma look_bump [simp]: "look (bump w) = look w"
  by (simp add: look_def bump_def)

lemma accounted_bump: "accounted obs w \<Longrightarrow> accounted obs (bump w)"
proof -
  assume acc: "accounted obs w"
  have "object_sound (bump w) ob = object_sound w ob" for ob by (intro object_sound_cong) simp
  moreover have "well_formed (bump w)" using acc by (auto simp: accounted_def well_formed_def look_def bump_def)
  ultimately show ?thesis using acc by (simp add: accounted_def bump_def)
qed

lemma views_bump: "accounted obs w \<Longrightarrow> views obs (bump w) = views obs w"
  unfolding views_def by (intro map_cong refl object_view_cong) (simp_all add: accounted_def)

lemma pointers_live:
  assumes acc: "accounted obs w" and xb: "(x, b) \<in> set (w_blocks w)" and u: "u \<in> set (pointers b)"
  shows "u \<in> addresses w"
proof -
  have "look w x = Some b" "x \<in> addresses w"
    using acc xb look_unique [of w x b] by (auto simp: accounted_def well_formed_def intro: rev_image_eqI)
  moreover then obtain ob where "ob \<in> set obs" "x \<in> set (object_owned ob)"
    using acc by (auto simp: accounted_def owned_by_def)
  ultimately have "u \<in> set (object_owned ob) \<or> u \<in> set (runtime_pointers b)"
    using own_pointers [of w ob x b u] acc u by (simp add: accounted_def)
  then show ?thesis
    using accounted_live [OF acc \<open>ob \<in> set obs\<close>] acc xb is_block_address(1) [of w u]
    by (fastforce simp: accounted_def well_formed_def list_all_iff)
qed

lemma release_fresh:
  assumes acc: "accounted obs w" and b: "pointers b = []"
  shows "release (Some (w_next w)) (snd (allocate b w)) = bump w"
proof -
  have fresh: "w_next w \<notin> addresses w" using acc by (auto simp: accounted_def well_formed_def)
  then have "filter (\<lambda>(x, _). x \<noteq> w_next w) (w_blocks w) = w_blocks w" by (auto simp: filter_id_conv image_iff)
  moreover have "w_next w \<notin> set (pointers b')" if "(x, b') \<in> set (w_blocks w)" for x b'
    using pointers_live [OF acc that] fresh by blast
  then have "\<not> list_ex (\<lambda>(_, b). w_next w \<in> set (pointers b)) (w_blocks w)" by (auto simp: list_ex_iff)
  ultimately show ?thesis using b by (simp add: release_def allocate_def bump_def)
qed

text \<open>
  A new object \<open>ob\<close> takes the place of an old one: the three creating operations, after the native
  object has been made.
\<close>

lemma step_replace:
  assumes acc: "accounted obs w" and new: "accounted (ob # obs) (extend bs w)" and i: "i < length obs"
    and fresh: "mset (map fst bs) = mset [w_next w ..< w_next w + length bs]"
    and un: "unreferenced (set (object_owned (obs ! i))) (extend bs w)"
  defines "w' \<equiv> without (set (object_owned (obs ! i))) (extend bs w)"
  shows "object_reset (obs ! i) (extend bs w) = (object_empty (obs ! i), w')"
    and "accounted (obs[i := ob]) w'"
    and "views (obs[i := ob]) w' = (views obs w)[i := object_view (extend bs w) ob]"
proof -
  let ?obs = "obs @ [ob]" and ?e = "object_empty (obs ! i)"
  note ext = step_extend [OF acc new fresh]
  have at: "?obs ! i = obs ! i" "?obs ! length obs = ob" using i by (simp_all add: nth_append)
  note reset = step_reset [OF ext(1), of i, unfolded at, folded w'_def]
  show "object_reset (obs ! i) (extend bs w) = (?e, w')" using reset(1) i un by simp
  have "accounted ((?obs[i := ?e])[i := ?obs[i := ?e] ! length obs, length obs := object_empty ob]) w'"
    using i reset(2) un by (intro step_hand_over) simp_all
  then have "accounted (obs[i := ob] @ [object_empty ob]) w'" using i by (simp add: list_update_append nth_append)
  then have "accounted (object_empty ob # obs[i := ob]) w'"
    using accounted_mset [of "obs[i := ob] @ [object_empty ob]" "object_empty ob # obs[i := ob]" w'] by simp
  then show "accounted (obs[i := ob]) w'" by (simp add: accounted_empty)
  have v: "views (obs[i := ?e] @ [ob]) w' = (views obs w)[i := view_empty (object_view (extend bs w) (obs ! i))] @
      [object_view (extend bs w) ob]"
    using reset(3) un i ext(2) by (simp add: list_update_append)
  then have "object_view w' ob = object_view (extend bs w) ob"
    by (simp add: views_def)
  moreover have "views (obs[i := ?e]) w' = (views obs w)[i := view_empty (object_view (extend bs w) (obs ! i))]"
    using v by (simp add: views_def)
  then have "(views (obs[i := ?e]) w')[i := object_view w' ob] = (views obs w)[i := object_view w' ob]" by simp
  ultimately show "views (obs[i := ob]) w' = (views obs w)[i := object_view (extend bs w) ob]"
    using views_update [of "obs[i := ?e]" i ob w'] by simp
qed

subsection \<open>Every operation keeps the account\<close>

definition kept :: "'s operation \<Rightarrow> 's program \<Rightarrow> bool" where
  "kept k p \<longleftrightarrow>
     accounted (p_objects (apply_operation k p)) (p_world (apply_operation k p)) \<and>
     views (p_objects (apply_operation k p)) (p_world (apply_operation k p)) =
       spec_operation k (views (p_objects p) (p_world p))"

abbreviation program_accounted :: "'s program \<Rightarrow> bool" where
  "program_accounted p \<equiv> accounted (p_objects p) (p_world p)"

lemma accounted_append:
  "object_owned ob = [] \<Longrightarrow> object_sound w ob \<Longrightarrow> accounted obs w \<Longrightarrow> accounted (obs @ [ob]) w"
  using accounted_mset [of "obs @ [ob]" "ob # obs" w] by (simp add: accounted_empty)

lemma kept_new:
  assumes "program_accounted p"
  shows "kept Op_runtime p" "kept Op_channel p" "kept Op_server p"
  using assms
  by (simp_all add: kept_def accounted_append views_def runtime_owner.sound_empty channel_owner.sound_empty
      channel_owner.owned_empty server_owner.sound_empty server_owner.owned_empty Channel_new_def [THEN arg_cong [of _ _ cn_channel]]
      Server_new_def [THEN arg_cong [of _ _ sv_server]])

lemma kept_move:
  assumes acc: "program_accounted p"
  shows "kept (Op_move i) p"
proof (cases "i < length (p_objects p)")
  case True
  let ?ob = "p_objects p ! i"
  have "accounted (object_empty ?ob # ?ob # others i (p_objects p)) (p_world p)"
    using accounted_nth [OF True acc] by (simp add: accounted_empty)
  moreover have "mset ((p_objects p)[i := object_empty ?ob] @ [?ob]) = mset (object_empty ?ob # ?ob # others i (p_objects p))"
    using mset_others [OF True] by simp
  ultimately have "accounted ((p_objects p)[i := object_empty ?ob] @ [?ob]) (p_world p)"
    using accounted_mset by metis
  then show ?thesis using True by (simp add: kept_def object_at_def object_move_eq views_def map_update)
qed (use acc in \<open>simp add: kept_def object_at_def\<close>)

lemma gives_up_unreferenced:
  assumes acc: "program_accounted p" and free: "runtime_free k p" and k: "gives_up k = Some i" and i: "i < length (p_objects p)"
  shows "unreferenced (set (object_owned (p_objects p ! i))) (p_world p)"
proof (cases "p_objects p ! i")
  case (O_runtime r)
  then show ?thesis
    using free k i
    by (cases r) (auto simp: unreferenced_def runtime_free_def runtime_at_def object_at_def list_all_iff)
qed (use accounted_unreferenced [OF accounted_nth [OF i acc]] in simp_all)

lemma object_assign_eq:
  "object_assign same a b w =
     (if same \<or> \<not> same_class (object_view w a) (object_view w b) then (a, b, w)
      else (b, object_empty b, snd (object_reset a w)))"
  by (cases a; cases b) (simp_all add: runtime_owner.assign_eq channel_owner.assign_eq server_owner.assign_eq)

lemma kept_destroy:
  assumes acc: "program_accounted p" and free: "runtime_free (Op_destroy i) p"
  shows "kept (Op_destroy i) p"
proof (cases "i < length (p_objects p)")
  case True
  then show ?thesis using step_reset [OF acc True gives_up_unreferenced [OF acc free _ True]]
    by (simp add: kept_def object_at_def put_def)
qed (use acc in \<open>simp add: kept_def object_at_def\<close>)

lemma kept_assign:
  assumes acc: "program_accounted p" and free: "runtime_free (Op_assign i j) p"
  shows "kept (Op_assign i j) p"
proof (cases "i < length (p_objects p) \<and> j < length (p_objects p) \<and> i \<noteq> j \<and>
    same_class (object_view (p_world p) (p_objects p ! i)) (object_view (p_world p) (p_objects p ! j))")
  case False
  then show ?thesis using acc
    by (auto simp: kept_def object_at_def object_assign_eq put_def list_update_id)
next
  case True
  let ?obs = "p_objects p" and ?e = "object_empty (p_objects p ! i)"
  let ?w = "without (set (object_owned (?obs ! i))) (p_world p)"
  have i: "i < length ?obs" "j < length ?obs" "i \<noteq> j" using True by auto
  note reset = step_reset [OF acc i(1) gives_up_unreferenced [OF acc free _ i(1)]]
  have "accounted ((?obs[i := ?e])[i := ?obs[i := ?e] ! j, j := object_empty (?obs ! j)]) ?w"
    using i reset(2) by (intro step_hand_over) simp_all
  then have acc': "accounted (?obs[i := ?obs ! j, j := object_empty (?obs ! j)]) ?w" using i by simp
  have v: "views (?obs[i := ?e]) ?w = (views ?obs (p_world p))[i := view_empty (object_view (p_world p) (?obs ! i))]"
    using reset(3) i by simp
  have "views (?obs[i := ?e]) ?w ! j = views ?obs (p_world p) ! j" using v i by simp
  then have vj: "object_view ?w (?obs ! j) = object_view (p_world p) (?obs ! j)" using i by simp
  have "views ((?obs[i := ?e])[i := ?obs ! j, j := object_empty (?obs ! j)]) ?w =
      (views ?obs (p_world p))[i := object_view (p_world p) (?obs ! j), j := view_empty (object_view (p_world p) (?obs ! j))]"
    unfolding views_update [of "(?obs[i := ?e])[i := ?obs ! j]"] views_update [of "?obs[i := ?e]"] v by (simp add: vj)
  then show ?thesis using True i acc' reset(1)
    by (simp add: kept_def object_at_def object_assign_eq put_def list_update_swap)
qed

lemma kept_replace:
  assumes acc: "program_accounted p" and new: "accounted (ob # p_objects p) (extend bs (p_world p))"
    and i: "i < length (p_objects p)"
    and fresh: "mset (map fst bs) = mset [w_next (p_world p) ..< w_next (p_world p) + length bs]"
    and un: "unreferenced (set (object_owned (p_objects p ! i))) (extend bs (p_world p))"
    and k: "apply_operation k p = put i ob (snd (object_reset (p_objects p ! i) (extend bs (p_world p)))) p"
    and spec: "spec_operation k (views (p_objects p) (p_world p)) =
      (views (p_objects p) (p_world p))[i := object_view (extend bs (p_world p)) ob]"
  shows "kept k p"
  using step_replace [OF acc new i fresh un] by (simp add: kept_def k spec put_def)

lemma update_same: "xs ! i = x \<Longrightarrow> xs[i := x] = xs"
  by auto

lemma kept_create_runtime:
  assumes acc: "program_accounted p" and free: "runtime_free (Op_create_runtime reply i) p"
  shows "kept (Op_create_runtime reply i) p"
proof (cases "i < length (p_objects p) \<and> is_runtime_object (p_objects p ! i) \<and> Error_ok reply")
  case True
  then obtain old where old: "p_objects p ! i = O_runtime old" by (cases "p_objects p ! i") auto
  let ?w = "p_world p" and ?bs = "[(w_next (p_world p), B_runtime)]"
  have "unreferenced (set (option_list old)) ?w"
    using gives_up_unreferenced [OF acc free, of i] True old by simp
  then have un: "unreferenced (set (object_owned (p_objects p ! i))) (extend ?bs ?w)"
    by (auto simp: unreferenced_def extend_def old)
  have "accounted (O_runtime (Some (w_next ?w)) # p_objects p) (extend ?bs ?w)"
    by (intro accounted_extend [OF acc])
      (simp_all add: runtime_sound_def look_extend is_runtime_def runtime_pointers_def)
  then show ?thesis
    using True old un
    by (intro kept_replace [OF acc, of "O_runtime (Some (w_next ?w))" ?bs i])
      (simp_all add: object_at_def Runtime_Create_def grpc_lite_runtime_create_def allocate_def extend_def
        runtime_owner.assign_eq Runtime_destroy_def create_if_def Let_def Error_ok_def)
next
  case False
  then show ?thesis using acc
    by (cases "p_objects p ! i")
      (auto simp: kept_def object_at_def create_if_def Runtime_Create_def grpc_lite_runtime_create_def put_def update_same)
qed

text \<open>The blocks of a new channel or server, and the failing creations.\<close>

definition logger_blocks :: "bool \<Rightarrow> 's world \<Rightarrow> (nat \<times> 's block) list" where
  "logger_blocks logger w = (if logger then [(w_next w, B_logger)] else [])"

definition logger_of :: "bool \<Rightarrow> 's world \<Rightarrow> nat option" where
  "logger_of logger w = (if logger then Some (w_next w) else None)"

definition native_address :: "bool \<Rightarrow> 's world \<Rightarrow> nat" where
  "native_address logger w = (if logger then Suc (w_next w) else w_next w)"

lemma native_fresh:
  "mset (map fst ((native_address logger w, b) # logger_blocks logger w)) =
   mset [w_next w ..< w_next w + length ((native_address logger w, b) # logger_blocks logger w)]"
  by (simp add: native_address_def logger_blocks_def)

lemma runtime_at_live:
  assumes acc: "program_accounted p" and "runtime_at p r = Some (Some a)"
  shows "is_runtime (look (p_world p) a)"
proof -
  obtain i where "i < length (p_objects p)" "p_objects p ! i = O_runtime (Some a)"
    using assms(2) by (auto simp: runtime_at_def object_at_def split: Option.bind_splits option.splits object.splits if_splits)
  then have "runtime_sound (p_world p) (Some a)" using acc by (metis accounted_def nth_mem object_sound.simps(1))
  then show ?thesis by (simp add: runtime_sound_def)
qed

lemma kept_same:
  assumes acc: "program_accounted p" and i: "i < length (p_objects p)"
    and k: "apply_operation k p = put i (p_objects p ! i) w p" and w: "w = p_world p \<or> w = bump (p_world p)"
    and spec: "spec_operation k (views (p_objects p) (p_world p)) = views (p_objects p) (p_world p)"
  shows "kept k p"
  using acc w by (auto simp: kept_def k put_def spec accounted_bump views_bump list_update_id)

lemma in_option_list: "a \<in> set (option_list r) \<longleftrightarrow> r = Some a"
  by (cases r) auto

text \<open>A channel or server is made: its logger, if it has one, then the native object \<open>b\<close>.\<close>

lemma kept_create_native:
  fixes p :: "'s program" and logger :: bool
  assumes acc: "program_accounted p" and i: "i < length (p_objects p)" "\<not> is_runtime_object (p_objects p ! i)"
    and rt: "\<And>a. a \<in> set (runtime_pointers b) \<Longrightarrow> is_runtime (look (p_world p) a)"
  defines "bs \<equiv> (native_address logger (p_world p), b) # logger_blocks logger (p_world p)"
  assumes own: "mset (object_owned ob) = mset (map fst bs)" and sound: "object_sound (extend bs (p_world p)) ob"
    and k: "apply_operation k p = put i ob (snd (object_reset (p_objects p ! i) (extend bs (p_world p)))) p"
    and spec: "spec_operation k (views (p_objects p) (p_world p)) =
      (views (p_objects p) (p_world p))[i := object_view (extend bs (p_world p)) ob]"
  shows "kept k p"
proof -
  let ?w = "extend bs (p_world p)"
  note fresh = native_fresh [of logger "p_world p" b, folded bs_def]
  have "is_runtime (look (p_world p) a)" if "(x, c) \<in> set bs" "a \<in> set (runtime_pointers c)" for x c a
    using that rt by (auto simp: bs_def logger_blocks_def runtime_pointers_def split: if_splits)
  then have new: "accounted (ob # p_objects p) ?w"
    using accounted_extend [OF acc fresh own sound] by blast
  have "mset (p_objects p) = mset (p_objects p ! i # others i (p_objects p))"
    using mset_others [OF i(1), of "p_objects p ! i"] by simp
  then have "accounted (p_objects p ! i # ob # others i (p_objects p)) ?w"
    using new accounted_mset [of "ob # p_objects p" "p_objects p ! i # ob # others i (p_objects p)" ?w] by simp
  then have "unreferenced (set (object_owned (p_objects p ! i))) ?w"
    using accounted_unreferenced i(2) by blast
  then show ?thesis by (intro kept_replace [OF acc new i(1) fresh _ k spec])
qed

text \<open>Or it is not made, and a logger is freed again.\<close>

lemma logger_freed:
  assumes "program_accounted p"
  shows "release (Some (w_next (p_world p))) ((p_world p)\<lparr>w_next := Suc (w_next (p_world p)),
      w_blocks := (w_next (p_world p), B_logger) # w_blocks (p_world p)\<rparr>) = bump (p_world p)"
  using release_fresh [OF assms, of B_logger] by (simp add: allocate_def)

lemmas native_defs = logger_of_def logger_blocks_def native_address_def

lemma kept_create_channel:
  assumes acc: "program_accounted p"
  shows "kept (Op_create_channel reply r target options i) p"
proof (cases "\<exists>old. object_at p i = Some (O_channel old)")
  case False
  then show ?thesis using acc
    by (cases "p_objects p ! i") (auto simp: kept_def create_if_def object_at_def split: if_splits)
next
  case True
  then obtain old where i: "i < length (p_objects p)" "p_objects p ! i = O_channel old"
    by (auto simp: object_at_def split: if_splits)
  let ?w = "p_world p" and ?g = "k_logger options"
  let ?rt = "case runtime_at p r of None \<Rightarrow> None | Some h \<Rightarrow> h"
  let ?b = "B_channel ?rt target (c_channel_options options (logger_of ?g ?w))"
  let ?bs = "(native_address ?g ?w, ?b) # logger_blocks ?g ?w"
  let ?new = "\<lparr>cn_channel = Some (native_address ?g ?w), cn_logger = logger_of ?g ?w\<rparr>"
  have create: "apply_operation (Op_create_channel reply r target options i) p =
      (if Error_ok reply then put i (O_channel ?new)
         (snd (Channel_Reset old (extend ?bs ?w))) p
       else put i (O_channel old) (if ?g then bump ?w else ?w) p)"
    using i logger_freed [OF acc]
    by (simp add: object_at_def Channel_CreateManaged_def grpc_lite_channel_create_managed_def native_defs
        allocate_def extend_def channel_laws Channel_Reset_def [of Channel_new] Channel_new_def [THEN arg_cong [of _ _ cn_channel]]
        Channel_new_def [THEN arg_cong [of _ _ cn_logger]] Error_ok_def)
  show ?thesis
  proof (cases "Error_ok reply")
    case True
    have rt: "is_runtime (look ?w a)" if "a \<in> set (runtime_pointers ?b)" for a
      using that runtime_at_live [OF acc, of r a]
      by (simp add: runtime_pointers_def in_option_list split: option.splits)
    have sound: "object_sound (extend ?bs ?w) (O_channel ?new)"
      by (simp add: channel_sound_def look_extend native_defs is_logger_def c_channel_options_def)
    have view: "object_view (extend ?bs ?w) (O_channel ?new) =
        V_channel (Some (target, c_channel_options options (if ?g then Some 0 else None)))"
      by (simp add: look_extend native_defs c_channel_options_def logger_flag_def)
    have spec: "spec_operation (Op_create_channel reply r target options i) (views (p_objects p) ?w) =
        (views (p_objects p) ?w)[i := object_view (extend ?bs ?w) (O_channel ?new)]"
      unfolding view using i True by (simp add: create_if_def)
    have own: "mset (object_owned (O_channel ?new)) = mset (map fst ?bs)"
      by (simp add: channel_owned_def native_defs)
    show ?thesis
      by (rule kept_create_native [OF acc i(1) _ _ own sound _ spec])
        (simp_all add: rt create i True del: apply_operation.simps)
  next
    case False
    then show ?thesis using i create
      by (intro kept_same [OF acc i(1), of _ "if ?g then bump ?w else ?w"]) (simp_all add: create_if_def del: apply_operation.simps)
  qed
qed

lemma kept_create_server:
  assumes acc: "program_accounted p"
  shows "kept (Op_create_server reply options i) p"
proof (cases "\<exists>old. object_at p i = Some (O_server old)")
  case False
  then show ?thesis using acc
    by (cases "p_objects p ! i") (auto simp: kept_def create_if_def object_at_def split: if_splits)
next
  case True
  then obtain old where i: "i < length (p_objects p)" "p_objects p ! i = O_server old"
    by (auto simp: object_at_def split: if_splits)
  let ?w = "p_world p" and ?g = "so_logger options"
  let ?b = "B_server (c_server_options options (logger_of ?g ?w)) []"
  let ?bs = "(native_address ?g ?w, ?b) # logger_blocks ?g ?w"
  let ?new = "\<lparr>sv_server = Some (native_address ?g ?w), sv_logger = logger_of ?g ?w, sv_methods = []\<rparr>"
  have create: "apply_operation (Op_create_server reply options i) p =
      (if Error_ok reply then put i (O_server ?new)
         (snd (Server_Reset old (extend ?bs ?w))) p
       else put i (O_server old) (if ?g then bump ?w else ?w) p)"
    using i logger_freed [OF acc]
    by (simp add: object_at_def Server_Create_def grpc_lite_server_create_def native_defs allocate_def
        extend_def server_laws
        Server_Reset_def [of Server_new] Server_new_def [THEN arg_cong [of _ _ sv_server]]
        Server_new_def [THEN arg_cong [of _ _ sv_logger]] Server_new_def [THEN arg_cong [of _ _ sv_methods]] Error_ok_def)
  show ?thesis
  proof (cases "Error_ok reply")
    case True
    have sound: "object_sound (extend ?bs ?w) (O_server ?new)"
      by (simp add: server_sound_def look_extend native_defs is_logger_def c_server_options_def)
    have view: "object_view (extend ?bs ?w) (O_server ?new) =
        V_server (Some (c_server_options options (if ?g then Some 0 else None), []))"
      by (simp add: look_extend native_defs c_server_options_def logger_flag_def)
    have spec: "spec_operation (Op_create_server reply options i) (views (p_objects p) ?w) =
        (views (p_objects p) ?w)[i := object_view (extend ?bs ?w) (O_server ?new)]"
      unfolding view using i True by (simp add: create_if_def)
    have own: "mset (object_owned (O_server ?new)) = mset (map fst ?bs)"
      by (simp add: server_owned_def native_defs)
    show ?thesis
      by (rule kept_create_native [OF acc i(1) _ _ own sound _ spec])
        (simp_all add: create i True runtime_pointers_def del: apply_operation.simps)
  next
    case False
    then show ?thesis using i create
      by (intro kept_same [OF acc i(1), of _ "if ?g then bump ?w else ?w"]) (simp_all add: create_if_def del: apply_operation.simps)
  qed
qed

subsection \<open>Registering a method\<close>

lemma well_formed_look:
  assumes "distinct (map fst (w_blocks w))" "\<forall>a \<in> addresses w. a < w_next w" "\<not> w_fault w"
    and "\<And>x b r. look w x = Some b \<Longrightarrow> r \<in> set (runtime_pointers b) \<Longrightarrow> is_runtime (look w r)"
  shows "well_formed w"
  using assms by (auto simp: well_formed_def list_all_iff dest: look_unique)

lemma well_formed_runtime:
  "well_formed w \<Longrightarrow> look w x = Some b \<Longrightarrow> r \<in> set (runtime_pointers b) \<Longrightarrow> is_runtime (look w r)"
  using look_in [of w x b] by (auto simp: well_formed_def list_all_iff)

definition registered :: "nat \<Rightarrow> 's block \<Rightarrow> 's ServerStreamCallbacks \<Rightarrow> 's world \<Rightarrow> 's world" where
  "registered a b callbacks w =
     w\<lparr>w_next := Suc (w_next w), w_blocks := AList.update a b ((w_next w, B_method callbacks) # w_blocks w)\<rparr>"

lemma look_registered:
  "look (registered a b callbacks w) =
     (look w)(w_next w \<mapsto> B_method callbacks, a \<mapsto> b)"
  by (simp add: look_def registered_def update_conv' del: update.simps)

lemma addresses_registered:
  "a \<in> addresses w \<Longrightarrow> addresses (registered a b callbacks w) = insert (w_next w) (addresses w)"
  by (simp add: registered_def dom_update insert_absorb del: update.simps)

lemma well_formed_registered:
  assumes wf: "well_formed w" and a: "look w a = Some (B_server k ms)"
  shows "well_formed (registered a (B_server k' ms') callbacks w)"
proof (rule well_formed_look)
  let ?w = "registered a (B_server k' ms') callbacks w"
  have fresh: "w_next w \<notin> addresses w" and live: "a \<in> addresses w"
    using wf a look_address [of w a] by (auto simp: well_formed_def)
  show "distinct (map fst (w_blocks ?w))"
    using wf fresh by (simp add: registered_def distinct_update well_formed_def del: update.simps)
  show "\<forall>x \<in> addresses ?w. x < w_next ?w"
    using wf unfolding addresses_registered [OF live] by (auto simp: registered_def well_formed_def)
  show "\<not> w_fault ?w" using wf by (simp add: registered_def well_formed_def)
  fix x b r assume x: "look ?w x = Some b" and r: "r \<in> set (runtime_pointers b)"
  then have "look w x = Some b" by (auto simp: look_registered runtime_pointers_def split: if_splits)
  then have "is_runtime (look w r)" using well_formed_runtime wf r by blast
  moreover from this have "r \<in> addresses w" by (rule is_block_address)
  then have "r \<noteq> w_next w" using fresh by metis
  moreover have "r \<noteq> a" using a \<open>is_runtime (look w r)\<close> by (auto simp: is_runtime_def)
  ultimately show "is_runtime (look ?w r)" by (simp add: look_registered)
qed

lemma registered_server:
  fixes callbacks :: "'s ServerStreamCallbacks" and path options
  assumes wf: "well_formed w" and s: "server_sound w s" and a: "sv_server s = Some a" "look w a = Some (B_server k ms)"
  defines "w' \<equiv> registered a (B_server k (ms @ [(path, options, w_next w)])) callbacks w"
  shows "server_sound w' (s\<lparr>sv_methods := sv_methods s @ [w_next w]\<rparr>)"
    and "object_view w' (O_server s) = V_server (Some (k\<lparr>sc_logger := logger_flag (sc_logger k)\<rparr>,
      map (\<lambda>(path, options, u). (path, options, method_state w u)) ms @ [(path, options, Some callbacks)]))"
proof -
  have k: "sc_logger k = sv_logger s" "map (\<lambda>(path, options, u). u) ms = sv_methods s"
    using s a by (simp_all add: server_sound_def)
  have fresh: "look w (w_next w) = None" using wf look_address [of w "w_next w"] by (auto simp: well_formed_def)
  then have an: "a \<noteq> w_next w" using a by auto
  have same: "look w' u = look w u" if "is_method (look w u) \<or> is_logger (look w u)" for u
    using that fresh a by (auto simp: w'_def look_registered is_method_def is_logger_def)
  have methods: "is_method (look w u)" if "u \<in> set (sv_methods s)" for u
    using s that by (simp add: server_sound_def list_all_iff)
  have loggers: "is_logger (look w u)" if "u \<in> set (option_list (sv_logger s))" for u
    using s that by (simp add: server_sound_def list_all_iff)
  show "server_sound w' (s\<lparr>sv_methods := sv_methods s @ [w_next w]\<rparr>)"
    using a k methods loggers same an
    by (simp add: server_sound_def list_all_iff) (simp add: w'_def look_registered is_method_def)
  have "method_state w' u = method_state w u" if "(q, l, u) \<in> set ms" for q l u
    using same methods user_data_in [OF k(2) that] by (simp add: method_state_def look_def)
  moreover have "method_state w' (w_next w) = Some callbacks"
    using an by (simp add: w'_def method_state_def look_registered flip: look_def)
  ultimately show "object_view w' (O_server s) = V_server (Some (k\<lparr>sc_logger := logger_flag (sc_logger k)\<rparr>,
      map (\<lambda>(path, options, u). (path, options, method_state w u)) ms @ [(path, options, Some callbacks)]))"
    using a(1) by (simp add: w'_def look_registered case_prod_beta) (force simp: case_prod_beta)
qed

lemma register_eq:
  assumes acc: "program_accounted p" and i: "i < length (p_objects p)" "p_objects p ! i = O_server s"
    and a: "sv_server s = Some a" "look (p_world p) a = Some (B_server k ms)"
  shows "apply_operation (Op_register reply path options callbacks i) p =
    (if Error_ok reply
     then put i (O_server (s\<lparr>sv_methods := sv_methods s @ [w_next (p_world p)]\<rparr>))
       (registered a (B_server k (ms @ [(path, c_method_options options, w_next (p_world p))])) callbacks (p_world p)) p
     else put i (O_server s) (bump (p_world p)) p)"
proof -
  have "a \<noteq> w_next (p_world p)"
    using acc a look_address [of "p_world p" a] by (auto simp: accounted_def well_formed_def)
  then show ?thesis
    using i a release_fresh [OF acc, of "B_method callbacks"]
    by (simp add: object_at_def Server_RegisterStream_def grpc_lite_server_register_stream_def allocate_def look_def
        registered_def Let_def Error_ok_def)
qed

lemma kept_register_ok:
  assumes acc: "program_accounted p" and i: "i < length (p_objects p)" "p_objects p ! i = O_server s"
    and a: "sv_server s = Some a" "look (p_world p) a = Some (B_server k ms)" and ok: "Error_ok reply"
  shows "kept (Op_register reply path options callbacks i) p"
proof -
  let ?obs = "p_objects p" and ?w = "p_world p" and ?b = "B_server k (ms @ [(path, c_method_options options, w_next (p_world p))])"
  let ?w' = "registered a ?b callbacks ?w" and ?s' = "O_server (s\<lparr>sv_methods := sv_methods s @ [w_next (p_world p)]\<rparr>)"
  have wf: "well_formed ?w" and s: "server_sound ?w s"
    using acc i nth_mem [OF i(1)] by (auto simp: accounted_def)
  have fresh: "w_next ?w \<notin> addresses ?w" and live: "a \<in> addresses ?w"
    using wf a(2) look_address [of ?w a] by (auto simp: well_formed_def)
  note reg = registered_server [OF wf s a, of path "c_method_options options" callbacks]
  have at: "a \<in> set (object_owned (?obs ! i))" using a i by (simp add: server_owned_def)
  have same: "look ?w' u = look ?w u" if "ob \<in> set (others i ?obs)" "u \<in> set (object_owned ob)" for ob u
  proof -
    have "u \<in> addresses ?w" "u \<notin> set (object_owned (?obs ! i))"
      using accounted_nth [OF i(1) acc] that by (auto simp: accounted_def owned_by_def)
    then have "u \<noteq> w_next ?w" "u \<noteq> a" using fresh at by metis+
    then show ?thesis by (simp add: look_registered)
  qed
  have old: "accounted (?obs ! i # others i ?obs) ?w" using accounted_nth [OF i(1) acc] .
  have "object_sound ?w' ob" if "ob \<in> set (others i ?obs)" for ob
    using old that same [OF that] object_sound_cong [of ob ?w' ?w] by (simp add: accounted_def)
  moreover have "mset (owned_by (?s' # others i ?obs)) = add_mset (w_next ?w) (mset (owned_by (?obs ! i # others i ?obs)))"
    using i by (simp add: owned_by_def server_owned_def)
  then have "distinct (owned_by (?s' # others i ?obs))" "set (owned_by (?s' # others i ?obs)) = addresses ?w'"
    using old fresh mset_eq_imp_distinct_iff [of "owned_by (?s' # others i ?obs)" "w_next ?w # owned_by (?obs ! i # others i ?obs)"]
      mset_eq_setD [of "owned_by (?s' # others i ?obs)" "w_next ?w # owned_by (?obs ! i # others i ?obs)"]
    unfolding addresses_registered [OF live] by (simp_all add: accounted_def)
  ultimately have "accounted (?s' # others i ?obs) ?w'"
    using well_formed_registered [OF wf a(2)] reg(1) by (auto simp: accounted_def)
  then have acc': "accounted (?obs[i := ?s']) ?w'" using i by (simp add: accounted_pick)
  have "object_view ?w' (?obs ! j) = object_view ?w (?obs ! j)" if "j < length ?obs" "j \<noteq> i" for j
    using acc same [OF in_others [OF that]] that by (intro object_view_cong) (auto simp: accounted_def)
  then have "views (?obs[i := ?s']) ?w' = (views ?obs ?w)[i := object_view ?w' ?s']" by (rule views_frame)
  moreover have "object_view ?w' ?s' = object_view ?w' (O_server s)" by simp
  ultimately show ?thesis using acc' reg(2) ok i a
    unfolding kept_def register_eq [OF acc i a] by (simp add: put_def)
qed

lemma kept_register:
  assumes acc: "program_accounted p"
  shows "kept (Op_register reply path options callbacks i) p"
proof (cases "\<exists>s. object_at p i = Some (O_server s)")
  case False
  then show ?thesis using acc
    by (cases "p_objects p ! i") (auto simp: kept_def object_at_def split: if_splits)
next
  case True
  then obtain s where i: "i < length (p_objects p)" "p_objects p ! i = O_server s"
    by (auto simp: object_at_def split: if_splits)
  show ?thesis
  proof (cases "sv_server s")
    case None
    then show ?thesis using i
      by (intro kept_same [OF acc i(1), of _ "p_world p"]) (simp_all add: object_at_def Server_RegisterStream_def)
  next
    case a: (Some a)
    have "server_sound (p_world p) s" using acc i nth_mem [OF i(1)] by (auto simp: accounted_def)
    then obtain k ms where k: "look (p_world p) a = Some (B_server k ms)"
      using a by (auto simp: server_sound_def split: option.splits block.splits)
    show ?thesis
    proof (cases "Error_ok reply")
      case False
      then show ?thesis using i
        by (intro kept_same [OF acc i(1), of _ "bump (p_world p)"])
          (simp_all add: register_eq [OF acc i a k] del: apply_operation.simps)
    qed (rule kept_register_ok [OF acc i a k])
  qed
qed

lemma operation_kept: "program_accounted p \<Longrightarrow> runtime_free k p \<Longrightarrow> kept k p"
  by (cases k)
    (simp_all add: kept_new kept_move kept_assign kept_destroy kept_create_runtime kept_create_channel kept_create_server
      kept_register)

lemma program_kept:
  "program_accounted p \<Longrightarrow> runtimes_outlive ks p \<Longrightarrow>
   program_accounted (run_program ks p) \<and>
   views (p_objects (run_program ks p)) (p_world (run_program ks p)) =
     fold spec_operation ks (views (p_objects p) (p_world p))"
proof (induction ks arbitrary: p)
  case (Cons k ks)
  then have "kept k p" using operation_kept [of p k] by simp
  then show ?case using Cons by (simp add: kept_def)
qed simp

lemma program_start_accounted: "program_accounted program_start"
  by (simp add: program_start_def accounted_def well_formed_def w_empty_def owned_by_def)

subsection \<open>Properties\<close>

text \<open>
  C25. whatever a program does with runtimes, channels and servers, and whatever the C functions
  answer, as long as a runtime outlives the channels made with it: nothing is freed twice or while an
  allocated object points to it, no native object is used that does not exist, no two objects own the
  same block, every allocated block has an owner (so that nothing leaks once the objects are gone),
  and every pointer a native object holds leads to an allocated block.
\<close>

theorem handles_never_dangle:
  fixes ks :: "'s operation list"
  assumes "runtimes_outlive ks program_start" and p: "p = run_program ks program_start"
  shows "\<not> w_fault (p_world p) \<and> distinct (owned_by (p_objects p)) \<and>
    set (owned_by (p_objects p)) = addresses (p_world p) \<and>
    (\<forall>(x, b) \<in> set (w_blocks (p_world p)). set (pointers b) \<subseteq> addresses (p_world p))"
proof -
  have "program_accounted p" using program_kept [OF program_start_accounted assms(1)] p by simp
  moreover from this have "\<forall>(x, b) \<in> set (w_blocks (p_world p)). set (pointers b) \<subseteq> addresses (p_world p)"
    using pointers_live by blast
  ultimately show ?thesis by (simp add: accounted_def well_formed_def)
qed

definition no_callbacks :: "unit ServerStreamCallbacks" where
  "no_callbacks = \<lparr>cb_on_start = None, cb_on_message = None, cb_on_remote_end = None, cb_on_writable = None,
     cb_on_cancel = None, cb_on_terminal = None\<rparr>"

text \<open>Two servers, a failing registration, assignments, and a channel that goes before its runtime.\<close>

definition sample_program :: "unit operation list" where
  "sample_program =
     [Op_runtime, Op_create_runtime EC_Ok 0, Op_channel,
      Op_create_channel EC_Ok (Some 0) ''dns:///a'' (ChannelOptions_default\<lparr>k_logger := True\<rparr>) 1,
      Op_create_channel EC_Unavailable (Some 0) ''dns:///b'' (ChannelOptions_default\<lparr>k_logger := True\<rparr>) 1,
      Op_server, Op_create_server EC_Ok (ServerOptions_default\<lparr>so_logger := True\<rparr>) 2,
      Op_register EC_Ok ''/s/m'' ServerMethodOptions_default no_callbacks 2,
      Op_register EC_InvalidState ''/s/n'' ServerMethodOptions_default no_callbacks 2,
      Op_move 2, Op_assign 3 3, Op_create_server EC_Ok ServerOptions_default 2, Op_assign 2 3,
      Op_destroy 1, Op_create_runtime EC_Ok 0]"

theorem handles_never_dangle_witness:
  "runtimes_outlive sample_program program_start \<and>
   (let p = run_program sample_program program_start in \<not> w_fault (p_world p) \<and> distinct (owned_by (p_objects p)))"
proof -
  have "runtimes_outlive sample_program program_start" by code_simp
  then show ?thesis using handles_never_dangle [OF _ refl, of sample_program] by (simp add: Let_def)
qed

text \<open>
  C26. the objects of a program refine the specification without addresses: after any program, what
  an object shows of the world (the target and options of its channel; the options of its server and,
  in the order of registration, the methods with the callbacks their \<^verbatim>\<open>user_data\<close> leads to) is
  what the operations say: creation on success replaces, on failure keeps; registration on success
  appends, on failure keeps; moving and assigning hand everything over and leave the source empty.
\<close>

theorem handles_refine_specification:
  assumes "runtimes_outlive ks program_start"
  shows "views (p_objects (run_program ks program_start)) (p_world (run_program ks program_start)) = fold spec_operation ks []"
  using program_kept [OF program_start_accounted assms] by (simp add: program_start_def views_def)

theorem handles_refine_specification_witness:
  "runtimes_outlive sample_program program_start \<and>
   views (p_objects (run_program sample_program program_start)) (p_world (run_program sample_program program_start)) =
     fold spec_operation sample_program []"
proof -
  have "runtimes_outlive sample_program program_start" by code_simp
  with handles_refine_specification [OF this] show ?thesis by simp
qed

text \<open>What each of the six functions does with the \<^verbatim>\<open>user_data\<close> of a method state.\<close>

definition copied :: "borrowed_context \<Rightarrow> ServerContext" where
  "copied = (\<lambda>(view, compression, has_deadline, remaining).
     \<lparr>x_request_metadata = md_items view, x_request_compression = compression, x_has_deadline = has_deadline \<noteq> 0,
      x_remaining_time_ns = remaining\<rparr>)"

definition runs_callbacks :: "'s world \<Rightarrow> nat \<Rightarrow> 's ServerStreamCallbacks \<Rightarrow> bool" where
  "runs_callbacks w u callbacks \<longleftrightarrow>
     (\<forall>stream context message compression reason st.
        Server_OnStart w u stream context st = Some (call_if (cb_on_start callbacks) stream (copied context) st) \<and>
        Server_OnMessage w u stream context (zig_view message) compression st =
          Some (case cb_on_message callbacks of None \<Rightarrow> (Continue, st)
                | Some f \<Rightarrow> f stream (copied context) message compression st) \<and>
        Server_OnRemoteEnd w u stream context st = Some (call_if (cb_on_remote_end callbacks) stream (copied context) st) \<and>
        Server_OnWritable w u stream context st = Some (call_if (cb_on_writable callbacks) stream (copied context) st) \<and>
        Server_OnCancel w u stream context st = Some (call_if (cb_on_cancel callbacks) stream (copied context) st) \<and>
        Server_OnTerminal w u stream reason st =
          Some (case cb_on_terminal callbacks of None \<Rightarrow> st | Some f \<Rightarrow> f stream reason st))"

lemma copy_context_eq [simp]: "copy_context context = Some (copied context)"
  by (simp add: copy_context_def copied_def ServerContext_new_def split: prod.splits)

lemma method_state_runs: "method_state w u = Some callbacks \<Longrightarrow> runs_callbacks w u callbacks"
  by (simp add: runs_callbacks_def Server_OnStart_def Server_OnMessage_def Server_OnRemoteEnd_def Server_OnWritable_def
      Server_OnCancel_def Server_OnTerminal_def split: option.split)

text \<open>
  C33. the C side reaches the callbacks of a method through its \<^verbatim>\<open>user_data\<close>: when, after a program,
  a server has \<open>callbacks\<close> as its \<open>n\<close>-th registration, then the native server of that object holds as
  its \<open>n\<close>-th method the same path and options and a pointer through which each of the six functions
  copies the borrowed context and message and runs the callback that was registered, or does nothing
  when the \<^verbatim>\<open>std::function\<close> is empty.
\<close>

theorem registered_callbacks_run:
  assumes "runtimes_outlive ks program_start" and p: "p = run_program ks program_start"
    and j: "j < length (p_objects p)" "fold spec_operation ks [] ! j = V_server (Some (k, ms))"
    and n: "n < length ms" "ms ! n = (path, options, Some callbacks)"
  shows "\<exists>s a k' ms' u. p_objects p ! j = O_server s \<and> sv_server s = Some a \<and>
    look (p_world p) a = Some (B_server k' ms') \<and> n < length ms' \<and> ms' ! n = (path, options, u) \<and>
    runs_callbacks (p_world p) u callbacks"
proof -
  have "views (p_objects p) (p_world p) = fold spec_operation ks []"
    using program_kept [OF program_start_accounted assms(1)] p by (simp add: program_start_def views_def)
  then have v: "object_view (p_world p) (p_objects p ! j) = V_server (Some (k, ms))" using j nth_views by metis
  then obtain s where s: "p_objects p ! j = O_server s" by (cases "p_objects p ! j") auto
  then obtain a k' ms' where a: "sv_server s = Some a" "look (p_world p) a = Some (B_server k' ms')"
      "ms = map (\<lambda>(path, options, u). (path, options, method_state (p_world p) u)) ms'"
    using v by (auto split: Option.bind_splits option.splits block.splits)
  moreover obtain u where "ms' ! n = (path, options, u)" "method_state (p_world p) u = Some callbacks"
    using a(3) n by (cases "ms' ! n") auto
  ultimately show ?thesis using s n method_state_runs by (metis length_map)
qed

definition small_program :: "unit operation list" where
  "small_program =
     [Op_server, Op_create_server EC_Ok ServerOptions_default 0,
      Op_register EC_Ok ''/s/m'' ServerMethodOptions_default no_callbacks 0]"

theorem registered_callbacks_run_witness:
  "\<exists>s a k' ms' u. p_objects (run_program small_program program_start) ! 0 = O_server s \<and> sv_server s = Some a \<and>
    look (p_world (run_program small_program program_start)) a = Some (B_server k' ms') \<and> 0 < length ms' \<and>
    ms' ! 0 = (''/s/m'', c_method_options ServerMethodOptions_default, u) \<and>
    runs_callbacks (p_world (run_program small_program program_start)) u no_callbacks"
proof -
  have h1: "runtimes_outlive small_program program_start" by code_simp
  have h2: "0 < length (p_objects (run_program small_program program_start))" by code_simp
  have h3: "fold spec_operation small_program [] ! 0 =
      V_server (Some (c_server_options ServerOptions_default (if so_logger ServerOptions_default then Some 0 else None),
        [(''/s/m'', c_method_options ServerMethodOptions_default, Some no_callbacks)]))"
    by (simp add: small_program_def create_if_def Error_ok_def)
  show ?thesis by (rule registered_callbacks_run [OF h1 refl h2 h3]) simp_all
qed

end
