(* ===== verification/Channel_Creation.thy ===== *)
theory Channel_Creation
  imports Client_Calls Native_Handles
begin

section \<open>Creating channels\<close>

text \<open>
  The factory functions of \<^verbatim>\<open>grpcpp/create_channel.h\<close> and the credentials of
  \<^verbatim>\<open>grpcpp/security/credentials.h\<close>: the constructor of \<^verbatim>\<open>grpc::Channel\<close> with the native channel it
  creates, and its destructor.
\<close>

subsection \<open>Credentials\<close>

text \<open>The base class and the one class of the library that overrides its virtual function.\<close>

datatype ChannelCredentials = BaseCredentials | InsecureCredentials

fun is_insecure :: "ChannelCredentials \<Rightarrow> bool" where
  "is_insecure BaseCredentials = False"
| "is_insecure InsecureCredentials = True"

definition InsecureChannelCredentials :: "ChannelCredentials option" where
  "InsecureChannelCredentials = Some InsecureCredentials"

subsection \<open>The constructor and the destructor\<close>

text \<open>
  The object is the fields of \<^const>\<open>grpc_Channel_new\<close> and the member \<^verbatim>\<open>channel_\<close>. The native channel is
  only asked for after the checks of the credentials and the arguments; the runtime is null.
\<close>

definition construct_channel ::
  "ErrorCode \<Rightarrow> string \<Rightarrow> ChannelCredentials option \<Rightarrow> ChannelArguments \<Rightarrow> 's world \<Rightarrow>
   grpc_Channel \<times> Channel \<times> 's world" where
  "construct_channel reply target credentials arguments w =
     (let insecure = map_option is_insecure credentials in
      if insecure \<noteq> Some True \<or> \<not> g_is_ok (ca_status arguments)
      then (grpc_Channel_new insecure (ca_status arguments) (ca_compression arguments) EC_Ok, Channel_new, w)
      else case Channel_CreateManaged reply None target (ca_options arguments) (Some Channel_new) w of
        (error, channel, w') \<Rightarrow>
          (grpc_Channel_new insecure (ca_status arguments) (ca_compression arguments) error,
           case channel of Some c \<Rightarrow> c | None \<Rightarrow> Channel_new, w'))"

definition CreateCustomChannel ::
  "ErrorCode \<Rightarrow> string \<Rightarrow> ChannelCredentials option \<Rightarrow> ChannelArguments \<Rightarrow> 's world \<Rightarrow>
   grpc_Channel \<times> Channel \<times> 's world" where
  "CreateCustomChannel reply target credentials arguments w = construct_channel reply target credentials arguments w"

definition CreateChannel ::
  "ErrorCode \<Rightarrow> string \<Rightarrow> ChannelCredentials option \<Rightarrow> 's world \<Rightarrow> grpc_Channel \<times> Channel \<times> 's world" where
  "CreateChannel reply target credentials w = construct_channel reply target credentials ChannelArguments_new w"

text \<open>The commands the native channel gets.\<close>

datatype channel_command = K_shutdown nat | K_wait nat

definition grpc_lite_Channel_Shutdown :: "Channel \<Rightarrow> channel_command list" where
  "grpc_lite_Channel_Shutdown c = map K_shutdown (option_list (cn_channel c))"

definition grpc_lite_Channel_Wait :: "Channel \<Rightarrow> channel_command list" where
  "grpc_lite_Channel_Wait c = map K_wait (option_list (cn_channel c))"

definition grpc_Channel_Shutdown :: "grpc_Channel \<times> Channel \<Rightarrow> channel_command list" where
  "grpc_Channel_Shutdown = (\<lambda>(ch, c). if ch_ready ch then grpc_lite_Channel_Shutdown c else [])"

definition grpc_Channel_Wait :: "grpc_Channel \<times> Channel \<Rightarrow> channel_command list" where
  "grpc_Channel_Wait = (\<lambda>(ch, c). if ch_ready ch then grpc_lite_Channel_Wait c else [])"

text \<open>The destructor of the class, then that of its member.\<close>

definition destruct_channel :: "grpc_Channel \<times> Channel \<Rightarrow> 's world \<Rightarrow> channel_command list \<times> 's world" where
  "destruct_channel ch w = (grpc_Channel_Shutdown ch @ grpc_Channel_Wait ch, snd (Channel_Reset (snd ch) w))"

subsection \<open>Lemmas\<close>

text \<open>
  A channel is usable exactly when the credentials are insecure, every argument was accepted and the
  native channel was made. Otherwise it carries the first of the three errors and owns nothing; in
  both cases its destructor stops the native channel before it is freed and frees all it allocated.
\<close>

lemma construct_channel_cases:
  "construct_channel reply target credentials arguments w =
   (if map_option is_insecure credentials \<noteq> Some True
    then (\<lparr>ch_construction_status = grpc_status UNIMPLEMENTED ''only insecure channel credentials are supported'',
           ch_compression = Identity, ch_ready = False\<rparr>, Channel_new, w)
    else if \<not> g_is_ok (ca_status arguments)
    then (\<lparr>ch_construction_status = ca_status arguments, ch_compression = Identity, ch_ready = False\<rparr>, Channel_new, w)
    else case Channel_CreateManaged reply None target (ca_options arguments) (Some Channel_new) w of
      (error, channel, w') \<Rightarrow>
        (if Error_ok error
         then \<lparr>ch_construction_status = grpc_ok, ch_compression = ca_compression arguments, ch_ready = True\<rparr>
         else \<lparr>ch_construction_status = ErrorStatus error, ch_compression = Identity, ch_ready = False\<rparr>,
         case channel of Some c \<Rightarrow> c | None \<Rightarrow> Channel_new, w'))"
  by (cases "map_option is_insecure credentials = Some True")
    (auto simp: construct_channel_def grpc_Channel_new_def Let_def split: prod.splits)

lemma create_managed_program:
  assumes "i < length (p_objects p)" and "p_objects p ! i = O_channel old"
    and "Channel_CreateManaged reply None target options (Some old) (p_world p) = (error, Some c, w)"
  shows "apply_operation (Op_create_channel reply None target options i) p = put i (O_channel c) w p"
  using assms by (simp add: object_at_def runtime_at_def)

lemma create_managed_result:
  "\<exists>c w'. Channel_CreateManaged reply None target options (Some Channel_new) w =
     (if Error_ok reply then EC_Ok else reply, Some c, w') \<and> (cn_channel c \<noteq> None \<longleftrightarrow> Error_ok reply)"
  by (auto simp: Channel_CreateManaged_def grpc_lite_channel_create_managed_def allocate_def Let_def channel_laws
      Error_ok_def Channel_new_def [THEN arg_cong [of _ _ cn_channel]])

lemma managed_then_reset:
  fixes w :: "'s world"
  assumes acc: "accounted obs w"
    and c: "Channel_CreateManaged reply None target options (Some Channel_new) w = (error, Some c, w')"
  shows "accounted obs (snd (Channel_Reset c w'))" and "views obs (snd (Channel_Reset c w')) = views obs w"
proof -
  let ?i = "length obs" and ?p = "\<lparr>p_objects = obs @ [O_channel Channel_new], p_world = w\<rparr>"
  let ?p' = "put ?i (O_channel c) w' ?p"
  have acc': "accounted (p_objects ?p) (p_world ?p)"
    using accounted_append [OF _ _ acc, of "O_channel Channel_new"] by (simp add: channel_laws)
  have "apply_operation (Op_create_channel reply None target options ?i) ?p = ?p'"
    using c by (intro create_managed_program [of _ _ Channel_new _ _ _ error]) simp_all
  then have 1: "accounted (p_objects ?p') (p_world ?p')"
      "views (p_objects ?p') (p_world ?p') = spec_operation (Op_create_channel reply None target options ?i) (views (p_objects ?p) w)"
    using kept_create_channel [OF acc', of reply None target options ?i] by (simp_all add: kept_def del: apply_operation.simps)
  have "runtime_free (Op_destroy ?i) ?p'" by (simp add: runtime_free_def runtime_at_def object_at_def put_def)
  note 2 = kept_destroy [OF 1(1) this, unfolded kept_def]
  have 3: "apply_operation (Op_destroy ?i) ?p' =
      \<lparr>p_objects = obs @ [O_channel Channel_new], p_world = snd (Channel_Reset c w')\<rparr>"
    by (simp add: object_at_def put_def map_prod_def case_prod_beta channel_laws)
  have "accounted (O_channel Channel_new # obs) (snd (Channel_Reset c w'))"
    using 2 accounted_mset [of "obs @ [O_channel Channel_new]" "O_channel Channel_new # obs" "snd (Channel_Reset c w')"]
    unfolding 3 by simp
  then show "accounted obs (snd (Channel_Reset c w'))" by (simp add: accounted_empty channel_laws)
  have "views (ob @ [x]) u = views ob u @ [object_view u x]" for ob x and u :: "'s world" by (simp add: views_def)
  then show "views obs (snd (Channel_Reset c w')) = views obs w"
    using 2 unfolding 3 1(2) by (simp add: create_if_def list_update_append nth_append split: if_splits)
qed

theorem created_channel_lifecycle:
  assumes acc: "accounted obs w" and c: "construct_channel reply target credentials arguments w = (ch, c, w')"
  shows "ch_ready ch \<longleftrightarrow>
      map_option is_insecure credentials = Some True \<and> g_is_ok (ca_status arguments) \<and> Error_ok reply"
    and "ch_ready ch \<longleftrightarrow> cn_channel c \<noteq> None"
    and "fst (destruct_channel (ch, c) w') = (case cn_channel c of None \<Rightarrow> [] | Some a \<Rightarrow> [K_shutdown a, K_wait a])"
    and "accounted obs (snd (destruct_channel (ch, c) w'))"
    and "views obs (snd (destruct_channel (ch, c) w')) = views obs w"
proof -
  obtain c0 w0 where m: "Channel_CreateManaged reply None target (ca_options arguments) (Some Channel_new) w =
      (if Error_ok reply then EC_Ok else reply, Some c0, w0)" "cn_channel c0 \<noteq> None \<longleftrightarrow> Error_ok reply"
    using create_managed_result by blast
  note reset = managed_then_reset [OF acc m(1)]
  show r: "ch_ready ch \<longleftrightarrow> map_option is_insecure credentials = Some True \<and> g_is_ok (ca_status arguments) \<and> Error_ok reply"
    using c m(1) by (auto simp: construct_channel_cases Error_ok_def split: if_splits)
  show r': "ch_ready ch \<longleftrightarrow> cn_channel c \<noteq> None"
    using c m by (auto simp: construct_channel_cases Error_ok_def Channel_new_def split: if_splits)
  show "fst (destruct_channel (ch, c) w') = (case cn_channel c of None \<Rightarrow> [] | Some a \<Rightarrow> [K_shutdown a, K_wait a])"
    using r' by (auto simp: destruct_channel_def grpc_Channel_Shutdown_def grpc_Channel_Wait_def
        grpc_lite_Channel_Shutdown_def grpc_lite_Channel_Wait_def split: option.split)
  have "(c, w') = (Channel_new, w) \<or> (c, w') = (c0, w0)"
    using c m(1) by (auto simp: construct_channel_cases split: if_splits)
  moreover have "snd (Channel_Reset Channel_new w) = w"
    using channel_owner.reset_empty [of w] acc by (simp add: accounted_def)
  ultimately show "accounted obs (snd (destruct_channel (ch, c) w'))" "views obs (snd (destruct_channel (ch, c) w')) = views obs w"
    using reset acc by (auto simp: destruct_channel_def)
qed

end
