(* ===== verification/Operational_Stats.thy ===== *)
theory Operational_Stats
  imports Status_Codes
begin

section \<open>Statistics\<close>

text \<open>
  The statistics a channel and a server report (\<^verbatim>\<open>grpc_lite/cpp/channel.hpp\<close>, \<^verbatim>\<open>server.hpp\<close>) and
  the C structures they are read from (\<^verbatim>\<open>grpc_lite/grpc_lite.h\<close>). The counters themselves are kept
  by the event loop.
\<close>

text \<open>
  The functions that read statistics share their shape: null is refused, the output is cleared, and
  it is filled from the C structure if the C function succeeds. \<open>reply\<close> is what that function does,
  an error code and the C structure.
\<close>

definition get_stats :: "'a \<Rightarrow> ('c \<Rightarrow> 'a) \<Rightarrow> ErrorCode \<times> 'c \<Rightarrow> 'a option \<Rightarrow> ErrorCode \<times> 'a option" where
  "get_stats zero copy reply out =
     (case out of None \<Rightarrow> (EC_InvalidArgument, None)
      | Some _ \<Rightarrow> let (error, stats) = reply in
          if \<not> Error_ok error then (error, Some zero) else (EC_Ok, Some (copy stats)))"

record UnaryAdmissionStats =
  ua_retained_calls :: u64
  ua_retained_request_bytes :: u64
  ua_rejected_calls :: u64

definition UnaryAdmissionStats_zero :: UnaryAdmissionStats where
  "UnaryAdmissionStats_zero =
     \<lparr>ua_retained_calls = 0, ua_retained_request_bytes = 0, ua_rejected_calls = 0\<rparr>"

record grpc_lite_unary_admission_stats =
  uac_retained_calls :: u64
  uac_retained_request_bytes :: u64
  uac_rejected_calls :: u64

definition GetUnaryAdmissionStats :: "ErrorCode \<times> grpc_lite_unary_admission_stats \<Rightarrow> UnaryAdmissionStats option \<Rightarrow> ErrorCode \<times> UnaryAdmissionStats option" where
  "GetUnaryAdmissionStats =
     get_stats UnaryAdmissionStats_zero (\<lambda>stats.
       \<lparr>ua_retained_calls = uac_retained_calls stats,
        ua_retained_request_bytes = uac_retained_request_bytes stats,
        ua_rejected_calls = uac_rejected_calls stats\<rparr>)"

record StreamAdmissionStats =
  sa_retained_streams :: u64
  sa_reserved_buffer_bytes :: u64
  sa_rejected_streams :: u64

definition StreamAdmissionStats_zero :: StreamAdmissionStats where
  "StreamAdmissionStats_zero =
     \<lparr>sa_retained_streams = 0, sa_reserved_buffer_bytes = 0, sa_rejected_streams = 0\<rparr>"

record grpc_lite_stream_admission_stats =
  sac_retained_streams :: u64
  sac_reserved_buffer_bytes :: u64
  sac_rejected_streams :: u64

definition GetStreamAdmissionStats :: "ErrorCode \<times> grpc_lite_stream_admission_stats \<Rightarrow> StreamAdmissionStats option \<Rightarrow> ErrorCode \<times> StreamAdmissionStats option" where
  "GetStreamAdmissionStats =
     get_stats StreamAdmissionStats_zero (\<lambda>stats.
       \<lparr>sa_retained_streams = sac_retained_streams stats,
        sa_reserved_buffer_bytes = sac_reserved_buffer_bytes stats,
        sa_rejected_streams = sac_rejected_streams stats\<rparr>)"

record ChannelOperationalStats =
  cx_unary_retained_calls :: u64
  cx_unary_retained_request_bytes :: u64
  cx_unary_rejected_calls :: u64
  cx_stream_retained_streams :: u64
  cx_stream_reserved_buffer_bytes :: u64
  cx_stream_rejected_streams :: u64
  cx_active_unary_calls :: u64
  cx_active_streams :: u64
  cx_active_connections :: u64
  cx_pending_unary_calls :: u64
  cx_pending_unary_calls_high_water :: u64
  cx_stream_inbound_bytes :: u64
  cx_stream_inbound_bytes_high_water :: u64
  cx_stream_outbound_bytes :: u64
  cx_stream_outbound_bytes_high_water :: u64
  cx_socket_write_bytes :: u64
  cx_socket_write_bytes_high_water :: u64
  cx_terminal_ok :: u64
  cx_terminal_cancelled :: u64
  cx_terminal_deadline_exceeded :: u64
  cx_terminal_other :: u64
  cx_reconnect_attempts :: u64
  cx_reconnect_successes :: u64
  cx_reconnect_goaway :: u64
  cx_reconnect_transport_failure :: u64

definition ChannelOperationalStats_zero :: ChannelOperationalStats where
  "ChannelOperationalStats_zero =
     \<lparr>cx_unary_retained_calls = 0, cx_unary_retained_request_bytes = 0, cx_unary_rejected_calls = 0,
      cx_stream_retained_streams = 0, cx_stream_reserved_buffer_bytes = 0,
      cx_stream_rejected_streams = 0, cx_active_unary_calls = 0, cx_active_streams = 0,
      cx_active_connections = 0, cx_pending_unary_calls = 0, cx_pending_unary_calls_high_water = 0,
      cx_stream_inbound_bytes = 0, cx_stream_inbound_bytes_high_water = 0,
      cx_stream_outbound_bytes = 0, cx_stream_outbound_bytes_high_water = 0,
      cx_socket_write_bytes = 0, cx_socket_write_bytes_high_water = 0, cx_terminal_ok = 0,
      cx_terminal_cancelled = 0, cx_terminal_deadline_exceeded = 0, cx_terminal_other = 0,
      cx_reconnect_attempts = 0, cx_reconnect_successes = 0, cx_reconnect_goaway = 0,
      cx_reconnect_transport_failure = 0\<rparr>"

record grpc_lite_channel_operational_stats =
  cxc_unary_retained_calls :: u64
  cxc_unary_retained_request_bytes :: u64
  cxc_unary_rejected_calls :: u64
  cxc_stream_retained_streams :: u64
  cxc_stream_reserved_buffer_bytes :: u64
  cxc_stream_rejected_streams :: u64
  cxc_active_unary_calls :: u64
  cxc_active_streams :: u64
  cxc_active_connections :: u64
  cxc_pending_unary_calls :: u64
  cxc_pending_unary_calls_high_water :: u64
  cxc_stream_inbound_bytes :: u64
  cxc_stream_inbound_bytes_high_water :: u64
  cxc_stream_outbound_bytes :: u64
  cxc_stream_outbound_bytes_high_water :: u64
  cxc_socket_write_bytes :: u64
  cxc_socket_write_bytes_high_water :: u64
  cxc_terminal_ok :: u64
  cxc_terminal_cancelled :: u64
  cxc_terminal_deadline_exceeded :: u64
  cxc_terminal_other :: u64
  cxc_reconnect_attempts :: u64
  cxc_reconnect_successes :: u64
  cxc_reconnect_goaway :: u64
  cxc_reconnect_transport_failure :: u64

definition Channel_GetOperationalStats :: "ErrorCode \<times> grpc_lite_channel_operational_stats \<Rightarrow> ChannelOperationalStats option \<Rightarrow> ErrorCode \<times> ChannelOperationalStats option" where
  "Channel_GetOperationalStats =
     get_stats ChannelOperationalStats_zero (\<lambda>stats.
       \<lparr>cx_unary_retained_calls = cxc_unary_retained_calls stats,
        cx_unary_retained_request_bytes = cxc_unary_retained_request_bytes stats,
        cx_unary_rejected_calls = cxc_unary_rejected_calls stats,
        cx_stream_retained_streams = cxc_stream_retained_streams stats,
        cx_stream_reserved_buffer_bytes = cxc_stream_reserved_buffer_bytes stats,
        cx_stream_rejected_streams = cxc_stream_rejected_streams stats,
        cx_active_unary_calls = cxc_active_unary_calls stats,
        cx_active_streams = cxc_active_streams stats,
        cx_active_connections = cxc_active_connections stats,
        cx_pending_unary_calls = cxc_pending_unary_calls stats,
        cx_pending_unary_calls_high_water = cxc_pending_unary_calls_high_water stats,
        cx_stream_inbound_bytes = cxc_stream_inbound_bytes stats,
        cx_stream_inbound_bytes_high_water = cxc_stream_inbound_bytes_high_water stats,
        cx_stream_outbound_bytes = cxc_stream_outbound_bytes stats,
        cx_stream_outbound_bytes_high_water = cxc_stream_outbound_bytes_high_water stats,
        cx_socket_write_bytes = cxc_socket_write_bytes stats,
        cx_socket_write_bytes_high_water = cxc_socket_write_bytes_high_water stats,
        cx_terminal_ok = cxc_terminal_ok stats,
        cx_terminal_cancelled = cxc_terminal_cancelled stats,
        cx_terminal_deadline_exceeded = cxc_terminal_deadline_exceeded stats,
        cx_terminal_other = cxc_terminal_other stats,
        cx_reconnect_attempts = cxc_reconnect_attempts stats,
        cx_reconnect_successes = cxc_reconnect_successes stats,
        cx_reconnect_goaway = cxc_reconnect_goaway stats,
        cx_reconnect_transport_failure = cxc_reconnect_transport_failure stats\<rparr>)"

record ServerOperationalStats =
  sx_admitted_connections :: u64
  sx_active_rpcs :: u64
  sx_rejected_connections :: u64
  sx_pre_ack_rejected_streams :: u64
  sx_streaming_outbound_reserved_bytes :: u64
  sx_streaming_outbound_reserved_bytes_high_water_sum :: u64
  sx_socket_queued_write_bytes :: u64
  sx_socket_queued_write_bytes_high_water_sum :: u64
  sx_close_peer_transport :: u64
  sx_close_protocol_local :: u64
  sx_close_preface_timeout :: u64
  sx_close_idle_timeout :: u64
  sx_close_graceful_drain :: u64
  sx_close_forced_shutdown :: u64

definition ServerOperationalStats_zero :: ServerOperationalStats where
  "ServerOperationalStats_zero =
     \<lparr>sx_admitted_connections = 0, sx_active_rpcs = 0, sx_rejected_connections = 0,
      sx_pre_ack_rejected_streams = 0, sx_streaming_outbound_reserved_bytes = 0,
      sx_streaming_outbound_reserved_bytes_high_water_sum = 0, sx_socket_queued_write_bytes = 0,
      sx_socket_queued_write_bytes_high_water_sum = 0, sx_close_peer_transport = 0,
      sx_close_protocol_local = 0, sx_close_preface_timeout = 0, sx_close_idle_timeout = 0,
      sx_close_graceful_drain = 0, sx_close_forced_shutdown = 0\<rparr>"

record grpc_lite_server_operational_stats =
  sxc_admitted_connections :: u64
  sxc_active_rpcs :: u64
  sxc_rejected_connections :: u64
  sxc_pre_ack_rejected_streams :: u64
  sxc_streaming_outbound_reserved_bytes :: u64
  sxc_streaming_outbound_reserved_bytes_high_water_sum :: u64
  sxc_socket_queued_write_bytes :: u64
  sxc_socket_queued_write_bytes_high_water_sum :: u64
  sxc_close_peer_transport :: u64
  sxc_close_protocol_local :: u64
  sxc_close_preface_timeout :: u64
  sxc_close_idle_timeout :: u64
  sxc_close_graceful_drain :: u64
  sxc_close_forced_shutdown :: u64

definition Server_GetOperationalStats :: "ErrorCode \<times> grpc_lite_server_operational_stats \<Rightarrow> ServerOperationalStats option \<Rightarrow> ErrorCode \<times> ServerOperationalStats option" where
  "Server_GetOperationalStats =
     get_stats ServerOperationalStats_zero (\<lambda>stats.
       \<lparr>sx_admitted_connections = sxc_admitted_connections stats,
        sx_active_rpcs = sxc_active_rpcs stats,
        sx_rejected_connections = sxc_rejected_connections stats,
        sx_pre_ack_rejected_streams = sxc_pre_ack_rejected_streams stats,
        sx_streaming_outbound_reserved_bytes = sxc_streaming_outbound_reserved_bytes stats,
        sx_streaming_outbound_reserved_bytes_high_water_sum = sxc_streaming_outbound_reserved_bytes_high_water_sum stats,
        sx_socket_queued_write_bytes = sxc_socket_queued_write_bytes stats,
        sx_socket_queued_write_bytes_high_water_sum = sxc_socket_queued_write_bytes_high_water_sum stats,
        sx_close_peer_transport = sxc_close_peer_transport stats,
        sx_close_protocol_local = sxc_close_protocol_local stats,
        sx_close_preface_timeout = sxc_close_preface_timeout stats,
        sx_close_idle_timeout = sxc_close_idle_timeout stats,
        sx_close_graceful_drain = sxc_close_graceful_drain stats,
        sx_close_forced_shutdown = sxc_close_forced_shutdown stats\<rparr>)"

end
