(* ===== verification/Typed_Service.thy ===== *)
theory Typed_Service
  imports Request_Stream Native_Handles
begin

section \<open>Typed services\<close>

text \<open>
  The class template \<^verbatim>\<open>internal::TypedMethodRegistration\<close> of \<^verbatim>\<open>grpc_lite/cpp/typed_service.hpp\<close>, which turns
  the callbacks of a registered method into calls of an application handler: \<^verbatim>\<open>CallState\<close>, one per call, and
  \<^verbatim>\<open>Impl\<close> with the map of the calls. The template argument \<^verbatim>\<open>ClientStreaming\<close> is an argument
  \<open>streaming\<close>; without it the handler is started at the end of the requests with the one request of the
  call, with it at the start of the call with the request stream.
\<close>

subsection \<open>The state of a call\<close>

text \<open>
  \<open>k_core\<close> is \<^verbatim>\<open>typed_call\<close> with the native call it commands and, when the requests are a stream,
  \<^verbatim>\<open>request_stream\<close>.
\<close>

record ('cb, 'req) CallState =
  k_core :: "('cb, 'req) rstate"
  k_context :: ServerContext
  k_call_id :: nat
  k_request :: "'req option"
  k_request_count :: nat
  k_rejected :: bool
  k_dispatched :: bool

definition CallState_new :: "ServerCall \<Rightarrow> ServerContext \<Rightarrow> native \<Rightarrow> ('cb, 'req) CallState" where
  "CallState_new call context n =
     (let core = \<lparr>s_native = n, s_typed = TypedCallState_new call, s_stream = TypedRequestStreamState_new,
                  s_delivered = []\<rparr>
      in \<lparr>k_core = core, k_context = context, k_call_id = tc_id core, k_request = None, k_request_count = 0,
          k_rejected = False, k_dispatched = False\<rparr>)"

definition finish_with :: "StatusCode \<Rightarrow> string \<Rightarrow> ('cb, 'req) CallState \<Rightarrow> ('cb, 'req) CallState" where
  "finish_with code msg k = k\<lparr>k_core := snd (tc_Finish \<lparr>s_code = code, s_message = msg\<rparr> None (k_core k))\<rparr>"

definition cs_OnMessage ::
  "bool \<Rightarrow> (string \<Rightarrow> 'req option) \<Rightarrow> string \<Rightarrow> ('cb, 'req) CallState \<Rightarrow> ReceiveAction \<times> ('cb, 'req) CallState" where
  "cs_OnMessage streaming parse payload k =
     (if streaming
      then let (action, core, _) = rs_OnMessage parse payload (k_core k) in (action, k\<lparr>k_core := core\<rparr>)
      else (Continue,
        if k_rejected k \<or> k_dispatched k then k
        else if k_request_count k \<noteq> 0
        then finish_with SC_InvalidArgument ''duplicate request message'' (k\<lparr>k_rejected := True\<rparr>)
        else let k1 = k\<lparr>k_request_count := 1\<rparr> in
          if INT_MAX < int (length payload)
          then finish_with SC_ResourceExhausted ''request is too large to parse'' (k1\<lparr>k_rejected := True\<rparr>)
          else case parse payload of
            None \<Rightarrow> finish_with SC_InvalidArgument ''failed to parse request'' (k1\<lparr>k_rejected := True\<rparr>)
          | Some parsed \<Rightarrow> k1\<lparr>k_request := Some parsed\<rparr>))"

text \<open>\<^verbatim>\<open>return std::move(request)\<close> leaves an optional that is engaged but moved from; it is not read again.\<close>

definition TakeRequest :: "('cb, 'req) CallState \<Rightarrow> 'req option \<times> ('cb, 'req) CallState" where
  "TakeRequest k =
     (if k_rejected k \<or> k_dispatched k then (None, k)
      else if k_request_count k \<noteq> 1 \<or> k_request k = None
      then (None, finish_with SC_InvalidArgument ''request message is missing'' (k\<lparr>k_rejected := True\<rparr>))
      else (k_request k, k\<lparr>k_dispatched := True\<rparr>))"

subsection \<open>The state of a registration\<close>

text \<open>
  A call the event loop knows: not started yet, or without a state since it could not be retained
  (\<open>Arriving\<close>), or with its \<^verbatim>\<open>CallState\<close>, which the map \<^verbatim>\<open>calls\<close> holds until the terminal callback and
  the application as long as it likes (\<open>Kept\<close>, with whether it is in the map). The C side may lack the memory
  to retain a call: \<open>v_retain\<close> has its answers, in the order of the calls of \<^verbatim>\<open>Retain\<close>. \<open>v_started\<close> records
  the starts of the handler, \<open>v_ran\<close> the application's callbacks that ran.
\<close>

datatype ('cb, 'req) slot = Arriving native | Kept bool "('cb, 'req) CallState"

record ('cb, 'req) Impl =
  v_calls :: "nat \<Rightarrow> ('cb, 'req) slot option"
  v_handler :: bool
  v_registered :: bool
  v_registering :: bool
  v_retain :: "nat \<Rightarrow> ErrorCode"
  v_retains :: nat
  v_started :: "(nat \<times> ServerContext \<times> 'req option) list"
  v_ran :: "('cb \<times> ServerTerminalReason option) list"

definition Impl_new :: "(nat \<Rightarrow> ErrorCode) \<Rightarrow> ('cb, 'req) Impl" where
  "Impl_new retain =
     \<lparr>v_calls = (\<lambda>_. None), v_handler = False, v_registered = False, v_registering = False, v_retain = retain,
      v_retains = 0, v_started = [], v_ran = []\<rparr>"

definition set_slot :: "nat \<Rightarrow> ('cb, 'req) slot \<Rightarrow> ('cb, 'req) Impl \<Rightarrow> ('cb, 'req) Impl" where
  "set_slot i sl v = v\<lparr>v_calls := (v_calls v)(i := Some sl)\<rparr>"

fun slot_native :: "('cb, 'req) slot \<Rightarrow> native" where
  "slot_native (Arriving n) = n"
| "slot_native (Kept _ k) = s_native (k_core k)"

fun slot_with :: "native \<Rightarrow> ('cb, 'req) slot \<Rightarrow> ('cb, 'req) slot" where
  "slot_with n (Arriving _) = Arriving n"
| "slot_with n (Kept b k) = Kept b (k\<lparr>k_core := (k_core k)\<lparr>s_native := n\<rparr>\<rparr>)"

text \<open>
  \<^verbatim>\<open>ServerCall call; if (!stream.Retain(&call).ok()) ...\<close> on the borrowed stream of call \<open>i\<close>: the
  handle, or \<^const>\<open>None\<close> on an error.
\<close>

definition retain_stream :: "nat \<Rightarrow> ('cb, 'req) Impl \<Rightarrow> ServerCall \<times> ('cb, 'req) Impl" where
  "retain_stream i v =
     (case v_calls v i of None \<Rightarrow> (None, v)
      | Some sl \<Rightarrow>
          let (error, out, n) = ServerStream_Retain (v_retain v (v_retains v)) (Some None) (slot_native sl) in
          (if Error_ok error then Option.bind out id else None,
           set_slot i (slot_with n sl) (v\<lparr>v_retains := v_retains v + 1\<rparr>)))"

text \<open>Leaving the scope of a \<^verbatim>\<open>ServerCall\<close>.\<close>

definition drop_call :: "nat \<Rightarrow> ServerCall \<Rightarrow> ('cb, 'req) Impl \<Rightarrow> ('cb, 'req) Impl" where
  "drop_call i call v =
     (case v_calls v i of None \<Rightarrow> v
      | Some sl \<Rightarrow> set_slot i (slot_with (grpc_lite_server_call_destroy call (slot_native sl)) sl) v)"

definition mapped :: "nat \<Rightarrow> ('cb, 'req) Impl \<Rightarrow> ('cb, 'req) CallState option" where
  "mapped i v = (case v_calls v i of Some (Kept True k) \<Rightarrow> Some k | _ \<Rightarrow> None)"

definition Find :: "nat \<Rightarrow> ('cb, 'req) Impl \<Rightarrow> ('cb, 'req) CallState option \<times> ('cb, 'req) Impl" where
  "Find i v =
     (case retain_stream i v of
        (None, v1) \<Rightarrow> (None, v1)
      | (call, v1) \<Rightarrow>
          let call_id = (case v_calls v1 i of None \<Rightarrow> 0 | Some sl \<Rightarrow> ServerCall_id call (slot_native sl));
              v2 = drop_call i call v1
          in (mapped call_id v2, v2))"

subsection \<open>The callbacks of a method\<close>

text \<open>The handler runs, or the call is answered when there is none.\<close>

definition start_handler ::
  "nat \<Rightarrow> ('cb, 'req) CallState \<Rightarrow> 'req option \<Rightarrow> ('cb, 'req) Impl \<Rightarrow> ('cb, 'req) Impl" where
  "start_handler i k request v =
     (if v_handler v then v\<lparr>v_started := v_started v @ [(i, k_context k, request)]\<rparr>
      else set_slot i (Kept True (finish_with SC_Unavailable ''event service is unavailable'' k)) v)"

definition svc_on_start :: "bool \<Rightarrow> nat \<Rightarrow> ServerContext \<Rightarrow> ('cb, 'req) Impl \<Rightarrow> ('cb, 'req) Impl" where
  "svc_on_start streaming stream context v =
     (case retain_stream stream v of
        (None, v1) \<Rightarrow> v1
      | (call, v1) \<Rightarrow>
          (case v_calls v1 stream of None \<Rightarrow> v1
           | Some sl \<Rightarrow>
               let state = CallState_new call context (slot_native sl);
                   v2 = set_slot (k_call_id state) (Kept True state) v1
               in if streaming then start_handler (k_call_id state) state None v2 else v2))"

text \<open>The message a call is given is recorded in \<^const>\<open>s_delivered\<close>.\<close>

definition deliver_to :: "string \<Rightarrow> ('cb, 'req) CallState \<Rightarrow> ('cb, 'req) CallState" where
  "deliver_to payload k = k\<lparr>k_core := (k_core k)\<lparr>s_delivered := s_delivered (k_core k) @ [payload]\<rparr>\<rparr>"

definition svc_on_message ::
  "bool \<Rightarrow> (string \<Rightarrow> 'req option) \<Rightarrow> nat \<Rightarrow> ServerContext \<Rightarrow> string \<Rightarrow> Compression \<Rightarrow> ('cb, 'req) Impl \<Rightarrow>
   ReceiveAction \<times> ('cb, 'req) Impl" where
  "svc_on_message streaming parse stream context payload compression v =
     (case Find stream v of
        (None, v1) \<Rightarrow> (Pause, v1)
      | (Some state, v1) \<Rightarrow>
          let (action, state') = cs_OnMessage streaming parse payload (deliver_to payload state)
          in (action, set_slot (k_call_id state) (Kept True state') v1))"

definition svc_on_remote_end :: "bool \<Rightarrow> nat \<Rightarrow> ServerContext \<Rightarrow> ('cb, 'req) Impl \<Rightarrow> ('cb, 'req) Impl" where
  "svc_on_remote_end streaming stream context v =
     (case Find stream v of
        (None, v1) \<Rightarrow> v1
      | (Some state, v1) \<Rightarrow>
          if streaming then set_slot (k_call_id state) (Kept True (state\<lparr>k_core := rs_OnRemoteEnd (k_core state)\<rparr>)) v1
          else let (request, state') = TakeRequest state; v2 = set_slot (k_call_id state) (Kept True state') v1 in
            case request of None \<Rightarrow> v2
            | Some _ \<Rightarrow> start_handler (k_call_id state) state' request v2)"

definition svc_on_writable :: "nat \<Rightarrow> ServerContext \<Rightarrow> ('cb, 'req) Impl \<Rightarrow> ('cb, 'req) Impl" where
  "svc_on_writable stream context v =
     (case Find stream v of
        (None, v1) \<Rightarrow> v1
      | (Some state, v1) \<Rightarrow>
          let (invoke, core) = tc_OnWritable (k_core state)
          in set_slot (k_call_id state) (Kept True (state\<lparr>k_core := core\<rparr>)) (v1\<lparr>v_ran := v_ran v1 @ plain invoke\<rparr>))"

definition svc_on_cancel :: "bool \<Rightarrow> nat \<Rightarrow> ServerContext \<Rightarrow> ('cb, 'req) Impl \<Rightarrow> ('cb, 'req) Impl" where
  "svc_on_cancel streaming stream context v =
     (case Find stream v of
        (None, v1) \<Rightarrow> v1
      | (Some state, v1) \<Rightarrow>
          let (invoke, core) = tc_OnCancel (if streaming then rs_OnCancel (k_core state) else k_core state)
          in set_slot (k_call_id state) (Kept True (state\<lparr>k_core := core\<rparr>)) (v1\<lparr>v_ran := v_ran v1 @ plain invoke\<rparr>))"

definition svc_on_terminal :: "bool \<Rightarrow> nat \<Rightarrow> ServerTerminalReason \<Rightarrow> ('cb, 'req) Impl \<Rightarrow> ('cb, 'req) Impl" where
  "svc_on_terminal streaming call_id reason v =
     (case mapped call_id v of
        None \<Rightarrow> v
      | Some state \<Rightarrow>
          let (invoke, core) = tc_OnTerminal reason (if streaming then rs_OnTerminal (k_core state) else k_core state)
          in set_slot call_id (Kept False (state\<lparr>k_core := core\<rparr>)) (v\<lparr>v_ran := v_ran v @ reasoned invoke\<rparr>))"

definition service_callbacks ::
  "bool \<Rightarrow> (string \<Rightarrow> 'req option) \<Rightarrow> ('cb, 'req) Impl ServerStreamCallbacks" where
  "service_callbacks streaming parse =
     \<lparr>cb_on_start = Some (svc_on_start streaming), cb_on_message = Some (svc_on_message streaming parse),
      cb_on_remote_end = Some (svc_on_remote_end streaming), cb_on_writable = Some svc_on_writable,
      cb_on_cancel = Some (svc_on_cancel streaming), cb_on_terminal = Some (svc_on_terminal streaming)\<rparr>"

subsection \<open>Registration\<close>

text \<open>The two critical sections of \<^verbatim>\<open>Register\<close>; \<open>handler\<close> tells whether the function is not empty.\<close>

definition Register_begin :: "bool \<Rightarrow> ('cb, 'req) Impl \<Rightarrow> ErrorCode \<times> ('cb, 'req) Impl" where
  "Register_begin handler v =
     (if v_registered v \<or> v_registering v then (EC_InvalidState, v)
      else (EC_Ok, v\<lparr>v_registering := True, v_handler := handler\<rparr>))"

definition Register_end :: "ErrorCode \<Rightarrow> ('cb, 'req) Impl \<Rightarrow> ('cb, 'req) Impl" where
  "Register_end error v =
     (if Error_ok error then v\<lparr>v_registered := True, v_registering := False\<rparr>
      else v\<lparr>v_handler := False, v_registering := False\<rparr>)"

definition Impl_Register ::
  "bool \<Rightarrow> (string \<Rightarrow> 'req option) \<Rightarrow> ErrorCode \<Rightarrow> string \<Rightarrow> bool \<Rightarrow> Server \<Rightarrow> ('cb, 'req) Impl world \<Rightarrow> ('cb, 'req) Impl \<Rightarrow>
   ErrorCode \<times> Server \<times> ('cb, 'req) Impl world \<times> ('cb, 'req) Impl" where
  "Impl_Register streaming parse reply method handler server w v =
     (case Register_begin handler v of
        (begun, v1) \<Rightarrow>
          if \<not> Error_ok begun then (begun, server, w, v1)
          else let (error, server', w') =
                 Server_RegisterStream reply method ServerMethodOptions_default (service_callbacks streaming parse) server w
               in (error, server', w', Register_end error v1))"

definition Impl_Disable :: "('cb, 'req) Impl \<Rightarrow> ('cb, 'req) Impl" where
  "Impl_Disable v = v\<lparr>v_handler := False\<rparr>"

subsection \<open>Histories\<close>

text \<open>
  What happens to a registration, in the order of its critical sections: a new call arrives and is
  started, its callbacks come, the threads that hold the call use it or the event loop changes its flags
  (the steps of \<^const>\<open>tc_step\<close> other than its callbacks), a reader takes a request, the object is registered
  or disabled. Calls arrive once \<^verbatim>\<open>RegisterStream\<close> has been called. The event loop starts a call once,
  delivers messages while the reception is not paused and then the end of the requests, once, and makes
  the other callbacks when it owes them. The application uses a call after its handler got it.
  \<open>h_begun\<close> and \<open>h_ended\<close> are the calls whose start and whose end of requests were reported.
\<close>

datatype 'cb occurrence =
    Z_arrive nat "nat \<Rightarrow> ErrorCode"
  | Z_start nat ServerContext
  | Z_message nat ServerContext string Compression
  | Z_remote_end nat ServerContext
  | Z_writable nat ServerContext
  | Z_cancel nat ServerContext
  | Z_terminal nat
  | Z_loop nat "'cb tstep"
  | Z_use nat "'cb tstep"
  | Z_take nat
  | Z_begin bool
  | Z_end ErrorCode
  | Z_disable

record ('cb, 'req) history =
  h_impl :: "('cb, 'req) Impl"
  h_begun :: "nat \<Rightarrow> bool"
  h_ended :: "nat \<Rightarrow> bool"

definition native_at :: "nat \<Rightarrow> ('cb, 'req) Impl \<Rightarrow> native option" where
  "native_at i v = map_option slot_native (v_calls v i)"

definition at_native :: "nat \<Rightarrow> (native \<Rightarrow> native) \<Rightarrow> ('cb, 'req) Impl \<Rightarrow> ('cb, 'req) Impl" where
  "at_native i f v = (case v_calls v i of None \<Rightarrow> v | Some sl \<Rightarrow> set_slot i (slot_with (f (slot_native sl)) sl) v)"

text \<open>The steps of the event loop and those of the application.\<close>

fun native_step :: "'cb tstep \<Rightarrow> native \<Rightarrow> native" where
  "native_step N_space n = releaseOutboundReservation n"
| "native_step N_resume n = process_resume n"
| "native_step N_cancel n = cancelStreaming n"
| "native_step N_fail n = failStreaming n"
| "native_step (N_retire r) n = retireStream r n"
| "native_step _ n = n"

fun is_operation :: "'cb tstep \<Rightarrow> bool" where
  "is_operation (A_SendInitialMetadata m c) = True"
| "is_operation (A_Send p c) = True"
| "is_operation (A_Finish st m) = True"
| "is_operation A_ResumeReceive = True"
| "is_operation (A_SetOnWritable cb) = True"
| "is_operation (A_SetOnCancel cb) = True"
| "is_operation (A_SetOnTerminal cb) = True"
| "is_operation _ = False"

definition has_started :: "nat \<Rightarrow> ('cb, 'req) Impl \<Rightarrow> bool" where
  "has_started i v = list_ex (\<lambda>(j, _). j = i) (v_started v)"

definition on_state :: "nat \<Rightarrow> (('cb, 'req) CallState \<Rightarrow> ('cb, 'req) CallState) \<Rightarrow> ('cb, 'req) Impl \<Rightarrow> ('cb, 'req) Impl" where
  "on_state i f v = (case v_calls v i of Some (Kept b k) \<Rightarrow> set_slot i (Kept b (f k)) v | _ \<Rightarrow> v)"

definition use_call :: "nat \<Rightarrow> 'cb tstep \<Rightarrow> ('cb, 'req) Impl \<Rightarrow> ('cb, 'req) Impl" where
  "use_call i a v =
     (case v_calls v i of
        Some (Kept b k) \<Rightarrow> let (core, ran, _) = tc_step a (k_core k) in
          set_slot i (Kept b (k\<lparr>k_core := core\<rparr>)) (v\<lparr>v_ran := v_ran v @ ran\<rparr>)
      | _ \<Rightarrow> v)"

definition reception :: "nat \<Rightarrow> ('cb, 'req) history \<Rightarrow> bool" where
  "reception i h \<longleftrightarrow> h_begun h i \<and> \<not> h_ended h i \<and>
     (case native_at i (h_impl h) of None \<Rightarrow> False | Some n \<Rightarrow> receiving n)"

definition owes :: "nat \<Rightarrow> (native \<Rightarrow> bool) \<Rightarrow> ('cb, 'req) history \<Rightarrow> bool" where
  "owes i due h \<longleftrightarrow> h_begun h i \<and> (case native_at i (h_impl h) of None \<Rightarrow> False | Some n \<Rightarrow> due n)"

fun svc_step ::
  "bool \<Rightarrow> (string \<Rightarrow> 'req option) \<Rightarrow> 'cb occurrence \<Rightarrow> ('cb, 'req) history \<Rightarrow> ('cb, 'req) history" where
  "svc_step streaming parse (Z_arrive i r) h =
     (let v = h_impl h in
      if v_calls v i = None \<and> (v_registered v \<or> v_registering v)
      then h\<lparr>h_impl := set_slot i (Arriving (startStreaming i r False True)) v\<rparr> else h)"
| "svc_step streaming parse (Z_start i context) h =
     (if v_calls (h_impl h) i \<noteq> None \<and> \<not> h_begun h i
      then h\<lparr>h_impl := svc_on_start streaming i context (h_impl h), h_begun := (h_begun h)(i := True)\<rparr> else h)"
| "svc_step streaming parse (Z_message i context payload compression) h =
     (if reception i h
      then let (action, v) = svc_on_message streaming parse i context payload compression (h_impl h)
           in h\<lparr>h_impl := at_native i (pause_if action) v\<rparr>
      else h)"
| "svc_step streaming parse (Z_remote_end i context) h =
     (if reception i h
      then h\<lparr>h_impl := svc_on_remote_end streaming i context (h_impl h), h_ended := (h_ended h)(i := True)\<rparr> else h)"
| "svc_step streaming parse (Z_writable i context) h =
     (if owes i n_writable_due h
      then h\<lparr>h_impl := svc_on_writable i context (at_native i (\<lambda>n. n\<lparr>n_writable_due := False\<rparr>) (h_impl h))\<rparr> else h)"
| "svc_step streaming parse (Z_cancel i context) h =
     (if owes i n_cancel_due h
      then h\<lparr>h_impl := svc_on_cancel streaming i context (at_native i (\<lambda>n. n\<lparr>n_cancel_due := False\<rparr>) (h_impl h))\<rparr> else h)"
| "svc_step streaming parse (Z_terminal i) h =
     (case Option.bind (native_at i (h_impl h)) n_terminal_due of
        Some r \<Rightarrow> if h_begun h i
          then h\<lparr>h_impl := svc_on_terminal streaming i r (at_native i (\<lambda>n. n\<lparr>n_terminal_due := None\<rparr>) (h_impl h))\<rparr> else h
      | None \<Rightarrow> h)"
| "svc_step streaming parse (Z_loop i a) h = h\<lparr>h_impl := at_native i (native_step a) (h_impl h)\<rparr>"
| "svc_step streaming parse (Z_use i a) h =
     (if is_operation a \<and> has_started i (h_impl h) then h\<lparr>h_impl := use_call i a (h_impl h)\<rparr> else h)"
| "svc_step streaming parse (Z_take i) h =
     (if has_started i (h_impl h)
      then h\<lparr>h_impl := on_state i (\<lambda>k. k\<lparr>k_core := take_request (k_core k)\<rparr>) (h_impl h)\<rparr> else h)"
| "svc_step streaming parse (Z_begin handler) h = h\<lparr>h_impl := snd (Register_begin handler (h_impl h))\<rparr>"
| "svc_step streaming parse (Z_end error) h =
     (if v_registering (h_impl h) then h\<lparr>h_impl := Register_end error (h_impl h)\<rparr> else h)"
| "svc_step streaming parse Z_disable h = h\<lparr>h_impl := Impl_Disable (h_impl h)\<rparr>"

definition history_start :: "(nat \<Rightarrow> ErrorCode) \<Rightarrow> ('cb, 'req) history" where
  "history_start retain = \<lparr>h_impl = Impl_new retain, h_begun = (\<lambda>_. False), h_ended = (\<lambda>_. False)\<rparr>"

definition svc_run ::
  "bool \<Rightarrow> (string \<Rightarrow> 'req option) \<Rightarrow> 'cb occurrence list \<Rightarrow> ('cb, 'req) history \<Rightarrow> ('cb, 'req) history" where
  "svc_run streaming parse zs h = fold (svc_step streaming parse) zs h"

subsection \<open>What a callback does to its call\<close>

text \<open>The calls in which the handler was started, by call; a handle taken and given back.\<close>

definition starts :: "nat \<Rightarrow> ('cb, 'req) Impl \<Rightarrow> (nat \<times> ServerContext \<times> 'req option) list" where
  "starts i v = filter (\<lambda>(j, _). j = i) (v_started v)"

definition bookkeep :: "native \<Rightarrow> native" where
  "bookkeep n = n\<lparr>n_handles := Suc (n_handles n), n_released := n_handles n # n_released n\<rparr>"

definition placed :: "nat \<Rightarrow> bool \<Rightarrow> ('cb, 'req) slot \<Rightarrow> bool" where
  "placed i begun sl \<longleftrightarrow>
     n_id (slot_native sl) = i \<and> (case sl of Arriving _ \<Rightarrow> True | Kept _ k \<Rightarrow> begun \<and> k_call_id k = i)"

lemma slot_with_simps [simp]:
  "slot_with (slot_native sl) sl = sl" "slot_native (slot_with n sl) = n" "slot_with n (slot_with m sl) = slot_with n sl"
  by (cases sl; simp)+

lemma set_slot_simps [simp]:
  "v_calls (set_slot i sl v) = (v_calls v)(i := Some sl)" "v_handler (set_slot i sl v) = v_handler v"
  "v_started (set_slot i sl v) = v_started v" "v_retain (set_slot i sl v) = v_retain v"
  "v_retains (set_slot i sl v) = v_retains v" "v_registered (set_slot i sl v) = v_registered v"
  "v_registering (set_slot i sl v) = v_registering v" "v_ran (set_slot i sl v) = v_ran v"
  "set_slot i sl (set_slot i sl' v) = set_slot i sl v"
  by (simp_all add: set_slot_def)

lemma set_slot_same: "v_calls v i = Some sl \<Longrightarrow> set_slot i sl v = v"
  by (simp add: set_slot_def fun_upd_idem)

definition counted :: "('cb, 'req) Impl \<Rightarrow> ('cb, 'req) Impl" where
  "counted v = v\<lparr>v_retains := v_retains v + 1\<rparr>"

lemma counted_simps [simp]:
  "v_calls (counted v) = v_calls v" "v_handler (counted v) = v_handler v" "v_started (counted v) = v_started v"
  "v_retain (counted v) = v_retain v" "v_registered (counted v) = v_registered v"
  "v_registering (counted v) = v_registering v" "v_ran (counted v) = v_ran v"
  by (simp_all add: counted_def)

definition retained :: "('cb, 'req) Impl \<Rightarrow> bool" where
  "retained v = Error_ok (v_retain v (v_retains v))"

lemma retain_stream_eq:
  "v_calls v i = Some sl \<Longrightarrow>
   retain_stream i v =
     (if retained v
      then (Some (n_handles (slot_native sl)),
            set_slot i (slot_with ((slot_native sl)\<lparr>n_handles := Suc (n_handles (slot_native sl))\<rparr>) sl) (counted v))
      else (None, counted v))"
  by (auto simp: retain_stream_def ServerStream_Retain_def new_handle_def ServerCall_assign_def Let_def
      grpc_lite_server_call_destroy_def Error_ok_def retained_def counted_def set_slot_same)

definition as_mapped :: "('cb, 'req) slot \<Rightarrow> ('cb, 'req) CallState option" where
  "as_mapped sl = (case sl of Kept True k \<Rightarrow> Some k | _ \<Rightarrow> None)"

lemma Find_eq:
  assumes "v_calls v i = Some sl" and "placed i b sl"
  shows "Find i v =
    (if retained v
     then (as_mapped (slot_with (bookkeep (slot_native sl)) sl),
           set_slot i (slot_with (bookkeep (slot_native sl)) sl) (counted v))
     else (None, counted v))"
  using assms
  by (cases sl)
    (auto simp: Find_def retain_stream_eq drop_call_def grpc_lite_server_call_destroy_def ServerCall_id_def mapped_def
      as_mapped_def bookkeep_def placed_def Let_def)

lemma as_mapped_Some: "as_mapped (slot_with n sl) = Some k \<longleftrightarrow> (\<exists>k0. sl = Kept True k0 \<and> k = k0\<lparr>k_core := (k_core k0)\<lparr>s_native := n\<rparr>\<rparr>)"
  by (cases sl) (auto simp: as_mapped_def split: bool.splits)

text \<open>The effects of the callbacks on a call that is found, and on the starts of its handler.\<close>

definition remote_ended ::
  "nat \<Rightarrow> bool \<Rightarrow> bool \<Rightarrow> ('cb, 'req) CallState \<Rightarrow> ('cb, 'req) CallState \<times> (nat \<times> ServerContext \<times> 'req option) list" where
  "remote_ended i streaming handler k =
     (if streaming then (k\<lparr>k_core := rs_OnRemoteEnd (k_core k)\<rparr>, [])
      else case TakeRequest k of
        (None, k') \<Rightarrow> (k', [])
      | (request, k') \<Rightarrow> if handler then (k', [(i, k_context k', request)])
                        else (finish_with SC_Unavailable ''event service is unavailable'' k', []))"

definition started ::
  "nat \<Rightarrow> bool \<Rightarrow> bool \<Rightarrow> ('cb, 'req) CallState \<Rightarrow> ('cb, 'req) CallState \<times> (nat \<times> ServerContext \<times> 'req option) list" where
  "started i streaming handler k =
     (if \<not> streaming then (k, []) else if handler then (k, [(i, k_context k, None)])
      else (finish_with SC_Unavailable ''event service is unavailable'' k, []))"

lemma call_id_frame [simp]:
  "k_call_id (finish_with c m k) = k_call_id k" "k_context (finish_with c m k) = k_context k"
  "k_call_id (snd (cs_OnMessage streaming parse p k)) = k_call_id k" "k_call_id (snd (TakeRequest k)) = k_call_id k"
  "k_context (snd (TakeRequest k)) = k_context k"
  "k_call_id (deliver_to p k) = k_call_id k"
  by (simp_all add: finish_with_def cs_OnMessage_def TakeRequest_def deliver_to_def Let_def split_beta split: option.split)

lemma start_handler_eq:
  "v_calls v i = Some (Kept True k) \<Longrightarrow>
   start_handler i k request v =
     (if v_handler v then v\<lparr>v_started := v_started v @ [(i, k_context k, request)]\<rparr>
      else set_slot i (Kept True (finish_with SC_Unavailable ''event service is unavailable'' k)) v)"
  by (simp add: start_handler_def)

lemma svc_on_remote_end_eq:
  assumes "v_calls v i = Some sl" and "placed i b sl"
  shows "svc_on_remote_end streaming i context v =
    (case (if retained v then as_mapped (slot_with (bookkeep (slot_native sl)) sl) else None) of
       None \<Rightarrow> if retained v then set_slot i (slot_with (bookkeep (slot_native sl)) sl) (counted v) else counted v
     | Some k \<Rightarrow> let (k', st) = remote_ended i streaming (v_handler v) k in
         set_slot i (Kept True k') ((counted v)\<lparr>v_started := v_started v @ st\<rparr>))"
proof -
  have id: "k_call_id k = i" if "as_mapped (slot_with n sl) = Some k" for k n
    using that assms(2) by (auto simp: as_mapped_Some placed_def)
  show ?thesis
    by (auto simp: svc_on_remote_end_def Find_eq [OF assms] remote_ended_def start_handler_def Let_def id set_slot_def
        split: option.split prod.split)
qed

lemma svc_on_message_eq:
  assumes "v_calls v i = Some sl" and "placed i b sl"
  shows "svc_on_message streaming parse i context payload compression v =
    (case (if retained v then as_mapped (slot_with (bookkeep (slot_native sl)) sl) else None) of
       None \<Rightarrow> (Pause, if retained v then set_slot i (slot_with (bookkeep (slot_native sl)) sl) (counted v) else counted v)
     | Some k \<Rightarrow> let (action, k') = cs_OnMessage streaming parse payload (deliver_to payload k) in
         (action, set_slot i (Kept True k') (counted v)))"
proof -
  have id: "k_call_id k = i" if "as_mapped (slot_with n sl) = Some k" for k n
    using that assms(2) by (auto simp: as_mapped_Some placed_def)
  show ?thesis
    by (auto simp: svc_on_message_def Find_eq [OF assms] Let_def id split: option.split prod.split)
qed

lemma svc_on_writable_eq:
  assumes "v_calls v i = Some sl" and "placed i b sl"
  shows "svc_on_writable i context v =
    (case (if retained v then as_mapped (slot_with (bookkeep (slot_native sl)) sl) else None) of
       None \<Rightarrow> if retained v then set_slot i (slot_with (bookkeep (slot_native sl)) sl) (counted v) else counted v
     | Some k \<Rightarrow> let (invoke, core) = tc_OnWritable (k_core k) in
         set_slot i (Kept True (k\<lparr>k_core := core\<rparr>)) ((counted v)\<lparr>v_ran := v_ran v @ plain invoke\<rparr>))"
proof -
  have id: "k_call_id k = i" if "as_mapped (slot_with n sl) = Some k" for k n
    using that assms(2) by (auto simp: as_mapped_Some placed_def)
  show ?thesis
    by (auto simp: svc_on_writable_def Find_eq [OF assms] Let_def id set_slot_def split: option.split prod.split)
qed

lemma svc_on_cancel_eq:
  assumes "v_calls v i = Some sl" and "placed i b sl"
  shows "svc_on_cancel streaming i context v =
    (case (if retained v then as_mapped (slot_with (bookkeep (slot_native sl)) sl) else None) of
       None \<Rightarrow> if retained v then set_slot i (slot_with (bookkeep (slot_native sl)) sl) (counted v) else counted v
     | Some k \<Rightarrow> let (invoke, core) = tc_OnCancel (if streaming then rs_OnCancel (k_core k) else k_core k) in
         set_slot i (Kept True (k\<lparr>k_core := core\<rparr>)) ((counted v)\<lparr>v_ran := v_ran v @ plain invoke\<rparr>))"
proof -
  have id: "k_call_id k = i" if "as_mapped (slot_with n sl) = Some k" for k n
    using that assms(2) by (auto simp: as_mapped_Some placed_def)
  show ?thesis
    by (auto simp: svc_on_cancel_def Find_eq [OF assms] Let_def id set_slot_def split: option.split prod.split)
qed

lemma svc_on_start_eq:
  assumes "v_calls v i = Some (Arriving n)" and "n_id n = i"
  shows "svc_on_start streaming i context v =
    (if retained v
     then let (k, st) = started i streaming (v_handler v)
              (CallState_new (Some (n_handles n)) context (n\<lparr>n_handles := Suc (n_handles n)\<rparr>)) in
       set_slot i (Kept True k) ((counted v)\<lparr>v_started := v_started v @ st\<rparr>)
     else counted v)"
  using assms
  by (auto simp: svc_on_start_def retain_stream_eq CallState_new_def tc_id_def TypedCallState_new_def ServerCall_id_def
      started_def start_handler_def set_slot_def Let_def)

subsection \<open>Laws of a call\<close>

text \<open>What the event loop does to a native call beside the callbacks, and a handle taken and given back.\<close>

definition loop_effect :: "'cb itself \<Rightarrow> (native \<Rightarrow> native) \<Rightarrow> bool" where
  "loop_effect T f \<longleftrightarrow>
     (\<exists>a :: 'cb tstep. f = native_step a) \<or> (\<exists>action. f = pause_if action) \<or> f = bookkeep \<or>
     f = n_writable_due_update (\<lambda>_. False) \<or> f = n_cancel_due_update (\<lambda>_. False) \<or>
     f = n_terminal_due_update (\<lambda>_. None)"

text \<open>
  A law of one call: of the starts of its handler, of whether its start and the end of its requests were
  reported, and of its state. \<open>lossy\<close> allows that a call cannot be retained, \<open>absent\<close> that there is no
  handler. What every step of a call keeps holds of all calls in every history.
\<close>

definition call_view ::
  "nat \<Rightarrow> ('cb, 'req) history \<Rightarrow> ('cb, 'req) slot option \<times> (nat \<times> ServerContext \<times> 'req option) list \<times> bool \<times> bool" where
  "call_view i h = (v_calls (h_impl h) i, starts i (h_impl h), h_begun h i, h_ended h i)"

definition all_calls ::
  "(nat \<Rightarrow> (nat \<times> ServerContext \<times> 'req option) list \<Rightarrow> bool \<Rightarrow> bool \<Rightarrow> ('cb, 'req) slot \<Rightarrow> bool) \<Rightarrow>
   ('cb, 'req) history \<Rightarrow> bool" where
  "all_calls P h \<longleftrightarrow>
     (\<forall>i. case v_calls (h_impl h) i of
            None \<Rightarrow> starts i (h_impl h) = [] \<and> \<not> h_begun h i \<and> \<not> h_ended h i
          | Some sl \<Rightarrow> P i (starts i (h_impl h)) (h_begun h i) (h_ended h i) sl)"

text \<open>The callbacks that look the call up.\<close>

definition looked_up :: "('cb, 'req) Impl \<Rightarrow> ('cb, 'req) slot \<Rightarrow> ('cb, 'req) CallState option" where
  "looked_up v sl = (if retained v then as_mapped (slot_with (bookkeep (slot_native sl)) sl) else None)"

text \<open>What the histories are assumed to be like.\<close>

definition environment :: "bool \<Rightarrow> bool \<Rightarrow> ('cb, 'req) history \<Rightarrow> bool" where
  "environment lossy absent h \<longleftrightarrow>
     (lossy \<or> (\<forall>n. Error_ok (v_retain (h_impl h) n))) \<and>
     (absent \<or> v_handler (h_impl h) \<or> (\<forall>i. v_calls (h_impl h) i = None))"

locale service_law =
  fixes streaming :: bool and parse :: "string \<Rightarrow> 'req option" and lossy :: bool and absent :: bool
    and P :: "nat \<Rightarrow> (nat \<times> ServerContext \<times> 'req option) list \<Rightarrow> bool \<Rightarrow> bool \<Rightarrow> ('cb, 'req) slot \<Rightarrow> bool"
  assumes placed: "P i st b e sl \<Longrightarrow> placed i b sl"
    and arrive: "P i [] False False (Arriving (startStreaming i r False True))"
    and loop: "P i st b e sl \<Longrightarrow> loop_effect TYPE('cb) f \<Longrightarrow> P i st b e (slot_with (f (slot_native sl)) sl)"
    and start: "P i st False e (Arriving n) \<Longrightarrow> handler \<or> absent \<Longrightarrow>
      started i streaming handler
        (CallState_new (Some (n_handles n)) context (n\<lparr>n_handles := Suc (n_handles n)\<rparr>)) = (k, st') \<Longrightarrow>
      P i (st @ st') True e (Kept True k)"
    and start_lost: "lossy \<Longrightarrow> P i st False e (Arriving n) \<Longrightarrow> P i st True e (Arriving n)"
    and message: "P i st True False (Kept True k) \<Longrightarrow>
      P i st True False (Kept True (snd (cs_OnMessage streaming parse payload (deliver_to payload k))))"
    and remote_end: "P i st True False (Kept True k) \<Longrightarrow> handler \<or> absent \<Longrightarrow>
      remote_ended i streaming handler k = (k', st') \<Longrightarrow> P i (st @ st') True True (Kept True k')"
    and remote_lost: "lossy \<or> as_mapped sl = None \<Longrightarrow> receiving (slot_native sl) \<Longrightarrow> P i st True False sl \<Longrightarrow>
      P i st True True sl"
    and writable: "P i st True e (Kept True k) \<Longrightarrow> P i st True e (Kept True (k\<lparr>k_core := snd (tc_OnWritable (k_core k))\<rparr>))"
    and cancel: "P i st True e (Kept True k) \<Longrightarrow>
      P i st True e (Kept True (k\<lparr>k_core := snd (tc_OnCancel (if streaming then rs_OnCancel (k_core k) else k_core k))\<rparr>))"
    and terminal: "P i st True e (Kept True k) \<Longrightarrow> n_terminal_due (s_native (k_core k)) = Some reason \<Longrightarrow>
      s = (k_core k)\<lparr>s_native := (s_native (k_core k))\<lparr>n_terminal_due := None\<rparr>\<rparr> \<Longrightarrow>
      P i st True e (Kept False (k\<lparr>k_core := snd (tc_OnTerminal reason (if streaming then rs_OnTerminal s else s))\<rparr>))"
    and use_step: "P i st b e (Kept c k) \<Longrightarrow> st \<noteq> [] \<Longrightarrow> is_operation a \<Longrightarrow>
      P i st b e (Kept c (k\<lparr>k_core := fst (tc_step a (k_core k))\<rparr>))"
    and take_step: "P i st b e (Kept c k) \<Longrightarrow> st \<noteq> [] \<Longrightarrow> P i st b e (Kept c (k\<lparr>k_core := take_request (k_core k)\<rparr>))"
begin

lemma all_calls_local:
  assumes h: "all_calls P h"
    and rest: "\<And>j. j \<noteq> i \<Longrightarrow> call_view j h' = call_view j h"
    and new: "v_calls (h_impl h') i = Some sl" "P i (starts i (h_impl h')) (h_begun h' i) (h_ended h' i) sl"
  shows "all_calls P h'"
  unfolding all_calls_def
proof (intro allI)
  fix j
  show "case v_calls (h_impl h') j of
      None \<Rightarrow> starts j (h_impl h') = [] \<and> \<not> h_begun h' j \<and> \<not> h_ended h' j
    | Some sl \<Rightarrow> P j (starts j (h_impl h')) (h_begun h' j) (h_ended h' j) sl"
  proof (cases "j = i")
    case False
    have "case v_calls (h_impl h) j of
        None \<Rightarrow> starts j (h_impl h) = [] \<and> \<not> h_begun h j \<and> \<not> h_ended h j
      | Some sl \<Rightarrow> P j (starts j (h_impl h)) (h_begun h j) (h_ended h j) sl"
      using h unfolding all_calls_def by blast
    then show ?thesis using rest [OF False] by (simp add: call_view_def split: option.splits)
  qed (use new in simp)
qed

lemma known:
  assumes "all_calls P h" and "v_calls (h_impl h) i = Some sl"
  shows "P i (starts i (h_impl h)) (h_begun h i) (h_ended h i) sl" and "placed i (h_begun h i) sl"
proof -
  show "P i (starts i (h_impl h)) (h_begun h i) (h_ended h i) sl"
    using assms unfolding all_calls_def by (metis option.simps(5))
  then show "placed i (h_begun h i) sl" by (rule placed)
qed

lemma at_native_holds:
  assumes h: "all_calls P h" and f: "loop_effect TYPE('cb) f"
  shows "all_calls P (h\<lparr>h_impl := at_native i f (h_impl h)\<rparr>)"
proof (cases "v_calls (h_impl h) i")
  case None
  then show ?thesis using h by (simp add: at_native_def)
next
  case (Some sl)
  show ?thesis
  proof (rule all_calls_local [OF h, of i])
    show "P i (starts i (h_impl (h\<lparr>h_impl := at_native i f (h_impl h)\<rparr>))) (h_begun (h\<lparr>h_impl := at_native i f (h_impl h)\<rparr>) i)
        (h_ended (h\<lparr>h_impl := at_native i f (h_impl h)\<rparr>) i) (slot_with (f (slot_native sl)) sl)"
      using loop [OF known(1) [OF h Some] f] Some by (simp add: at_native_def starts_def)
  qed (use Some in \<open>simp_all add: at_native_def call_view_def starts_def\<close>)
qed

text \<open>A callback on call \<open>i\<close> that found the state \<open>k\<close>, or did not find one.\<close>

lemma found_holds:
  assumes h: "all_calls P h"
    and eff: "h_impl h' = set_slot i (Kept c k') (v\<lparr>v_started := v_started (h_impl h) @ st, v_ran := rs\<rparr>)"
    and v: "v_calls v = v_calls (h_impl h)" and st: "\<forall>x \<in> set st. fst x = i"
    and loop_state: "\<And>j. j \<noteq> i \<Longrightarrow> h_begun h' j = h_begun h j \<and> h_ended h' j = h_ended h j"
    and new: "P i (starts i (h_impl h) @ st) (h_begun h' i) (h_ended h' i) (Kept c k')"
  shows "all_calls P h'"
proof (rule all_calls_local [OF h, of i])
  have own: "filter (\<lambda>(j, _). j = i) st = st" using st by (auto simp: filter_id_conv)
  have other: "filter (\<lambda>(j, _). j = j') st = []" if "j' \<noteq> i" for j'
    using st that by (auto simp: filter_empty_conv)
  show "v_calls (h_impl h') i = Some (Kept c k')" by (simp add: eff)
  show "P i (starts i (h_impl h')) (h_begun h' i) (h_ended h' i) (Kept c k')"
    using new own by (simp add: eff starts_def)
  show "call_view j h' = call_view j h" if "j \<noteq> i" for j
    using that loop_state [OF that] other [OF that] by (simp add: call_view_def eff v starts_def)
qed

lemma lost_holds:
  assumes h: "all_calls P h" and sl: "v_calls (h_impl h) i = Some sl"
    and eff: "h_impl h' = (if retained (h_impl h) then set_slot i (slot_with (bookkeep (slot_native sl)) sl) (counted (h_impl h))
      else counted (h_impl h))"
    and same: "h_begun h' = h_begun h" "h_ended h' = h_ended h"
  shows "all_calls P h'"
proof (rule all_calls_local [OF h, of i])
  let ?sl = "if retained (h_impl h) then slot_with (bookkeep (slot_native sl)) sl else sl"
  show "v_calls (h_impl h') i = Some ?sl" by (simp add: eff sl)
  show "P i (starts i (h_impl h')) (h_begun h' i) (h_ended h' i) ?sl"
    using known(1) [OF h sl] loop [OF known(1) [OF h sl], of bookkeep] by (simp add: eff same starts_def loop_effect_def)
  show "call_view j h' = call_view j h" if "j \<noteq> i" for j
    using that by (simp add: call_view_def eff same starts_def)
qed

lemma begun_at:
  assumes "all_calls P h" and "h_begun h i"
  obtains sl where "v_calls (h_impl h) i = Some sl"
  using assms unfolding all_calls_def by (metis (mono_tags, lifting) not_None_eq option.simps(4))

lemma starts_own:
  "started i streaming handler k = (k', st) \<Longrightarrow> \<forall>x \<in> set st. fst x = i"
  "remote_ended i streaming handler k = (k', st) \<Longrightarrow> \<forall>x \<in> set st. fst x = i"
  by (auto simp: started_def remote_ended_def split: if_splits prod.splits option.splits)

lemma bookkept:
  assumes "P i st b e sl" and "as_mapped (slot_with (bookkeep (slot_native sl)) sl) = Some k"
  shows "P i st b e (Kept True k)"
proof -
  have "slot_with (bookkeep (slot_native sl)) sl = Kept True k" using assms(2) by (auto simp: as_mapped_Some)
  then show ?thesis using loop [OF assms(1), of bookkeep] by (simp add: loop_effect_def)
qed

lemma arrive_holds: "all_calls P h \<Longrightarrow> all_calls P (svc_step streaming parse (Z_arrive i r) h)"
proof (cases "v_calls (h_impl h) i = None \<and> (v_registered (h_impl h) \<or> v_registering (h_impl h))")
  case True
  assume h: "all_calls P h"
  have "starts i (h_impl h) = [] \<and> \<not> h_begun h i \<and> \<not> h_ended h i"
    using h True unfolding all_calls_def by (metis option.simps(4))
  then show ?thesis
    using True arrive by (intro all_calls_local [OF h, of i]) (simp_all add: call_view_def starts_def Let_def)
qed (auto simp: Let_def)

lemma start_holds:
  assumes h: "all_calls P h" and env: "environment lossy absent h"
  shows "all_calls P (svc_step streaming parse (Z_start i context) h)"
proof (cases "v_calls (h_impl h) i \<noteq> None \<and> \<not> h_begun h i")
  case True
  then obtain sl where sl: "v_calls (h_impl h) i = Some sl" by auto
  note P = known [OF h sl]
  from P(2) obtain n where n: "sl = Arriving n" "n_id n = i" using True by (cases sl) (auto simp: placed_def)
  let ?v = "h_impl h" and ?k = "CallState_new (Some (n_handles n)) context (n\<lparr>n_handles := Suc (n_handles n)\<rparr>) :: ('cb, 'req) CallState"
  note eq = svc_on_start_eq [of ?v i n streaming "context", OF sl [unfolded n(1)] n(2)]
  show ?thesis
  proof (cases "retained ?v")
    case r: True
    obtain k st where k: "started i streaming (v_handler ?v) ?k = (k, st)" by fastforce
    have "v_handler ?v \<or> absent" using env sl by (auto simp: environment_def)
    then have "P i (starts i ?v @ st) True (h_ended h i) (Kept True k)"
      using P(1) n True by (intro start [OF _ _ k]) simp_all
    then show ?thesis using True r k sl
      by (intro found_holds [OF h, where i = i and st = st and v = "counted ?v" and rs = "v_ran ?v" and c = True and k' = k])
        (auto simp: eq dest: starts_own(1))
  next
    case r: False
    then have "lossy" using env by (auto simp: environment_def retained_def)
    then have "P i (starts i ?v) True (h_ended h i) sl" using start_lost P(1) n True by simp
    then show ?thesis using True r sl
      by (intro all_calls_local [OF h, of i _ sl]) (simp_all add: eq call_view_def starts_def)
  qed
qed (simp only: svc_step.simps if_False h)

lemma looked_up_P: "P i st b e sl \<Longrightarrow> looked_up v sl = Some k \<Longrightarrow> P i st b e (Kept True k)"
  by (auto simp: looked_up_def intro: bookkept split: if_splits)

lemma message_holds:
  assumes h: "all_calls P h"
  shows "all_calls P (svc_step streaming parse (Z_message i context payload compression) h)"
proof (cases "reception i h")
  case True
  then have b: "h_begun h i" "\<not> h_ended h i" by (auto simp: reception_def)
  obtain sl where sl: "v_calls (h_impl h) i = Some sl" using begun_at [OF h b(1)] .
  note P = known [OF h sl]
  note eq = svc_on_message_eq [OF sl P(2), folded looked_up_def]
  obtain action v where v: "svc_on_message streaming parse i context payload compression (h_impl h) = (action, v)" by fastforce
  have "all_calls P (h\<lparr>h_impl := v\<rparr>)"
  proof (cases "looked_up (h_impl h) sl")
    case None
    then show ?thesis using v eq [of streaming parse "context" payload compression]
      by (intro lost_holds [OF h sl]) (simp_all split: if_splits)
  next
    case (Some k)
    let ?k = "snd (cs_OnMessage streaming parse payload (deliver_to payload k))"
    have "P i (starts i (h_impl h)) (h_begun h i) (h_ended h i) (Kept True ?k)"
      using message looked_up_P [OF P(1) Some] b by simp
    moreover have "v = set_slot i (Kept True ?k) (counted (h_impl h))"
      using v eq [of streaming parse "context" payload compression] Some by (auto split: prod.splits)
    ultimately show ?thesis
      by (intro found_holds [OF h, where i = i and st = "[]" and v = "counted (h_impl h)" and rs = "v_ran (h_impl h)"
          and c = True and k' = ?k]) simp_all
  qed
  then show ?thesis using True v at_native_holds [of "h\<lparr>h_impl := v\<rparr>" "pause_if action" i]
    by (auto simp: loop_effect_def)
qed (simp only: svc_step.simps if_False h)

lemma remote_end_holds:
  assumes h: "all_calls P h" and env: "environment lossy absent h"
  shows "all_calls P (svc_step streaming parse (Z_remote_end i context) h)"
proof (cases "reception i h")
  case True
  then have b: "h_begun h i" "\<not> h_ended h i" by (auto simp: reception_def)
  obtain sl where sl: "v_calls (h_impl h) i = Some sl" using begun_at [OF h b(1)] .
  note P = known [OF h sl]
  note eq = svc_on_remote_end_eq [OF sl P(2), folded looked_up_def]
  show ?thesis
  proof (cases "looked_up (h_impl h) sl")
    case None
    let ?sl = "if retained (h_impl h) then slot_with (bookkeep (slot_native sl)) sl else sl"
    have "P i (starts i (h_impl h)) True False ?sl"
      using P(1) b loop [OF P(1), of bookkeep] by (simp add: loop_effect_def)
    moreover have "lossy \<or> as_mapped ?sl = None"
      using None env by (auto simp: looked_up_def environment_def retained_def split: if_splits)
    moreover have "receiving (slot_native ?sl)"
      using True sl by (simp add: reception_def native_at_def receiving_def bookkeep_def)
    ultimately have "P i (starts i (h_impl h)) True True ?sl" by (intro remote_lost)
    then show ?thesis using True None sl b
      by (intro all_calls_local [OF h, of i _ ?sl]) (auto simp: eq call_view_def starts_def split: if_splits)
  next
    case (Some k)
    obtain k' st where k': "remote_ended i streaming (v_handler (h_impl h)) k = (k', st)" by fastforce
    have "v_handler (h_impl h) \<or> absent" using env sl by (auto simp: environment_def)
    then have "P i (starts i (h_impl h) @ st) True True (Kept True k')"
      using looked_up_P [OF P(1) Some] b by (intro remote_end [OF _ _ k']) simp_all
    then show ?thesis using True Some k' b
      by (intro found_holds [OF h, where i = i and st = st and v = "counted (h_impl h)" and rs = "v_ran (h_impl h)"
          and c = True and k' = k']) (auto simp: eq dest: starts_own(2))
  qed
qed (simp only: svc_step.simps if_False h)

lemma core_callback_holds:
  assumes h: "all_calls P h" and b: "h_begun h i" and sl: "v_calls (h_impl h) i = Some sl"
    and eff: "v' = (case looked_up (h_impl h) sl of
       None \<Rightarrow> if retained (h_impl h) then set_slot i (slot_with (bookkeep (slot_native sl)) sl) (counted (h_impl h))
              else counted (h_impl h)
     | Some k \<Rightarrow> set_slot i (Kept True (k\<lparr>k_core := g (k_core k)\<rparr>)) ((counted (h_impl h))\<lparr>v_ran := r (k_core k)\<rparr>))"
    and P: "\<And>k e. P i (starts i (h_impl h)) True e (Kept True k) \<Longrightarrow>
      P i (starts i (h_impl h)) True e (Kept True (k\<lparr>k_core := g (k_core k)\<rparr>))"
  shows "all_calls P (h\<lparr>h_impl := v'\<rparr>)"
proof (cases "looked_up (h_impl h) sl")
  case None
  then show ?thesis by (intro lost_holds [OF h sl]) (simp_all add: eff)
next
  case (Some k)
  have "P i (starts i (h_impl h)) True (h_ended h i) (Kept True (k\<lparr>k_core := g (k_core k)\<rparr>))"
    using P looked_up_P [OF known(1) [OF h sl] Some] b by simp
  then show ?thesis using Some b
    by (intro found_holds [OF h, where i = i and st = "[]" and v = "counted (h_impl h)" and rs = "r (k_core k)"
        and c = True and k' = "k\<lparr>k_core := g (k_core k)\<rparr>"]) (simp_all add: eff set_slot_def)
qed

lemma due_holds:
  assumes h: "all_calls P h" and b: "h_begun h i" and f: "loop_effect TYPE('cb) f"
    and sl: "v_calls (h_impl h) i = Some sl"
  shows "all_calls P (h\<lparr>h_impl := at_native i f (h_impl h)\<rparr>)"
    and "v_calls (at_native i f (h_impl h)) i = Some (slot_with (f (slot_native sl)) sl)"
    and "placed i True (slot_with (f (slot_native sl)) sl)"
proof -
  show h': "all_calls P (h\<lparr>h_impl := at_native i f (h_impl h)\<rparr>)" using at_native_holds [OF h f] .
  show s: "v_calls (at_native i f (h_impl h)) i = Some (slot_with (f (slot_native sl)) sl)"
    using sl by (simp add: at_native_def)
  show "placed i True (slot_with (f (slot_native sl)) sl)" using known(2) [OF h', of i] s b by simp
qed

lemma owed_callback_holds:
  assumes h: "all_calls P h" and b: "h_begun h i" and f: "loop_effect TYPE('cb) f"
    and eff: "\<And>v sl. v_calls v i = Some sl \<Longrightarrow> placed i True sl \<Longrightarrow>
      call v = (case looked_up v sl of
        None \<Rightarrow> if retained v then set_slot i (slot_with (bookkeep (slot_native sl)) sl) (counted v) else counted v
      | Some k \<Rightarrow> set_slot i (Kept True (k\<lparr>k_core := g (k_core k)\<rparr>)) ((counted v)\<lparr>v_ran := v_ran v @ r (k_core k)\<rparr>))"
    and P: "\<And>st k e. P i st True e (Kept True k) \<Longrightarrow> P i st True e (Kept True (k\<lparr>k_core := g (k_core k)\<rparr>))"
  shows "all_calls P (h\<lparr>h_impl := call (at_native i f (h_impl h))\<rparr>)"
proof -
  obtain sl where sl: "v_calls (h_impl h) i = Some sl" using begun_at [OF h b] .
  note due = due_holds [OF h b f sl]
  let ?v = "at_native i f (h_impl h)" and ?sl = "slot_with (f (slot_native sl)) sl"
  have "all_calls P ((h\<lparr>h_impl := ?v\<rparr>)\<lparr>h_impl := call ?v\<rparr>)"
    using b due(2) eff [OF due(2,3)] P
    by (intro core_callback_holds [OF due(1), where i = i and g = g and r = "\<lambda>s. v_ran ?v @ r s" and sl = ?sl])
      (simp_all split: option.split)
  then show ?thesis by simp
qed

lemma writable_holds:
  assumes h: "all_calls P h"
  shows "all_calls P (svc_step streaming parse (Z_writable i context) h)"
proof (cases "owes i n_writable_due h")
  case True
  then have b: "h_begun h i" by (simp add: owes_def)
  have "all_calls P (h\<lparr>h_impl := svc_on_writable i context (at_native i (n_writable_due_update (\<lambda>_. False)) (h_impl h))\<rparr>)"
    by (rule owed_callback_holds [OF h b, where g = "\<lambda>s. snd (tc_OnWritable s)" and r = "\<lambda>s. plain (fst (tc_OnWritable s))"])
      (simp_all add: loop_effect_def svc_on_writable_eq looked_up_def Let_def split_beta writable split: option.split)
  then show ?thesis using True by simp
qed (simp only: svc_step.simps if_False h)

lemma cancel_holds:
  assumes h: "all_calls P h"
  shows "all_calls P (svc_step streaming parse (Z_cancel i context) h)"
proof (cases "owes i n_cancel_due h")
  case True
  then have b: "h_begun h i" by (simp add: owes_def)
  let ?g = "\<lambda>s. tc_OnCancel (if streaming then rs_OnCancel s else s)"
  have "all_calls P (h\<lparr>h_impl := svc_on_cancel streaming i context (at_native i (n_cancel_due_update (\<lambda>_. False)) (h_impl h))\<rparr>)"
    by (rule owed_callback_holds [OF h b, where g = "\<lambda>s. snd (?g s)" and r = "\<lambda>s. plain (fst (?g s))"])
      (simp_all only: loop_effect_def svc_on_cancel_eq looked_up_def Let_def split_beta cancel refl simp_thms)
  then show ?thesis using True by simp
qed (simp only: svc_step.simps if_False h)

lemma terminal_holds:
  assumes h: "all_calls P h"
  shows "all_calls P (svc_step streaming parse (Z_terminal i) h)"
proof (cases "\<exists>reason. Option.bind (native_at i (h_impl h)) n_terminal_due = Some reason \<and> h_begun h i")
  case False
  then show ?thesis using h by (auto split: option.split)
next
  case True
  then obtain reason where reason: "Option.bind (native_at i (h_impl h)) n_terminal_due = Some reason" and b: "h_begun h i"
    by auto
  obtain sl where sl: "v_calls (h_impl h) i = Some sl" using begun_at [OF h b] .
  have due: "n_terminal_due (slot_native sl) = Some reason" using reason sl by (simp add: native_at_def)
  let ?v = "at_native i (n_terminal_due_update (\<lambda>_. None)) (h_impl h)"
  have "all_calls P (h\<lparr>h_impl := svc_on_terminal streaming i reason ?v\<rparr>)"
  proof (cases "as_mapped sl")
    case None
    then have "svc_on_terminal streaming i reason ?v = ?v" using sl
      by (cases sl) (auto simp: svc_on_terminal_def mapped_def at_native_def as_mapped_def split: bool.splits)
    then show ?thesis using at_native_holds [OF h, of "n_terminal_due_update (\<lambda>_. None)" i] by (simp add: loop_effect_def)
  next
    case (Some k)
    then have k: "sl = Kept True k" by (auto simp: as_mapped_def split: slot.splits bool.splits)
    let ?s = "(k_core k)\<lparr>s_native := (s_native (k_core k))\<lparr>n_terminal_due := None\<rparr>\<rparr>"
    let ?t = "tc_OnTerminal reason (if streaming then rs_OnTerminal ?s else ?s)"
    have "P i (starts i (h_impl h)) True (h_ended h i) (Kept True k)" using known(1) [OF h sl] b k by simp
    from terminal [OF this _ refl, of reason] due k
    have "P i (starts i (h_impl h)) True (h_ended h i) (Kept False (k\<lparr>k_core := snd ?t\<rparr>))" by simp
    moreover have "svc_on_terminal streaming i reason ?v =
        set_slot i (Kept False (k\<lparr>k_core := snd ?t\<rparr>)) ((h_impl h)\<lparr>v_ran := v_ran (h_impl h) @ reasoned (fst ?t)\<rparr>)"
      using sl k by (simp add: svc_on_terminal_def mapped_def at_native_def set_slot_def split_beta Let_def del: if_split)
    ultimately show ?thesis using b
      by (intro found_holds [OF h, where i = i and st = "[]" and v = "h_impl h" and rs = "v_ran (h_impl h) @ reasoned (fst ?t)"
            and c = False and k' = "k\<lparr>k_core := snd ?t\<rparr>"]) (simp_all del: if_split)
  qed
  then show ?thesis using reason b by simp
qed

lemma use_holds:
  assumes h: "all_calls P h"
  shows "all_calls P (svc_step streaming parse (Z_use i a) h)" and "all_calls P (svc_step streaming parse (Z_take i) h)"
proof -
  have st: "starts i (h_impl h) \<noteq> []" if "has_started i (h_impl h)"
    using that by (auto simp: has_started_def starts_def list_ex_iff filter_empty_conv)
  show "all_calls P (svc_step streaming parse (Z_use i a) h)"
  proof (cases "\<exists>c k. v_calls (h_impl h) i = Some (Kept c k) \<and> is_operation a \<and> has_started i (h_impl h)")
    case True
    then obtain c k where k: "v_calls (h_impl h) i = Some (Kept c k)" "is_operation a" "has_started i (h_impl h)" by auto
    from use_step [OF known(1) [OF h k(1)] st [OF k(3)] k(2)] show ?thesis using k
      by (intro all_calls_local [OF h, of i _ "Kept c (k\<lparr>k_core := fst (tc_step a (k_core k))\<rparr>)"])
        (auto simp: use_call_def split_beta starts_def call_view_def Let_def)
  qed (use h in \<open>auto simp: use_call_def split: option.splits slot.splits\<close>)
  show "all_calls P (svc_step streaming parse (Z_take i) h)"
  proof (cases "\<exists>c k. v_calls (h_impl h) i = Some (Kept c k) \<and> has_started i (h_impl h)")
    case True
    then obtain c k where k: "v_calls (h_impl h) i = Some (Kept c k)" "has_started i (h_impl h)" by auto
    from take_step [OF known(1) [OF h k(1)] st [OF k(2)]] show ?thesis using k
      by (intro all_calls_local [OF h, of i _ "Kept c (k\<lparr>k_core := take_request (k_core k)\<rparr>)"])
        (auto simp: on_state_def starts_def call_view_def)
  qed (use h in \<open>auto simp: on_state_def split: option.splits slot.splits\<close>)
qed

lemma registration_holds:
  assumes h: "all_calls P h"
  shows "all_calls P (svc_step streaming parse (Z_begin b) h)" "all_calls P (svc_step streaming parse (Z_end e) h)"
    "all_calls P (svc_step streaming parse Z_disable h)"
proof -
  have same: "all_calls P (h\<lparr>h_impl := v\<rparr>)" if "v_calls v = v_calls (h_impl h)" "v_started v = v_started (h_impl h)" for v
    using h that by (simp add: all_calls_def starts_def cong: option.case_cong)
  show "all_calls P (svc_step streaming parse (Z_begin b) h)" "all_calls P (svc_step streaming parse Z_disable h)"
    using same by (simp_all add: Register_begin_def Impl_Disable_def)
  show "all_calls P (svc_step streaming parse (Z_end e) h)" using same h by (auto simp: Register_end_def)
qed

lemma step_holds:
  "all_calls P h \<Longrightarrow> environment lossy absent h \<Longrightarrow> all_calls P (svc_step streaming parse z h)"
proof (cases z)
  case (Z_loop i a)
  assume h: "all_calls P h"
  show ?thesis unfolding Z_loop svc_step.simps
    by (rule at_native_holds [OF h]) (auto simp: loop_effect_def)
qed (simp_all only: arrive_holds start_holds message_holds remote_end_holds writable_holds cancel_holds terminal_holds
    use_holds registration_holds)

end

text \<open>What the callbacks leave alone.\<close>

definition configuration :: "('cb, 'req) Impl \<Rightarrow> bool \<times> (nat \<Rightarrow> ErrorCode) \<times> bool \<times> bool" where
  "configuration v = (v_handler v, v_retain v, v_registered v, v_registering v)"

lemma configuration_simps [simp]:
  "configuration (set_slot i sl v) = configuration v" "configuration (counted v) = configuration v"
  "configuration (v\<lparr>v_started := st\<rparr>) = configuration v" "configuration (v\<lparr>v_ran := rs\<rparr>) = configuration v"
  "configuration (v\<lparr>v_retains := n\<rparr>) = configuration v"
  by (simp_all add: configuration_def)

lemma find_configuration [simp]:
  "configuration (snd (retain_stream i v)) = configuration v" "configuration (drop_call i c v) = configuration v"
  "configuration (at_native i f v) = configuration v" "configuration (start_handler i k r v) = configuration v"
  by (simp_all add: retain_stream_def drop_call_def at_native_def start_handler_def split_beta Let_def split: option.split)

lemma Find_configuration [simp]: "configuration (snd (Find i v)) = configuration v"
  by (simp add: Find_def split_beta Let_def split: option.split)

lemma callback_configuration [simp]:
  "configuration (svc_on_start streaming i c v) = configuration v"
  "configuration (snd (svc_on_message streaming parse i c payload compression v)) = configuration v"
  "configuration (svc_on_remote_end streaming i c v) = configuration v"
  "configuration (svc_on_writable i c v) = configuration v" "configuration (svc_on_cancel streaming i c v) = configuration v"
  "configuration (svc_on_terminal streaming i reason v) = configuration v" "configuration (use_call i a v) = configuration v"
  "configuration (on_state i f v) = configuration v"
  by (simp_all add: svc_on_start_def svc_on_message_def svc_on_remote_end_def svc_on_writable_def svc_on_cancel_def
      svc_on_terminal_def use_call_def on_state_def split_beta Let_def split: option.split slot.split)

text \<open>
  In a calm history the handler given at the registration stays: it is not empty, the registration does
  not fail and the object is not disabled.
\<close>

fun calm :: "'cb occurrence \<Rightarrow> bool" where
  "calm Z_disable = False"
| "calm (Z_begin handler) = handler"
| "calm (Z_end error) = Error_ok error"
| "calm _ = True"

definition provided :: "bool \<Rightarrow> bool \<Rightarrow> ('cb, 'req) history \<Rightarrow> bool" where
  "provided lossy absent h \<longleftrightarrow>
     (case configuration (h_impl h) of (handler, retain, done, busy) \<Rightarrow>
        (lossy \<or> (\<forall>n. Error_ok (retain n))) \<and>
        (absent \<or> handler \<or> (\<not> done \<and> \<not> busy \<and> (\<forall>i. v_calls (h_impl h) i = None))))"

lemma provided_environment: "provided lossy absent h \<Longrightarrow> environment lossy absent h"
  by (auto simp: provided_def environment_def configuration_def)

lemma no_calls_step:
  assumes "\<forall>i. v_calls (h_impl h) i = None" "\<not> v_registered (h_impl h)" "\<not> v_registering (h_impl h)"
  shows "\<forall>i. v_calls (h_impl (svc_step streaming parse z h)) i = None"
  using assms
  by (cases z) (auto simp: reception_def owes_def native_at_def at_native_def use_call_def on_state_def Register_begin_def
      Register_end_def Impl_Disable_def)

lemma provided_step:
  assumes "provided lossy absent h" and "absent \<or> calm z"
  shows "provided lossy absent (svc_step streaming parse z h)"
proof -
  have "configuration (h_impl (svc_step streaming parse z h)) =
      (case z of Z_begin b \<Rightarrow> configuration (snd (Register_begin b (h_impl h)))
       | Z_end e \<Rightarrow> if v_registering (h_impl h) then configuration (Register_end e (h_impl h)) else configuration (h_impl h)
       | Z_disable \<Rightarrow> configuration (Impl_Disable (h_impl h)) | _ \<Rightarrow> configuration (h_impl h))"
    by (cases z) (simp_all add: Let_def split_beta split: option.split)
  moreover have "\<forall>i. v_calls (h_impl (svc_step streaming parse z h)) i = None"
    if "\<forall>i. v_calls (h_impl h) i = None" "\<not> v_registered (h_impl h)" "\<not> v_registering (h_impl h)"
    using no_calls_step [OF that] .
  ultimately show ?thesis using assms
    by (cases z) (auto simp: provided_def configuration_def Register_begin_def Register_end_def Impl_Disable_def)
qed

context service_law
begin

lemma run_holds:
  "all_calls P h \<Longrightarrow> provided lossy absent h \<Longrightarrow> absent \<or> list_all calm zs \<Longrightarrow>
   all_calls P (svc_run streaming parse zs h) \<and> provided lossy absent (svc_run streaming parse zs h)"
proof (induction zs arbitrary: h)
  case (Cons z zs)
  then have c: "absent \<or> calm z" "absent \<or> list_all calm zs" by auto
  have "all_calls P (svc_step streaming parse z h)"
    using step_holds [OF Cons.prems(1) provided_environment [OF Cons.prems(2)]] .
  then show ?case using Cons.IH [OF _ provided_step [OF Cons.prems(2) c(1)] c(2)] by (simp add: svc_run_def)
qed (simp add: svc_run_def)

lemma history_holds:
  assumes "lossy \<or> (\<forall>n. Error_ok (retain n))" and "absent \<or> list_all calm zs"
    and "v_calls (h_impl (svc_run streaming parse zs (history_start retain))) i = Some sl"
  shows "P i (starts i (h_impl (svc_run streaming parse zs (history_start retain))))
    (h_begun (svc_run streaming parse zs (history_start retain)) i)
    (h_ended (svc_run streaming parse zs (history_start retain)) i) sl"
proof -
  have "all_calls P (history_start retain)" "provided lossy absent (history_start retain :: ('cb, 'req) history)"
    using assms(1) by (auto simp: all_calls_def history_start_def Impl_new_def starts_def provided_def configuration_def)
  with run_holds assms(2) have "all_calls P (svc_run streaming parse zs (history_start retain))" by blast
  then show ?thesis using known(1) assms(3) by blast
qed

end

end
