(* ===== verification/Service_Properties.thy ===== *)
theory Service_Properties
  imports Typed_Service
begin

section \<open>Properties of typed services\<close>

text \<open>
  What holds of every call of a registered method, in every history of its callbacks, its application
  threads and the event loop: its handles are balanced, its commands follow the response protocol, and
  its handler is dispatched once, with the request its messages amount to. Each is an interpretation
  of the laws of a call.
\<close>

subsection \<open>Handles\<close>

text \<open>The identity of a call, its handles, and which of them its object holds.\<close>

definition native_ident :: "native \<Rightarrow> nat \<times> nat \<times> nat list" where
  "native_ident n = (n_id n, n_handles n, n_released n)"

definition core_ident :: "('cb, 'z) tstate_scheme \<Rightarrow> (nat \<times> nat \<times> nat list) \<times> ServerCall" where
  "core_ident s = (native_ident (s_native s), y_call (s_typed s))"

lemma native_ident_simps [simp]:
  "native_ident (native_step a n) = native_ident n" "native_ident (pause_if action n) = native_ident n"
  "native_ident (n\<lparr>n_writable_due := b\<rparr>) = native_ident n" "native_ident (n\<lparr>n_cancel_due := b\<rparr>) = native_ident n"
  "native_ident (n\<lparr>n_terminal_due := t\<rparr>) = native_ident n"
  "native_ident (n_record k e n) = native_ident n" "native_ident (n\<lparr>n_headers_queued := b\<rparr>) = native_ident n"
  "native_ident (n\<lparr>n_finish_queued := b\<rparr>) = native_ident n" "native_ident (n\<lparr>n_resuming := b\<rparr>) = native_ident n"
  "native_ident (n\<lparr>n_writable_requested := b\<rparr>) = native_ident n"
  by (cases a; simp add: native_ident_def reactor_defs pause_if_def)+

lemma command_ident [simp]:
  "core_ident (snd (tc_SendInitialMetadata m c s)) = core_ident s" "core_ident (snd (tc_Send p c s)) = core_ident s"
  "core_ident (snd (tc_Finish st m s)) = core_ident s" "core_ident (snd (tc_ResumeReceive s)) = core_ident s"
  "core_ident (snd (SetOnWritable cb s)) = core_ident s" "core_ident (snd (SetOnCancel cb s)) = core_ident s"
  "core_ident (snd (SetOnTerminal cb s)) = core_ident s" "core_ident (snd (tc_OnWritable s)) = core_ident s"
  "core_ident (snd (tc_OnCancel s)) = core_ident s"
  by (simp_all add: core_ident_def typed_defs server_command_defs Let_def split_beta split: option.split)

lemma operation_ident: "is_operation a \<Longrightarrow> core_ident (fst (tc_step a s)) = core_ident s"
  by (cases a) (simp_all add: Let_def split_beta)

lemma stream_ident [simp]:
  "core_ident (rs_OnRemoteEnd s) = core_ident s" "core_ident (rs_OnCancel s) = core_ident s"
  "core_ident (rs_OnTerminal s) = core_ident s" "core_ident (take_request s) = core_ident s"
  "core_ident (s\<lparr>s_delivered := d\<rparr>) = core_ident s" "core_ident (s\<lparr>s_stream := q\<rparr>) = core_ident s"
  by (simp_all add: core_ident_def rs_OnRemoteEnd_def rs_OnCancel_def rs_OnTerminal_def take_request_def)

lemma message_ident [simp]:
  "core_ident (fst (snd (reject c m s))) = core_ident s"
  "core_ident (fst (snd (rs_OnMessage parse p s))) = core_ident s"
  by (simp_all add: reject_def rs_OnMessage_def Let_def split_beta split: option.split)

lemma state_ident [simp]:
  "core_ident (k_core (finish_with c m k)) = core_ident (k_core k)"
  "core_ident (k_core (snd (cs_OnMessage streaming parse p k))) = core_ident (k_core k)"
  "core_ident (k_core (snd (TakeRequest k))) = core_ident (k_core k)"
  "core_ident (k_core (deliver_to p k)) = core_ident (k_core k)"
  by (simp_all add: finish_with_def cs_OnMessage_def TakeRequest_def deliver_to_def Let_def split_beta split: option.split)

lemma take_ident:
  "TakeRequest k = (r, k') \<Longrightarrow> core_ident (k_core k') = core_ident (k_core k) \<and> k_call_id k' = k_call_id k"
  using state_ident(3) [of k] call_id_frame(4) [of k] by simp

lemma started_ident:
  "started i streaming handler k = (k', st) \<Longrightarrow> core_ident (k_core k') = core_ident (k_core k) \<and> k_call_id k' = k_call_id k"
  "remote_ended i streaming handler k = (k', st) \<Longrightarrow> core_ident (k_core k') = core_ident (k_core k) \<and> k_call_id k' = k_call_id k"
  by (auto simp: started_def remote_ended_def split: if_splits prod.splits option.splits dest: take_ident)

text \<open>
  Every handle that was given out is given back once or held: the object of a call in the map holds
  one, from its start until its terminal callback.
\<close>

definition slot_call :: "('cb, 'req) slot \<Rightarrow> ServerCall" where
  "slot_call sl = (case sl of Arriving _ \<Rightarrow> None | Kept _ k \<Rightarrow> y_call (s_typed (k_core k)))"

definition balanced :: "nat \<times> nat \<times> nat list \<Rightarrow> ServerCall \<Rightarrow> bool" where
  "balanced = (\<lambda>(i, handles, released) c0.
     distinct (option_list c0 @ released) \<and> set (option_list c0 @ released) = {..<handles})"

definition in_balance :: "nat \<Rightarrow> 'st \<Rightarrow> bool \<Rightarrow> bool \<Rightarrow> ('cb, 'req) slot \<Rightarrow> bool" where
  "in_balance i st begun ended sl \<longleftrightarrow>
     placed i begun sl \<and> balanced (native_ident (slot_native sl)) (slot_call sl) \<and>
     (slot_call sl \<noteq> None \<longleftrightarrow> as_mapped sl \<noteq> None)"

lemma in_balance_Kept:
  "in_balance i st b e (Kept c k) \<longleftrightarrow>
     b \<and> k_call_id k = i \<and> fst (fst (core_ident (k_core k))) = i \<and>
     balanced (fst (core_ident (k_core k))) (snd (core_ident (k_core k))) \<and>
     (snd (core_ident (k_core k)) \<noteq> None \<longleftrightarrow> c)"
  by (auto simp: in_balance_def placed_def slot_call_def core_ident_def native_ident_def as_mapped_def
      split: bool.splits)

lemma in_balance_Arriving:
  "in_balance i st b e (Arriving n) \<longleftrightarrow> n_id n = i \<and> balanced (native_ident n) None"
  by (auto simp: in_balance_def placed_def slot_call_def as_mapped_def)

lemma balanced_bookkeep: "balanced (native_ident n) c0 \<Longrightarrow> balanced (native_ident (bookkeep n)) c0"
  by (auto simp: balanced_def native_ident_def bookkeep_def lessThan_Suc)

lemma in_balance_loop:
  assumes "in_balance i st b e sl" and "loop_effect TYPE('cb) f"
  shows "in_balance i st b e (slot_with (f (slot_native sl)) (sl :: ('cb, 'req) slot))"
proof -
  have "f = bookkeep \<or> (\<forall>n. native_ident (f n) = native_ident n)" using assms(2) by (auto simp: loop_effect_def)
  then have f: "n_id (f n) = n_id n" "balanced (native_ident n) c0 \<Longrightarrow> balanced (native_ident (f n)) c0" for n c0
    by (auto simp: balanced_bookkeep) (auto simp: bookkeep_def native_ident_def)
  show ?thesis using assms(1) f
    by (cases sl) (auto simp: in_balance_def placed_def slot_call_def as_mapped_def split: bool.splits)
qed

lemma balanced_new: "balanced (native_ident n) None \<Longrightarrow>
    balanced (native_ident (n\<lparr>n_handles := Suc (n_handles n)\<rparr>)) (Some (n_handles n))"
  by (simp add: balanced_def native_ident_def lessThan_Suc)

lemma balanced_terminal:
  "balanced (fst (core_ident s)) (snd (core_ident s)) \<Longrightarrow>
   balanced (fst (core_ident (snd (tc_OnTerminal r s)))) None \<and> snd (core_ident (snd (tc_OnTerminal r s))) = None \<and>
   fst (fst (core_ident (snd (tc_OnTerminal r s)))) = fst (fst (core_ident s))"
  by (cases "y_call (s_typed s)")
    (simp_all add: balanced_def core_ident_def native_ident_def tc_OnTerminal_def grpc_lite_server_call_destroy_def Let_def)

interpretation handle_balance: service_law streaming parse True True in_balance for streaming parse
proof (unfold_locales, goal_cases)
  case 1
  then show ?case by (simp add: in_balance_def)
next
  case (2 i r)
  then show ?case by (simp add: in_balance_Arriving startStreaming_def native_ident_def balanced_def)
next
  case (8 sl i st)
  then show ?case by (simp add: in_balance_def)
next
  case (3 i st b e sl f)
  then show ?case by (rule in_balance_loop)
next
  case (4 i st e n handler c k st')
  then have n: "n_id n = i" "balanced (native_ident n) None" by (simp_all add: in_balance_Arriving)
  have "core_ident (k_core (CallState_new (Some (n_handles n)) c (n\<lparr>n_handles := Suc (n_handles n)\<rparr>) :: ('b, 'a) CallState)) =
      (native_ident (n\<lparr>n_handles := Suc (n_handles n)\<rparr>), Some (n_handles n))"
    by (simp add: CallState_new_def core_ident_def TypedCallState_new_def Let_def)
  then show ?case using n started_ident(1) [OF 4(3)] balanced_new [OF n(2)]
    by (simp add: in_balance_Kept native_ident_def CallState_new_def tc_id_def ServerCall_id_def TypedCallState_new_def Let_def)
next
  case (7 i st k handler k' st')
  then show ?case using started_ident(2) [OF 7(3)] by (simp add: in_balance_Kept)
next
  case (11 i st e k reason s)
  let ?s = "if streaming then rs_OnTerminal s else s"
  have "core_ident ?s = core_ident (k_core k)" using 11(3) by (simp add: core_ident_def rs_OnTerminal_def)
  then show ?case using 11(1) balanced_terminal [of ?s reason] by (simp add: in_balance_Kept)
qed (simp_all add: in_balance_Kept in_balance_Arriving operation_ident)

subsection \<open>The response protocol\<close>

lemma in_protocol_simps [simp]:
  "in_protocol (snd (tc_OnWritable s)) = in_protocol s" "in_protocol (snd (tc_OnCancel s)) = in_protocol s"
  "in_protocol (snd (tc_OnTerminal r s)) = in_protocol s" "in_protocol (rs_OnRemoteEnd q) = in_protocol q"
  "in_protocol (rs_OnCancel q) = in_protocol q" "in_protocol (rs_OnTerminal q) = in_protocol q"
  "in_protocol (take_request q) = in_protocol q" "in_protocol (q\<lparr>s_delivered := d\<rparr>) = in_protocol q"
  "in_protocol (q\<lparr>s_stream := x\<rparr>) = in_protocol q"
  by (simp_all add: in_protocol_def call_phase_def typed_defs Let_def rs_OnRemoteEnd_def rs_OnCancel_def rs_OnTerminal_def
      take_request_def)

lemma in_protocol_native: "n_log n = n_log (s_native s) \<Longrightarrow> in_protocol (s\<lparr>s_native := n\<rparr>) = in_protocol s"
  by (simp add: in_protocol_def)

lemma in_protocol_message:
  assumes "in_protocol s"
  shows "in_protocol (fst (snd (reject c m s)))" "in_protocol (fst (snd (rs_OnMessage parse p s)))"
  using assms
  by (auto simp: reject_def rs_OnMessage_def Let_def split_beta intro!: protocol.operations split: option.split)

lemma in_protocol_state:
  assumes "in_protocol (k_core k)"
  shows "in_protocol (k_core (finish_with c m k))" "in_protocol (k_core (snd (TakeRequest k)))"
    "in_protocol (k_core (snd (cs_OnMessage streaming parse p (deliver_to q k))))"
  using assms
  by (auto simp: finish_with_def TakeRequest_def cs_OnMessage_def deliver_to_def Let_def split_beta
      intro!: protocol.operations in_protocol_message split: option.split)

lemma in_protocol_started:
  "started i streaming handler k = (k', st) \<Longrightarrow> in_protocol (k_core k) \<Longrightarrow> in_protocol (k_core k')"
  "remote_ended i streaming handler k = (k', st) \<Longrightarrow> in_protocol (k_core k) \<Longrightarrow> in_protocol (k_core k')"
  using in_protocol_state(2) [of k]
  by (auto simp: started_def remote_ended_def intro!: in_protocol_state split: if_splits prod.splits option.splits)

definition orderly_response :: "nat \<Rightarrow> 'st \<Rightarrow> bool \<Rightarrow> bool \<Rightarrow> ('cb, 'req) slot \<Rightarrow> bool" where
  "orderly_response i st begun ended sl \<longleftrightarrow>
     in_balance i st begun ended sl \<and> (case sl of Arriving n \<Rightarrow> n_log n = [] | Kept _ k \<Rightarrow> in_protocol (k_core k))"

lemma loop_log: "loop_effect TYPE('cb) f \<Longrightarrow> n_log (f n) = n_log n"
proof -
  have "n_log (native_step a n) = n_log n" for a :: "'cb tstep" by (cases a) simp_all
  then show "loop_effect TYPE('cb) f \<Longrightarrow> n_log (f n) = n_log n" by (auto simp: loop_effect_def pause_if_def bookkeep_def)
qed

interpretation response_protocol: service_law streaming parse True True orderly_response for streaming parse
proof (unfold_locales, goal_cases)
  case 1
  then show ?case by (simp add: orderly_response_def in_balance_def)
next
  case (2 i r)
  then show ?case using handle_balance.arrive by (simp add: orderly_response_def startStreaming_def)
next
  case (3 i st b e sl f)
  then show ?case using handle_balance.loop [of i st b e sl f] loop_log [OF 3(2)]
    by (cases sl) (simp_all add: orderly_response_def in_protocol_native)
next
  case (4 i st e n handler c k st')
  have "in_protocol (k_core (CallState_new (Some (n_handles n)) c (n\<lparr>n_handles := Suc (n_handles n)\<rparr>) :: ('b, 'a) CallState))"
    using 4(1) by (simp add: orderly_response_def CallState_new_def TypedCallState_new_def in_protocol_def call_phase_def Let_def)
  then show ?case using 4 handle_balance.start [OF _ 4(2,3)] in_protocol_started(1) [OF 4(3)] by (simp add: orderly_response_def)
next
  case (7 i st k handler k' st')
  then show ?case using handle_balance.remote_end [OF _ 7(2,3)] in_protocol_started(2) [OF 7(3)] by (simp add: orderly_response_def)
next
  case (10 i st e k)
  then show ?case using handle_balance.cancel [of i st e k streaming] by (simp add: orderly_response_def)
next
  case (11 i st e k reason s)
  then show ?case using handle_balance.terminal [OF _ 11(2,3), of i st e streaming]
    by (simp add: orderly_response_def in_protocol_native)
next
  case (12 i st b e c k a)
  then show ?case using handle_balance.use_step [OF _ 12(2,3)] by (simp add: orderly_response_def protocol.step)
qed (auto simp: orderly_response_def in_protocol_state
    intro: handle_balance.start_lost handle_balance.message handle_balance.remote_lost handle_balance.writable
      handle_balance.cancel handle_balance.take_step)

subsection \<open>The dispatch of calls with one request\<close>

text \<open>What the messages of a call, all of them at its end, amount to: a request or a status.\<close>

fun verdict :: "(string \<Rightarrow> 'req option) \<Rightarrow> string list \<Rightarrow> Status + 'req" where
  "verdict parse [] = Inl \<lparr>s_code = SC_InvalidArgument, s_message = ''request message is missing''\<rparr>"
| "verdict parse (p # ps) =
     (if INT_MAX < int (length p)
      then Inl \<lparr>s_code = SC_ResourceExhausted, s_message = ''request is too large to parse''\<rparr>
      else case parse p of
        None \<Rightarrow> Inl \<lparr>s_code = SC_InvalidArgument, s_message = ''failed to parse request''\<rparr>
      | Some r \<Rightarrow> if ps = [] then Inr r
                 else Inl \<lparr>s_code = SC_InvalidArgument, s_message = ''duplicate request message''\<rparr>)"

definition unavailable :: Status where
  "unavailable = \<lparr>s_code = SC_Unavailable, s_message = ''event service is unavailable''\<rparr>"

definition finishes :: "native \<Rightarrow> Status set" where
  "finishes n = {st. \<exists>t e. (S_finish st t, e) \<in> set (n_log n)}"

lemma verdict_append: "verdict parse ps = Inl st \<Longrightarrow> ps \<noteq> [] \<Longrightarrow> verdict parse (ps @ qs) = Inl st"
  by (cases ps) (auto split: if_splits option.splits)

lemma verdict_Inr: "verdict parse ps = Inr r \<longleftrightarrow> (\<exists>p. ps = [p] \<and> int (length p) \<le> INT_MAX \<and> parse p = Some r)"
  by (cases ps) (auto split: option.splits)

lemma finishes_initial: "finishes (snd (serverCallSendInitialMetadata es c n)) = finishes n"
  by (simp add: finishes_def serverCallSendInitialMetadata_def Let_def)

lemma finishes_finish: "finishes (snd (serverCallFinish st t n)) \<subseteq> insert st (finishes n)"
  by (auto simp: finishes_def serverCallFinish_def Let_def)

lemma finishes_Finish: "finishes (s_native (snd (tc_Finish st m s))) \<subseteq> insert st (finishes (s_native s))"
proof -
  let ?s = "snd (EnsureInitialMetadata Identity s)"
  have initial: "finishes (s_native ?s) = finishes (s_native s)"
    by (simp add: EnsureInitialMetadata_def mark_initial_def tc_command_def ServerCall_SendInitialMetadata_def
        finishes_initial Let_def split_beta)
  have "finishes (s_native (snd (tc_command (ServerCall_Finish st m) ?s))) \<subseteq> insert st (finishes (s_native ?s))"
    by (simp add: tc_command_def ServerCall_Finish_def finishes_finish subset_insertI Let_def split_beta)
  then show ?thesis using initial by (auto simp: tc_Finish_def Let_def split_beta)
qed

lemma finish_with_simps [simp]:
  "s_delivered (k_core (finish_with c m k)) = s_delivered (k_core k)" "k_request (finish_with c m k) = k_request k"
  "k_request_count (finish_with c m k) = k_request_count k" "k_rejected (finish_with c m k) = k_rejected k"
  "k_dispatched (finish_with c m k) = k_dispatched k"
  by (simp_all add: finish_with_def frame_simps)

lemma finish_with_finishes:
  "finishes (s_native (k_core (finish_with c m k))) \<subseteq> insert \<lparr>s_code = c, s_message = m\<rparr> (finishes (s_native (k_core k)))"
  using finishes_Finish by (simp add: finish_with_def)

text \<open>
  A call is open (no message, or the one request it may have), rejected with the status its messages
  deserve, or dispatched. Its handler starts when it is dispatched, and until then the only status it is
  finished with is that of the verdict, or that there is no handler.
\<close>

definition open_call :: "(string \<Rightarrow> 'req option) \<Rightarrow> ('cb, 'req) CallState \<Rightarrow> bool" where
  "open_call parse k \<longleftrightarrow>
     (let ps = s_delivered (k_core k) in
      \<not> k_rejected k \<and> \<not> k_dispatched k \<and> finishes (s_native (k_core k)) = {} \<and>
      (ps = [] \<and> k_request_count k = 0 \<and> k_request k = None \<or>
       (\<exists>r. verdict parse ps = Inr r \<and> k_request_count k = 1 \<and> k_request k = Some r)))"

definition rejected_call :: "(string \<Rightarrow> 'req option) \<Rightarrow> bool \<Rightarrow> ('cb, 'req) CallState \<Rightarrow> bool" where
  "rejected_call parse ended k \<longleftrightarrow>
     (let ps = s_delivered (k_core k) in
      k_rejected k \<and> \<not> k_dispatched k \<and> (ps = [] \<longrightarrow> ended) \<and>
      (\<exists>st. verdict parse ps = Inl st \<and> finishes (s_native (k_core k)) \<subseteq> {st}))"

definition dispatched_call ::
  "bool \<Rightarrow> (string \<Rightarrow> 'req option) \<Rightarrow> nat \<Rightarrow> (nat \<times> ServerContext \<times> 'req option) list \<Rightarrow> ('cb, 'req) CallState \<Rightarrow> bool" where
  "dispatched_call absent parse i st k \<longleftrightarrow>
     \<not> k_rejected k \<and> k_dispatched k \<and>
     (\<exists>r. verdict parse (s_delivered (k_core k)) = Inr r \<and>
        (st = [(i, k_context k, Some r)] \<or>
         absent \<and> st = [] \<and> finishes (s_native (k_core k)) \<subseteq> {unavailable}))"

definition ended_native :: "native \<Rightarrow> bool" where
  "ended_native n \<longleftrightarrow> n_terminal_due n = None \<or> \<not> n_active n"

definition dispatch_law ::
  "bool \<Rightarrow> bool \<Rightarrow> (string \<Rightarrow> 'req option) \<Rightarrow> nat \<Rightarrow> (nat \<times> ServerContext \<times> 'req option) list \<Rightarrow> bool \<Rightarrow> bool \<Rightarrow>
   ('cb, 'req) slot \<Rightarrow> bool" where
  "dispatch_law lossy absent parse i st begun ended sl \<longleftrightarrow>
     in_balance i st begun ended sl \<and> (ended \<longrightarrow> begun) \<and> ended_native (slot_native sl) \<and>
     (case sl of
        Arriving n \<Rightarrow> st = [] \<and> n_log n = [] \<and> (begun \<longrightarrow> lossy)
      | Kept c k \<Rightarrow>
          (\<not> c \<longrightarrow> \<not> n_active (s_native (k_core k))) \<and>
          (st = [] \<and> open_call parse k \<and> (ended \<longrightarrow> lossy) \<or> st = [] \<and> rejected_call parse ended k \<or>
           ended \<and> dispatched_call absent parse i st k))"

lemma step_ended:
  "ended_native n \<Longrightarrow> ended_native (native_step a n)" "n_active (native_step a n) \<Longrightarrow> n_active n"
  by (cases a; force simp: ended_native_def reactor_defs split: if_splits)+

lemma loop_effect_cases [consumes 1, case_names step pause handle writable cancel terminal]:
  assumes "loop_effect TYPE('cb) f"
  obtains a :: "'cb tstep" where "f = native_step a" | action where "f = pause_if action" | "f = bookkeep"
  | "f = n_writable_due_update (\<lambda>_. False)" | "f = n_cancel_due_update (\<lambda>_. False)" | "f = n_terminal_due_update (\<lambda>_. None)"
  using assms unfolding loop_effect_def by blast

lemma loop_ended:
  assumes "loop_effect TYPE('cb) f"
  shows "ended_native n \<Longrightarrow> ended_native (f n)" and "n_active (f n) \<Longrightarrow> n_active n"
proof -
  show "ended_native (f n)" if "ended_native n"
    using assms that by (cases rule: loop_effect_cases)
      (simp add: step_ended(1), auto simp: ended_native_def pause_if_def bookkeep_def)
  show "n_active n" if "n_active (f n)"
    using assms that by (cases rule: loop_effect_cases) (auto dest: step_ended(2) simp: pause_if_def bookkeep_def split: if_splits)
qed

text \<open>What the commands of a call and its callbacks leave alone of the native call.\<close>

definition native_end :: "('cb, 'z) tstate_scheme \<Rightarrow> ServerTerminalReason option \<times> bool" where
  "native_end s = (n_terminal_due (s_native s), n_active (s_native s))"

lemma command_end [simp]:
  "native_end (snd (tc_SendInitialMetadata m c s)) = native_end s" "native_end (snd (tc_Send p c s)) = native_end s"
  "native_end (snd (tc_Finish st m s)) = native_end s" "native_end (snd (tc_ResumeReceive s)) = native_end s"
  "native_end (snd (SetOnWritable cb s)) = native_end s" "native_end (snd (SetOnCancel cb s)) = native_end s"
  "native_end (snd (SetOnTerminal cb s)) = native_end s" "native_end (snd (tc_OnWritable s)) = native_end s"
  "native_end (snd (tc_OnCancel s)) = native_end s" "native_end (snd (tc_OnTerminal r s)) = native_end s"
  "native_end (s\<lparr>s_typed := y\<rparr>) = native_end s"
  by (simp_all add: native_end_def typed_defs server_command_defs grpc_lite_server_call_destroy_def Let_def split_beta
      split: option.split)

lemma operation_end: "is_operation a \<Longrightarrow> native_end (fst (tc_step a s)) = native_end s"
  by (cases a) (simp_all add: Let_def split_beta)

lemma state_end [simp]:
  "native_end (k_core (finish_with c m k)) = native_end (k_core k)"
  "native_end (k_core (snd (cs_OnMessage False parse p (deliver_to q k)))) = native_end (k_core k)"
  "native_end (k_core (snd (TakeRequest k))) = native_end (k_core k)"
proof -
  have d: "native_end (s\<lparr>s_delivered := x\<rparr>) = native_end s" for s :: "('d, 'e) rstate" and x
    by (simp add: native_end_def)
  show "native_end (k_core (finish_with c m k)) = native_end (k_core k)"
    "native_end (k_core (snd (cs_OnMessage False parse p (deliver_to q k)))) = native_end (k_core k)"
    "native_end (k_core (snd (TakeRequest k))) = native_end (k_core k)"
    by (simp_all add: finish_with_def cs_OnMessage_def TakeRequest_def deliver_to_def d Let_def split: option.split)
qed

lemma take_end: "TakeRequest k = (r, k') \<Longrightarrow> native_end (k_core k') = native_end (k_core k)"
  using state_end(3) [of k] by simp

lemma dispatch_law_Kept:
  "dispatch_law lossy absent parse i st b e (Kept c k) \<longleftrightarrow>
     in_balance i st b e (Kept c k) \<and> (e \<longrightarrow> b) \<and> (fst (native_end (k_core k)) = None \<or> \<not> snd (native_end (k_core k))) \<and>
     (\<not> c \<longrightarrow> \<not> snd (native_end (k_core k))) \<and>
     (st = [] \<and> open_call parse k \<and> (e \<longrightarrow> lossy) \<or> st = [] \<and> rejected_call parse e k \<or>
      e \<and> dispatched_call absent parse i st k)"
  by (auto simp: dispatch_law_def native_end_def ended_native_def)

text \<open>The two callbacks of the dispatch, case by case.\<close>

lemma message_open:
  assumes "open_call parse k" and "k' = snd (cs_OnMessage False parse p (deliver_to p k))"
  shows "open_call parse k' \<or> rejected_call parse e k'"
proof -
  have fin: "finishes (s_native (k_core (finish_with c m x))) \<subseteq> {\<lparr>s_code = c, s_message = m\<rparr>}"
    if "finishes (s_native (k_core x)) = {}" for c m and x :: "('b, 'a) CallState"
    using finish_with_finishes [of c m x] that by simp
  show ?thesis
  proof (cases "s_delivered (k_core k)")
    case Nil
    then show ?thesis using assms
      by (auto simp: open_call_def rejected_call_def cs_OnMessage_def deliver_to_def Let_def
          intro!: fin split: option.split)
  next
    case (Cons q qs)
    then show ?thesis using assms
      by (auto simp: open_call_def rejected_call_def cs_OnMessage_def deliver_to_def verdict_Inr Let_def
          intro!: fin split: option.split)
  qed
qed

lemma message_rejected:
  assumes "rejected_call parse False k"
  shows "rejected_call parse False (snd (cs_OnMessage False parse p (deliver_to p k)))"
  using assms verdict_append [of parse "s_delivered (k_core k)" _ "[p]"]
  by (auto simp: rejected_call_def cs_OnMessage_def deliver_to_def Let_def)

lemma take_open:
  assumes "open_call parse k" and "TakeRequest k = (request, k')"
  shows "request = None \<Longrightarrow> rejected_call parse True k'"
    and "request = Some r \<Longrightarrow> k' = k\<lparr>k_dispatched := True\<rparr> \<and> verdict parse (s_delivered (k_core k)) = Inr r"
proof -
  have "finishes (s_native (k_core (finish_with SC_InvalidArgument ''request message is missing'' (k\<lparr>k_rejected := True\<rparr>)))) \<subseteq>
      {\<lparr>s_code = SC_InvalidArgument, s_message = ''request message is missing''\<rparr>}"
    using assms(1) finish_with_finishes [of SC_InvalidArgument "''request message is missing''" "k\<lparr>k_rejected := True\<rparr>"]
    by (simp add: open_call_def Let_def)
  then show "request = None \<Longrightarrow> rejected_call parse True k'"
    using assms by (auto simp: open_call_def rejected_call_def TakeRequest_def Let_def split: if_splits)
  show "request = Some r \<Longrightarrow> k' = k\<lparr>k_dispatched := True\<rparr> \<and> verdict parse (s_delivered (k_core k)) = Inr r"
    using assms by (auto simp: open_call_def TakeRequest_def Let_def split: if_splits)
qed

lemma remote_end_open:
  assumes "open_call parse k" and "remote_ended i False handler k = (k', st')" and "handler \<or> absent"
  shows "st' = [] \<and> rejected_call parse True k' \<or> dispatched_call absent parse i st' k'"
proof -
  obtain request j where t: "TakeRequest k = (request, j)" by fastforce
  show ?thesis
  proof (cases request)
    case None
    then show ?thesis using assms(2) t take_open(1) [OF assms(1) t] by (simp add: remote_ended_def)
  next
    case (Some r)
    have "finishes (s_native (k_core (finish_with SC_Unavailable ''event service is unavailable'' j))) \<subseteq> {unavailable}"
      using assms(1) take_open(2) [OF assms(1) t Some] finish_with_finishes [of SC_Unavailable "''event service is unavailable''" j]
      by (simp add: open_call_def unavailable_def Let_def)
    then show ?thesis using assms t Some take_open(2) [OF assms(1) t Some]
      by (auto simp: remote_ended_def dispatched_call_def open_call_def Let_def split: if_splits)
  qed
qed

lemma remote_end_rejected:
  "rejected_call parse False k \<Longrightarrow> remote_ended i False handler k = (k', st') \<Longrightarrow> st' = [] \<and> rejected_call parse True k'"
  by (auto simp: remote_ended_def TakeRequest_def rejected_call_def Let_def)

text \<open>What the dispatch of a call depends on.\<close>

definition dispatch_view ::
  "('cb, 'req) CallState \<Rightarrow> string list \<times> Status set \<times> bool \<times> bool \<times> nat \<times> 'req option \<times> ServerContext" where
  "dispatch_view k = (s_delivered (k_core k), finishes (s_native (k_core k)), k_rejected k, k_dispatched k,
     k_request_count k, k_request k, k_context k)"

lemma dispatch_cong:
  assumes "dispatch_view k' = dispatch_view k"
  shows "open_call parse k' = open_call parse k" "rejected_call parse e k' = rejected_call parse e k"
    "dispatched_call absent parse i st k' = dispatched_call absent parse i st k"
  using assms by (simp_all add: dispatch_view_def open_call_def rejected_call_def dispatched_call_def Let_def)

lemma dispatch_view_native:
  "n_log n = n_log (s_native (k_core k)) \<Longrightarrow> dispatch_view (k\<lparr>k_core := (k_core k)\<lparr>s_native := n\<rparr>\<rparr>) = dispatch_view k"
  by (simp add: dispatch_view_def finishes_def)

lemma callback_view:
  "dispatch_view (k\<lparr>k_core := snd (tc_OnWritable s)\<rparr>) = dispatch_view (k\<lparr>k_core := s\<rparr>)"
  "dispatch_view (k\<lparr>k_core := snd (tc_OnCancel s)\<rparr>) = dispatch_view (k\<lparr>k_core := s\<rparr>)"
  "dispatch_view (k\<lparr>k_core := snd (tc_OnTerminal r s)\<rparr>) = dispatch_view (k\<lparr>k_core := s\<rparr>)"
  "dispatch_view (k\<lparr>k_core := take_request s\<rparr>) = dispatch_view (k\<lparr>k_core := s\<rparr>)"
  by (simp_all add: dispatch_view_def finishes_def typed_defs take_request_def Let_def)

lemma dispatch_law_same:
  assumes "dispatch_law lossy absent parse i st b e (Kept c k)" and "in_balance i st b e (Kept c k')"
    and "native_end (k_core k') = native_end (k_core k)" and "dispatch_view k' = dispatch_view k"
  shows "dispatch_law lossy absent parse i st b e (Kept c k')"
  using assms(1-3) by (simp add: dispatch_law_Kept dispatch_cong [OF assms(4)])

lemma dispatch_loop:
  assumes P: "dispatch_law lossy absent parse i st b e sl" and f: "loop_effect TYPE('cb) f"
  shows "dispatch_law lossy absent parse i st b e (slot_with (f (slot_native sl)) (sl :: ('cb, 'req) slot))"
proof (cases sl)
  case (Arriving n)
  then show ?thesis using P in_balance_loop [OF _ f, of i st b e sl] loop_log [OF f] loop_ended(1) [OF f]
    by (auto simp: dispatch_law_def)
next
  case (Kept c k)
  let ?k = "k\<lparr>k_core := (k_core k)\<lparr>s_native := f (s_native (k_core k))\<rparr>\<rparr>"
  have "dispatch_view ?k = dispatch_view k" using loop_log [OF f] by (simp add: dispatch_view_native)
  note cong = dispatch_cong [OF this]
  show ?thesis
    using P Kept in_balance_loop [OF _ f, of i st b e sl] loop_ended [OF f, of "s_native (k_core k)"] cong
    by (auto simp: dispatch_law_def)
qed

lemma dispatch_use:
  assumes P: "dispatch_law lossy absent parse i st b e (Kept c k)" and st: "st \<noteq> []" and a: "is_operation a"
  shows "dispatch_law lossy absent parse i st b e (Kept c (k\<lparr>k_core := fst (tc_step a (k_core k))\<rparr>))"
proof -
  have "tstate.more (fst (tc_step a s)) = tstate.more s" for s :: "('b, 'a) rstate"
    using a by (cases a) (simp_all add: frame_simps Let_def split_beta)
  then have "s_delivered (fst (tc_step a (k_core k))) = s_delivered (k_core k)"
    by (rule stream_of_more(2))
  then show ?thesis
    using P st a handle_balance.use_step [OF _ st a, of i b e c k] operation_end [OF a, of "k_core k"]
    by (auto simp: dispatch_law_Kept dispatched_call_def)
qed

interpretation dispatch: service_law False parse lossy absent "dispatch_law lossy absent parse" for parse lossy absent
proof (unfold_locales, goal_cases)
  case 1
  then show ?case by (simp add: dispatch_law_def in_balance_def)
next
  case (2 i r)
  then show ?case using handle_balance.arrive by (simp add: dispatch_law_def startStreaming_def ended_native_def)
next
  case (3 i st b e sl f)
  then show ?case by (rule dispatch_loop)
next
  case (4 i st e n handler c k st')
  then have k: "k = CallState_new (Some (n_handles n)) c (n\<lparr>n_handles := Suc (n_handles n)\<rparr>)" and "st' = []"
    by (simp_all add: started_def)
  moreover have "open_call parse k" using 4(1) k
    by (simp add: open_call_def CallState_new_def dispatch_law_def finishes_def Let_def)
  moreover have "native_end (k_core k) = (n_terminal_due n, n_active n)"
    using k by (simp add: CallState_new_def native_end_def Let_def)
  ultimately show ?case using 4(1) handle_balance.start [OF _ _ 4(3)]
    by (auto simp: dispatch_law_def [of _ _ _ _ _ _ _ "Arriving n"] dispatch_law_Kept ended_native_def)
next
  case (5 i st e n)
  then show ?case using handle_balance.start_lost by (auto simp: dispatch_law_def)
next
  case (6 i st k payload)
  then show ?case using handle_balance.message [of i st k False parse payload]
      message_open [of parse k _ payload False, OF _ refl] message_rejected [of parse k payload]
    by (auto simp: dispatch_law_Kept)
next
  case (7 i st k handler k' st')
  have "native_end (k_core k') = native_end (k_core k)"
    using 7(3) by (auto simp: remote_ended_def dest: take_end split: prod.splits option.splits if_splits)
  then show ?case using 7(1) handle_balance.remote_end [OF _ _ 7(3)] 
      remote_end_open [of parse k, OF _ 7(3,2)] remote_end_rejected [of parse k, OF _ 7(3)]
    by (auto simp: dispatch_law_Kept)
next
  case (8 sl i st)
  then show ?case using handle_balance.remote_lost [of sl i st]
    by (cases sl) (auto simp: dispatch_law_def receiving_def as_mapped_def rejected_call_def Let_def split: bool.splits)
next
  case (9 i st e k)
  then show ?case using handle_balance.writable [of i st e k]
    by (intro dispatch_law_same [OF 9]) (simp_all add: dispatch_law_Kept callback_view)
next
  case (10 i st e k)
  then show ?case using handle_balance.cancel [of i st e k False]
    by (intro dispatch_law_same [OF 10]) (simp_all add: dispatch_law_Kept callback_view)
next
  case (11 i st e k reason s)
  let ?k = "k\<lparr>k_core := snd (tc_OnTerminal reason s)\<rparr>"
  have "dispatch_view ?k = dispatch_view k" using 11(3) by (simp add: callback_view dispatch_view_native)
  note cong = dispatch_cong [OF this]
  have "native_end s = (None, snd (native_end (k_core k)))" using 11(3) by (simp add: native_end_def)
  then have "native_end (k_core ?k) = (None, snd (native_end (k_core k)))" by simp
  then show ?case using 11 handle_balance.terminal [OF _ 11(2,3), of i st e False] cong
    by (auto simp: dispatch_law_Kept native_end_def)
next
  case (12 i st b e c k a)
  then show ?case by (rule dispatch_use)
next
  case (13 i st b e c k)
  have "native_end (take_request (k_core k)) = native_end (k_core k)" by (simp add: native_end_def take_request_def)
  with 13 show ?case using handle_balance.take_step [of i st b e c k]
    by (intro dispatch_law_same [OF 13(1)]) (auto simp: dispatch_law_Kept callback_view)
qed


text \<open>A sample history: the method is registered, a call arrives, is started, gets a message and ends.\<close>

definition history_context :: ServerContext where
  "history_context =
     \<lparr>x_request_metadata = [], x_request_compression = Identity, x_has_deadline = False, x_remaining_time_ns = 0\<rparr>"

definition echo_history :: "nat occurrence list" where
  "echo_history =
     [Z_begin True, Z_end EC_Ok, Z_arrive 0 (\<lambda>_. EC_Ok), Z_start 0 history_context,
      Z_message 0 history_context ''ab'' Identity, Z_remote_end 0 history_context]"

definition sample_call :: "(nat \<Rightarrow> ErrorCode) \<Rightarrow> (nat, string) slot" where
  "sample_call retain = the (v_calls (h_impl (svc_run False Some echo_history (history_start retain))) 0)"

lemma sample_call_facts:
  "v_calls (h_impl (svc_run False Some echo_history (history_start (\<lambda>_. EC_Ok)))) 0 = Some (sample_call (\<lambda>_. EC_Ok))"
  "case sample_call (\<lambda>_. EC_Ok) of Arriving _ \<Rightarrow> False
   | Kept c k \<Rightarrow> c \<and> s_delivered (k_core k) = [''ab''] \<and> k_context k = history_context"
  "h_ended (svc_run False Some echo_history (history_start (\<lambda>_. EC_Ok)) :: (nat, string) history) 0"
  "slot_call (sample_call (\<lambda>_. EC_Ok)) = Some 0"
proof -
  have "\<not> Option.is_none (v_calls (h_impl (svc_run False Some echo_history (history_start (\<lambda>_. EC_Ok)) :: (nat, string) history)) 0)"
    by code_simp
  then show "v_calls (h_impl (svc_run False Some echo_history (history_start (\<lambda>_. EC_Ok)))) 0 = Some (sample_call (\<lambda>_. EC_Ok))"
    by (auto simp: sample_call_def Option.is_none_def)
qed code_simp+

text \<open>
  C5. Whatever order the callbacks, the application threads and the event loop come in, a method without
  request stream starts its handler at most once per call, after the end of the requests was reported and
  with the one request the messages of the call parse to. Until then the call is finished only with the
  status its messages deserve (too large, unparsable, a second message, no message) or, for a good request, as
  unavailable. When every call could be retained and the handler was not taken away, the end of the requests
  decides the call: the handler started if and only if the messages are one good request.
\<close>

theorem service_dispatch:
  assumes "h = svc_run False parse zs (history_start retain)"
    and "v_calls (h_impl h) i = Some (Kept c k)"
  shows "(starts i (h_impl h) = [] \<or>
           h_ended h i \<and> (\<exists>r. verdict parse (s_delivered (k_core k)) = Inr r \<and> starts i (h_impl h) = [(i, k_context k, Some r)])) \<and>
         (starts i (h_impl h) = [] \<longrightarrow>
           finishes (s_native (k_core k)) \<subseteq> {case verdict parse (s_delivered (k_core k)) of Inl st \<Rightarrow> st | Inr _ \<Rightarrow> unavailable}) \<and>
         ((\<forall>n. Error_ok (retain n)) \<and> list_all calm zs \<and> h_ended h i \<longrightarrow>
           starts i (h_impl h) =
             (case verdict parse (s_delivered (k_core k)) of Inl _ \<Rightarrow> [] | Inr r \<Rightarrow> [(i, k_context k, Some r)]))"
proof -
  have "dispatch_law True True parse i (starts i (h_impl h)) (h_begun h i) (h_ended h i) (Kept c k)"
    using dispatch.history_holds [of True retain True zs parse i] assms by simp
  moreover have "dispatch_law False False parse i (starts i (h_impl h)) (h_begun h i) (h_ended h i) (Kept c k)"
    if "\<forall>n. Error_ok (retain n)" "list_all calm zs"
    using dispatch.history_holds [of False retain False zs parse i] assms that by simp
  ultimately show ?thesis
    by (auto simp: dispatch_law_Kept open_call_def rejected_call_def dispatched_call_def Let_def)
qed

theorem service_dispatch_witness:
  "let h = svc_run False Some echo_history (history_start (\<lambda>_. EC_Ok))
   in starts 0 (h_impl h) = [(0, history_context, Some ''ab'')]"
proof -
  obtain c k where k: "sample_call (\<lambda>_. EC_Ok) = Kept c k" "s_delivered (k_core k) = [''ab'']" "k_context k = history_context"
    using sample_call_facts(2) by (auto split: slot.splits)
  have "list_all calm echo_history" by code_simp
  then show ?thesis
    using service_dispatch [OF refl sample_call_facts(1) [unfolded k(1)]] sample_call_facts(3) k
    by (simp add: INT_MAX_def Error_ok_def)
qed

text \<open>
  C27. In every history of a registered method, with or without request stream, the handles its callbacks took on a call are balanced: none was
  given back twice; a call in the map holds one and gave the others back, and a call that is not, or not any more, gave back all.
\<close>

theorem service_handles_balanced:
  assumes "v_calls (h_impl (svc_run streaming parse zs (history_start retain))) i = Some sl"
  shows "distinct (n_released (slot_native sl)) \<and>
    (case sl of
       Kept True k \<Rightarrow> \<exists>c. y_call (s_typed (k_core k)) = Some c \<and> c \<notin> set (n_released (slot_native sl)) \<and>
         insert c (set (n_released (slot_native sl))) = {..<n_handles (slot_native sl)}
     | _ \<Rightarrow> set (n_released (slot_native sl)) = {..<n_handles (slot_native sl)})"
  using handle_balance.history_holds [of retain zs streaming parse i, OF _ _ assms]
  by (auto simp: in_balance_Kept in_balance_Arriving balanced_def native_ident_def core_ident_def
      split: slot.split bool.split)

theorem service_handles_balanced_witness:
  "distinct (n_released (slot_native (sample_call (\<lambda>_. EC_Ok)))) \<and> 0 \<notin> set (n_released (slot_native (sample_call (\<lambda>_. EC_Ok))))"
  using service_handles_balanced [OF sample_call_facts(1)] sample_call_facts(2,4)
  by (auto simp: slot_call_def split: slot.splits bool.splits)



text \<open>
  A call that could not be retained at its start is never answered: its object does not exist, its
  messages are not looked at, and its first message pauses the reception.
\<close>

theorem unretained_call_unanswered:
  "case sample_call (\<lambda>n. if n = 0 then EC_OutOfMemory else EC_Ok) of
     Arriving n \<Rightarrow> n_active n \<and> n_paused n \<and> n_log n = [] | Kept _ _ \<Rightarrow> False"
  by code_simp

text \<open>
  When the lookup of a call cannot retain it, its message is lost and the reception paused for good, and the call
  is neither dispatched nor answered.
\<close>

theorem lost_message_pauses:
  "case sample_call (\<lambda>n. if n = 1 then EC_OutOfMemory else EC_Ok) of
     Arriving _ \<Rightarrow> False
   | Kept c k \<Rightarrow> c \<and> n_active (s_native (k_core k)) \<and> n_paused (s_native (k_core k)) \<and> s_delivered (k_core k) = [] \<and>
       \<not> k_dispatched k \<and> n_log (s_native (k_core k)) = []"
  by code_simp

end
