(* ===== verification/Bounded_Executor.thy ===== *)
theory Bounded_Executor
  imports Server_Call "HOL-Library.Sublist"
begin

section \<open>The bounded executor\<close>

text \<open>
  The executor of \<^verbatim>\<open>examples/cpp_bounded_executor/main.cc\<close>, which shows how calls of the event loop are
  handed to a worker thread: \<^verbatim>\<open>BoundedExecutor\<close> with its one worker and one slot, \<^verbatim>\<open>WorkGate\<close>, which stands
  for the work, and the \<^verbatim>\<open>on_remote_end\<close> callback, which submits a call or rejects it. The worker, the
  callbacks of all calls, the event loop and the main thread take steps in any order; a step is a critical
  section or one command to a native call. The client of the example and the scenario of its \<^verbatim>\<open>main\<close> are not
  modelled.
\<close>

subsection \<open>Answers\<close>

text \<open>
  Both the worker and the callback answer a call with a chain of commands,
  \<^verbatim>\<open>if (!A.ok() || !B.ok()) call.Abort()\<close>: the commands that are left to say.
\<close>

datatype reply = R_initial | R_message string | R_status Status

fun say :: "reply \<Rightarrow> ServerCall \<Rightarrow> native \<Rightarrow> ErrorCode \<times> native" where
  "say R_initial c n = ServerCall_SendInitialMetadata None Identity c n"
| "say (R_message p) c n = ServerCall_Send p Identity c n"
| "say (R_status st) c n = ServerCall_Finish st None c n"

definition kResponse :: string where
  "kResponse = [CHR 0x0A, CHR 0x02] @ ''ok''"

definition worker_answer :: "reply list" where
  "worker_answer = [R_initial, R_message kResponse, R_status Status_default]"

definition rejection :: "reply list" where
  "rejection = [R_initial, R_status \<lparr>s_code = SC_ResourceExhausted, s_message = ''executor full''\<rparr>]"

subsection \<open>The state\<close>

text \<open>
  A \<^verbatim>\<open>ServerCall\<close> variable owns a handle of one of the native calls, or nothing. The local \<^verbatim>\<open>call\<close> of
  \<^verbatim>\<open>Run\<close> is \<open>b_call\<close>; that of a callback is part of where the callback is.
\<close>

type_synonym owned = "(nat \<times> nat) option"

datatype worker =
    W_none | W_new | W_wait | W_enter | W_hold | W_cancelled | W_terminal
  | W_answer "reply list" | W_abort | W_release | W_relock | W_exit

datatype callback =
  C_idle | C_submit nat | C_answer nat "reply list" | C_abort nat | C_leave "nat option" | C_over

record bx =
  b_natives :: "nat \<Rightarrow> native option"
  b_callbacks :: "nat \<Rightarrow> callback"
  b_slot :: owned
  b_busy :: bool
  b_closed :: bool
  b_started :: bool
  b_worker :: worker
  b_call :: owned
  b_entered :: bool
  b_released :: bool
  b_exited :: bool
  b_accepted :: "nat list"

definition bx_new :: bx where
  "bx_new =
     \<lparr>b_natives = (\<lambda>_. None), b_callbacks = (\<lambda>_. C_idle), b_slot = None, b_busy = False, b_closed = False,
      b_started = False, b_worker = W_none, b_call = None, b_entered = False, b_released = False,
      b_exited = False, b_accepted = []\<rparr>"

definition at_call :: "nat \<Rightarrow> (native \<Rightarrow> native) \<Rightarrow> bx \<Rightarrow> bx" where
  "at_call i f s = (case b_natives s i of None \<Rightarrow> s | Some n \<Rightarrow> s\<lparr>b_natives := (b_natives s)(i \<mapsto> f n)\<rparr>)"

definition destroy_owned :: "owned \<Rightarrow> bx \<Rightarrow> bx" where
  "destroy_owned c s = (case c of None \<Rightarrow> s | Some (i, h) \<Rightarrow> at_call i (grpc_lite_server_call_destroy (Some h)) s)"

definition owned_is :: "(ServerCall \<Rightarrow> native \<Rightarrow> bool) \<Rightarrow> owned \<Rightarrow> bx \<Rightarrow> bool" where
  "owned_is p c s =
     (case c of None \<Rightarrow> False | Some (i, h) \<Rightarrow>
        (case b_natives s i of None \<Rightarrow> False | Some n \<Rightarrow> p (Some h) n))"

text \<open>A command on a variable: whether it was accepted.\<close>

definition say_owned :: "reply \<Rightarrow> owned \<Rightarrow> bx \<Rightarrow> bool \<times> bx" where
  "say_owned r c s =
     (case c of None \<Rightarrow> (False, s) | Some (i, h) \<Rightarrow>
        (case b_natives s i of None \<Rightarrow> (False, s) | Some n \<Rightarrow>
           (Error_ok (fst (say r (Some h) n)), at_call i (\<lambda>n. snd (say r (Some h) n)) s)))"

definition abort_owned :: "owned \<Rightarrow> bx \<Rightarrow> bx" where
  "abort_owned c s = (case c of None \<Rightarrow> s | Some (i, h) \<Rightarrow> at_call i (ServerCall_Abort (Some h)) s)"

subsection \<open>The executor\<close>

text \<open>
  \<open>owns_lock\<close> is whether \<^verbatim>\<open>std::try_to_lock\<close> got the mutex. \<open>b_accepted\<close> records the calls that were
  accepted.
\<close>

definition TrySubmit :: "bool \<Rightarrow> owned \<Rightarrow> bx \<Rightarrow> bool \<times> owned \<times> bx" where
  "TrySubmit owns_lock call s =
     (if \<not> owns_lock \<or> b_closed s \<or> b_busy s then (False, call, s)
      else (True, None,
        (destroy_owned (b_slot s) s)\<lparr>b_slot := call, b_busy := True,
          b_accepted := b_accepted s @ (case call of None \<Rightarrow> [] | Some (i, _) \<Rightarrow> [i])\<rparr>))"

definition bx_Close :: "bx \<Rightarrow> bx" where
  "bx_Close s = s\<lparr>b_closed := True\<rparr>"

definition bx_Start :: "bx \<Rightarrow> bx" where
  "bx_Start s = (if b_worker s = W_none then s\<lparr>b_worker := W_new\<rparr> else s)"

text \<open>\<^verbatim>\<open>Join\<close> closes the executor and then waits for the worker, if there is one.\<close>

definition joined :: "bx \<Rightarrow> bool" where
  "joined s \<longleftrightarrow> b_worker s = W_none \<or> b_worker s = W_exit"

text \<open>\<^verbatim>\<open>WorkGate::Run\<close> up to its wait, the condition of the wait, and \<^verbatim>\<open>Release\<close>.\<close>

definition gate_enter :: "bx \<Rightarrow> bx" where
  "gate_enter s = s\<lparr>b_entered := True\<rparr>"

definition gate_Release :: "bx \<Rightarrow> bx" where
  "gate_Release s = s\<lparr>b_released := True\<rparr>"

text \<open>
  \<^verbatim>\<open>Run\<close>, from one critical section or command to the next. \<open>throws\<close>: the step ends in the
  \<^verbatim>\<open>catch\<close> clause. A condition that does not hold leaves the worker waiting.
\<close>

definition worker_step :: "bool \<Rightarrow> bx \<Rightarrow> bx" where
  "worker_step throws s =
     (case b_worker s of
        W_new \<Rightarrow> s\<lparr>b_started := True, b_worker := W_wait\<rparr>
      | W_wait \<Rightarrow>
          if b_closed s \<or> b_busy s
          then if \<not> b_busy s then s\<lparr>b_worker := W_exit\<rparr>
               else s\<lparr>b_call := b_slot s, b_slot := None, b_worker := W_enter\<rparr>
          else s
      | W_enter \<Rightarrow> if throws then s\<lparr>b_worker := W_abort\<rparr> else (gate_enter s)\<lparr>b_worker := W_hold\<rparr>
      | W_hold \<Rightarrow>
          if throws then s\<lparr>b_worker := W_abort\<rparr>
          else if b_released s then s\<lparr>b_worker := W_cancelled\<rparr> else s
      | W_cancelled \<Rightarrow> s\<lparr>b_worker := (if owned_is ServerCall_cancelled (b_call s) s then W_release else W_terminal)\<rparr>
      | W_terminal \<Rightarrow>
          s\<lparr>b_worker := (if owned_is ServerCall_terminal (b_call s) s then W_release else W_answer worker_answer)\<rparr>
      | W_answer [] \<Rightarrow> s\<lparr>b_worker := W_release\<rparr>
      | W_answer (r # rs) \<Rightarrow>
          if throws then s\<lparr>b_worker := W_abort\<rparr>
          else let (ok, s1) = say_owned r (b_call s) s in s1\<lparr>b_worker := (if ok then W_answer rs else W_abort)\<rparr>
      | W_abort \<Rightarrow> (abort_owned (b_call s) s)\<lparr>b_worker := W_release\<rparr>
      | W_release \<Rightarrow> (destroy_owned (b_call s) s)\<lparr>b_call := None, b_worker := W_relock\<rparr>
      | W_relock \<Rightarrow> s\<lparr>b_busy := False, b_worker := W_wait\<rparr>
      | _ \<Rightarrow> s)"

subsection \<open>The callback\<close>

definition set_callback :: "nat \<Rightarrow> callback \<Rightarrow> bx \<Rightarrow> bx" where
  "set_callback i c s = s\<lparr>b_callbacks := (b_callbacks s)(i := c)\<rparr>"

text \<open>\<^verbatim>\<open>Require(stream.Retain(&call).ok(), ...)\<close> ends the process on an error.\<close>

definition on_remote_end :: "nat \<Rightarrow> ErrorCode \<Rightarrow> bx \<Rightarrow> bx" where
  "on_remote_end i reply s =
     (case b_natives s i of None \<Rightarrow> s
      | Some n \<Rightarrow>
          if b_callbacks s i \<noteq> C_idle then s
          else case ServerStream_Retain reply (Some None) n of
            (e, Some (Some h), n') \<Rightarrow> set_callback i (C_submit h) (at_call i (\<lambda>_. n') s)
          | _ \<Rightarrow> s\<lparr>b_exited := True\<rparr>)"

definition callback_step :: "nat \<Rightarrow> bool \<Rightarrow> bool \<Rightarrow> bx \<Rightarrow> bx" where
  "callback_step i owns_lock throws s =
     (case b_callbacks s i of
        C_submit h \<Rightarrow>
          (case TrySubmit owns_lock (Some (i, h)) s of
             (submitted, call, s1) \<Rightarrow> set_callback i (if submitted then C_leave (map_option snd call) else C_answer h rejection) s1)
      | C_answer h [] \<Rightarrow> set_callback i (C_leave (Some h)) s
      | C_answer h (r # rs) \<Rightarrow>
          if throws then set_callback i (C_abort h) s
          else let (ok, s1) = say_owned r (Some (i, h)) s in set_callback i (if ok then C_answer h rs else C_abort h) s1
      | C_abort h \<Rightarrow> set_callback i (C_leave (Some h)) (abort_owned (Some (i, h)) s)
      | C_leave c \<Rightarrow> set_callback i C_over (destroy_owned (map_option (Pair i) c) s)
      | _ \<Rightarrow> s)"

subsection \<open>Runs\<close>

datatype loop_event = L_space | L_cancel | L_fail | L_retire ServerTerminalReason

fun loop_step :: "loop_event \<Rightarrow> native \<Rightarrow> native" where
  "loop_step L_space n = releaseOutboundReservation n"
| "loop_step L_cancel n = cancelStreaming n"
| "loop_step L_fail n = failStreaming n"
| "loop_step (L_retire r) n = retireStream r n"

datatype bstep =
    B_arrive nat "nat \<Rightarrow> ErrorCode"
  | B_loop nat loop_event
  | B_remote_end nat ErrorCode
  | B_callback nat bool bool
  | B_worker bool
  | B_start
  | B_close
  | B_release

fun bx_act :: "bstep \<Rightarrow> bx \<Rightarrow> bx" where
  "bx_act (B_arrive i r) s =
     (if b_natives s i = None then s\<lparr>b_natives := (b_natives s)(i \<mapsto> startStreaming i r False True)\<rparr> else s)"
| "bx_act (B_loop i e) s = at_call i (loop_step e) s"
| "bx_act (B_remote_end i reply) s = on_remote_end i reply s"
| "bx_act (B_callback i owns_lock throws) s = callback_step i owns_lock throws s"
| "bx_act (B_worker throws) s = worker_step throws s"
| "bx_act B_start s = bx_Start s"
| "bx_act B_close s = bx_Close s"
| "bx_act B_release s = gate_Release s"

definition bx_step :: "bx \<Rightarrow> bstep \<Rightarrow> bx" where
  "bx_step s a = (if b_exited s then s else bx_act a s)"

definition bx_run :: "bstep list \<Rightarrow> bx \<Rightarrow> bx" where
  "bx_run zs s = foldl bx_step s zs"

subsection \<open>The life of a call\<close>

text \<open>
  What has been said on a call: nothing yet, a part of its answer, a part after which it is aborted, or
  all. A call that was accepted gets the worker's answer, a call that was not the rejection.
\<close>

fun cmd :: "reply \<Rightarrow> server_cmd" where
  "cmd R_initial = S_initial [] Identity"
| "cmd (R_message p) = S_send p Identity"
| "cmd (R_status st) = S_finish st []"

definition script :: "bool \<Rightarrow> reply list" where
  "script accepted = (if accepted then worker_answer else rejection)"

definition said :: "reply list \<Rightarrow> native \<Rightarrow> bool" where
  "said rs n \<longleftrightarrow> map fst (n_log n) = map cmd rs \<and> list_all (Error_ok \<circ> snd) (n_log n)"

definition answered :: "bool \<Rightarrow> native \<Rightarrow> bool" where
  "answered accepted n \<longleftrightarrow>
     said (script accepted) n \<or>
     (\<exists>l. n_log n = l @ [(S_abort, EC_Ok)] \<and> prefix (map fst l) (map cmd (script accepted))) \<or>
     accepted \<and> n_log n = [] \<and> (n_cancelled n \<or> n_terminal n)"

datatype act = Silent | Saying "reply list" | Aborting | Spoken

fun talk :: "bool \<Rightarrow> act \<Rightarrow> native \<Rightarrow> bool" where
  "talk accepted Silent n \<longleftrightarrow> n_log n = []"
| "talk accepted (Saying rs) n \<longleftrightarrow> (\<exists>ds. script accepted = ds @ rs \<and> said ds n)"
| "talk accepted Aborting n \<longleftrightarrow> prefix (map fst (n_log n)) (map cmd (script accepted))"
| "talk accepted Spoken n \<longleftrightarrow> answered accepted n"

text \<open>The handles given out on a call, but for the one that is held, were given back once.\<close>

definition settled :: "nat list \<Rightarrow> native \<Rightarrow> bool" where
  "settled hs n \<longleftrightarrow> distinct (hs @ n_released n) \<and> set (hs @ n_released n) = {..<n_handles n}"

datatype stage = Fresh | Submitting nat | Queued nat | Talking bool nat act | Gone bool

fun stage_ok :: "stage \<Rightarrow> native \<Rightarrow> bool" where
  "stage_ok Fresh n \<longleftrightarrow> n_log n = [] \<and> settled [] n"
| "stage_ok (Submitting h) n \<longleftrightarrow> n_log n = [] \<and> settled [h] n"
| "stage_ok (Queued h) n \<longleftrightarrow> n_log n = [] \<and> settled [h] n"
| "stage_ok (Talking accepted h a) n \<longleftrightarrow> talk accepted a n \<and> settled [h] n"
| "stage_ok (Gone accepted) n \<longleftrightarrow> answered accepted n \<and> settled [] n"

text \<open>Where a call is: in the slot, with the worker, or where its callback is.\<close>

fun act_of :: "worker \<Rightarrow> act" where
  "act_of (W_answer rs) = Saying rs"
| "act_of W_abort = Aborting"
| "act_of W_release = Spoken"
| "act_of _ = Silent"

fun callback_stage :: "bool \<Rightarrow> callback \<Rightarrow> stage" where
  "callback_stage accepted C_idle = Fresh"
| "callback_stage accepted (C_submit h) = Submitting h"
| "callback_stage accepted (C_answer h rs) = Talking False h (Saying rs)"
| "callback_stage accepted (C_abort h) = Talking False h Aborting"
| "callback_stage accepted (C_leave (Some h)) = Talking False h Spoken"
| "callback_stage accepted (C_leave None) = Gone accepted"
| "callback_stage accepted C_over = Gone accepted"

definition held_at :: "nat \<Rightarrow> owned \<Rightarrow> nat option" where
  "held_at i c = (case c of None \<Rightarrow> None | Some (j, h) \<Rightarrow> if j = i then Some h else None)"

definition stage :: "nat \<Rightarrow> bx \<Rightarrow> stage" where
  "stage i s =
     (case held_at i (b_slot s) of Some h \<Rightarrow> Queued h
      | None \<Rightarrow>
          (case held_at i (b_call s) of Some h \<Rightarrow> Talking True h (act_of (b_worker s))
           | None \<Rightarrow> callback_stage (i \<in> set (b_accepted s)) (b_callbacks s i)))"

definition call_ok :: "nat \<Rightarrow> bx \<Rightarrow> bool" where
  "call_ok i s \<longleftrightarrow>
     (case b_natives s i of None \<Rightarrow> stage i s = Fresh | Some n \<Rightarrow> stage_ok (stage i s) n) \<and>
     (held_at i (b_slot s) \<noteq> None \<or> held_at i (b_call s) \<noteq> None \<longrightarrow> i \<in> set (b_accepted s)) \<and>
     (i \<in> set (b_accepted s) \<longrightarrow> b_callbacks s i = C_leave None \<or> b_callbacks s i = C_over) \<and>
     (b_callbacks s i = C_leave None \<longrightarrow> i \<in> set (b_accepted s))"

text \<open>The executor has at most one call: in the slot, or with the worker.\<close>

fun carrying :: "worker \<Rightarrow> bool" where
  "carrying W_none = False"
| "carrying W_new = False"
| "carrying W_wait = False"
| "carrying W_relock = False"
| "carrying W_exit = False"
| "carrying _ = True"

definition executor_ok :: "bx \<Rightarrow> bool" where
  "executor_ok s \<longleftrightarrow>
     (b_busy s \<longleftrightarrow> b_slot s \<noteq> None \<or> b_call s \<noteq> None \<or> b_worker s = W_relock) \<and>
     (b_slot s \<noteq> None \<longrightarrow> b_call s = None \<and> b_worker s \<noteq> W_relock) \<and>
     (b_call s \<noteq> None \<longleftrightarrow> carrying (b_worker s)) \<and>
     (b_worker s = W_exit \<longrightarrow> b_closed s \<and> \<not> b_busy s)"

subsection \<open>What commands do\<close>

lemma say_effect [simp]:
  "n_log (snd (say r (Some h) n)) = n_log n @ [(cmd r, fst (say r (Some h) n))]"
  "settled hs (snd (say r (Some h) n)) = settled hs n"
  by (cases r; simp add: server_command_defs metadata_arg_def settled_def Let_def)+

lemma abort_effect [simp]:
  "n_log (ServerCall_Abort (Some h) n) = n_log n @ [(S_abort, EC_Ok)]"
  "settled hs (ServerCall_Abort (Some h) n) = settled hs n"
  by (simp_all add: ServerCall_Abort_def serverCallAbort_def settled_def Let_def)

lemma destroy_effect [simp]:
  "n_log (grpc_lite_server_call_destroy c n) = n_log n"
  "n_cancelled (grpc_lite_server_call_destroy c n) = n_cancelled n"
  "n_terminal (grpc_lite_server_call_destroy c n) = n_terminal n"
  "settled [h] n \<Longrightarrow> settled [] (grpc_lite_server_call_destroy (Some h) n)"
  by (auto simp: grpc_lite_server_call_destroy_def settled_def split: option.split)

lemma loop_step_effect [simp]:
  "n_log (loop_step e n) = n_log n" "settled hs (loop_step e n) = settled hs n"
  "n_cancelled n \<Longrightarrow> n_cancelled (loop_step e n)" "n_terminal n \<Longrightarrow> n_terminal (loop_step e n)"
  by (cases e; simp add: releaseOutboundReservation_def cancelStreaming_def failStreaming_def retireStream_def settled_def)+

lemma answered_log:
  "n_log n' = n_log n \<Longrightarrow> (n_cancelled n \<Longrightarrow> n_cancelled n') \<Longrightarrow> (n_terminal n \<Longrightarrow> n_terminal n') \<Longrightarrow>
   answered a n \<Longrightarrow> answered a n'"
  by (auto simp: answered_def said_def)

lemma answered_destroy [simp]: "answered a (grpc_lite_server_call_destroy c n) = answered a n"
  by (simp add: answered_def said_def)

lemma talk_loop: "talk a x n \<Longrightarrow> talk a x (loop_step e n)"
  by (cases x) (auto simp: said_def intro: answered_log)

lemma stage_loop: "stage_ok g n \<Longrightarrow> stage_ok g (loop_step e n)"
  by (cases g) (auto intro: talk_loop answered_log)

text \<open>The steps of an answer.\<close>

lemma talk_start: "talk a Silent n \<Longrightarrow> talk a (Saying (script a)) n"
  by (auto simp: said_def)

lemma talk_say:
  assumes "talk a (Saying (r # rs)) n"
  shows "Error_ok (fst (say r (Some h) n)) \<Longrightarrow> talk a (Saying rs) (snd (say r (Some h) n))"
    and "talk a Aborting (snd (say r (Some h) n))"
proof -
  from assms obtain ds where ds: "script a = ds @ r # rs" "said ds n" by auto
  then have "script a = (ds @ [r]) @ rs" by simp
  with ds show "talk a Aborting (snd (say r (Some h) n))"
    and "Error_ok (fst (say r (Some h) n)) \<Longrightarrow> talk a (Saying rs) (snd (say r (Some h) n))"
    by (auto simp: said_def intro!: exI [of _ "ds @ [r]"])
qed

lemma talk_throw: "talk a (Saying rs) n \<Longrightarrow> talk a Aborting n" "talk a Silent n \<Longrightarrow> talk a Aborting n"
  by (auto simp: said_def)

lemma talk_end:
  "talk a (Saying []) n \<Longrightarrow> talk a Spoken n" "talk a Aborting n \<Longrightarrow> talk a Spoken (ServerCall_Abort (Some h) n)"
  "talk True Silent n \<Longrightarrow> n_cancelled n \<or> n_terminal n \<Longrightarrow> talk True Spoken n"
  by (auto simp: answered_def)

lemma at_call_simps [simp]:
  "b_natives (at_call i f s) j = (if j = i then map_option f (b_natives s i) else b_natives s j)"
  "b_callbacks (at_call i f s) = b_callbacks s" "b_slot (at_call i f s) = b_slot s" "b_busy (at_call i f s) = b_busy s"
  "b_closed (at_call i f s) = b_closed s" "b_worker (at_call i f s) = b_worker s" "b_call (at_call i f s) = b_call s"
  "b_released (at_call i f s) = b_released s" "b_exited (at_call i f s) = b_exited s"
  "b_accepted (at_call i f s) = b_accepted s"
  by (simp_all add: at_call_def split: option.split)

lemma owned_simps [simp]:
  "destroy_owned None s = s" "destroy_owned (Some (i, h)) s = at_call i (grpc_lite_server_call_destroy (Some h)) s"
  "abort_owned None s = s" "abort_owned (Some (i, h)) s = at_call i (ServerCall_Abort (Some h)) s"
  by (simp_all add: destroy_owned_def abort_owned_def)

lemma say_owned_Some:
  "b_natives s i = Some n \<Longrightarrow>
   say_owned r (Some (i, h)) s = (Error_ok (fst (say r (Some h) n)), at_call i (\<lambda>n. snd (say r (Some h) n)) s)"
  by (simp add: say_owned_def)

lemma held_at_simps [simp]: "held_at i None = None" "held_at i (Some (j, h)) = (if j = i then Some h else None)"
  by (simp_all add: held_at_def)

lemma set_callback_simps [simp]:
  "b_natives (set_callback i c s) = b_natives s" "b_callbacks (set_callback i c s) j = (if j = i then c else b_callbacks s j)"
  "b_slot (set_callback i c s) = b_slot s" "b_busy (set_callback i c s) = b_busy s" "b_closed (set_callback i c s) = b_closed s"
  "b_worker (set_callback i c s) = b_worker s" "b_call (set_callback i c s) = b_call s"
  "b_released (set_callback i c s) = b_released s" "b_exited (set_callback i c s) = b_exited s"
  "b_accepted (set_callback i c s) = b_accepted s"
  by (simp_all add: set_callback_def)

subsection \<open>The invariant\<close>

definition sound :: "bx \<Rightarrow> bool" where
  "sound s \<longleftrightarrow> executor_ok s \<and> (\<forall>i. call_ok i s)"

lemma call_native:
  assumes "call_ok i s" and "stage i s \<noteq> Fresh"
  obtains n where "b_natives s i = Some n" and "stage_ok (stage i s) n"
  using assms by (cases "b_natives s i") (auto simp: call_ok_def)

text \<open>A call that a step does not touch.\<close>

lemma call_ok_cong:
  assumes "call_ok i s" and "b_natives s' i = b_natives s i" and "b_callbacks s' i = b_callbacks s i"
    and "held_at i (b_slot s') = held_at i (b_slot s)" and "held_at i (b_call s') = held_at i (b_call s)"
    and "held_at i (b_call s) \<noteq> None \<Longrightarrow> act_of (b_worker s') = act_of (b_worker s)"
    and "i \<in> set (b_accepted s') \<longleftrightarrow> i \<in> set (b_accepted s)"
  shows "call_ok i s'"
  using assms by (auto simp: call_ok_def stage_def split: option.splits)

text \<open>A step of the worker with its call, seen from that call.\<close>

lemma call_ok_worker:
  assumes s: "call_ok i s" and c: "b_call s = Some (i, h)" "b_slot s = None"
    and n: "\<And>n. b_natives s i = Some n \<Longrightarrow> talk True (act_of (b_worker s)) n \<Longrightarrow> settled [h] n \<Longrightarrow>
      \<exists>n'. b_natives s' i = Some n' \<and> talk True (act_of (b_worker s')) n' \<and> settled [h] n'"
    and same: "b_callbacks s' = b_callbacks s" "b_call s' = b_call s" "b_slot s' = b_slot s" "b_accepted s' = b_accepted s"
  shows "call_ok i s'"
proof -
  have g: "stage i s = Talking True h (act_of (b_worker s))" by (simp add: stage_def c)
  then obtain m where "b_natives s i = Some m" "stage_ok (stage i s) m" using s by (auto elim: call_native)
  with g n [of m] obtain n' where "b_natives s' i = Some n'" "talk True (act_of (b_worker s')) n'" "settled [h] n'" by auto
  then show ?thesis using s c by (auto simp: call_ok_def same stage_def)
qed

lemma worker_eqs:
  "b_worker s = W_none \<Longrightarrow> worker_step t s = s"
  "b_worker s = W_new \<Longrightarrow> worker_step t s = s\<lparr>b_started := True, b_worker := W_wait\<rparr>"
  "b_worker s = W_wait \<Longrightarrow> worker_step t s =
     (if b_busy s then s\<lparr>b_call := b_slot s, b_slot := None, b_worker := W_enter\<rparr>
      else if b_closed s then s\<lparr>b_worker := W_exit\<rparr> else s)"
  "b_worker s = W_enter \<Longrightarrow> worker_step t s =
     (if t then s\<lparr>b_worker := W_abort\<rparr> else s\<lparr>b_entered := True, b_worker := W_hold\<rparr>)"
  "b_worker s = W_hold \<Longrightarrow> worker_step t s =
     (if t then s\<lparr>b_worker := W_abort\<rparr> else if b_released s then s\<lparr>b_worker := W_cancelled\<rparr> else s)"
  "b_worker s = W_cancelled \<Longrightarrow> worker_step t s =
     s\<lparr>b_worker := (if owned_is ServerCall_cancelled (b_call s) s then W_release else W_terminal)\<rparr>"
  "b_worker s = W_terminal \<Longrightarrow> worker_step t s =
     s\<lparr>b_worker := (if owned_is ServerCall_terminal (b_call s) s then W_release else W_answer worker_answer)\<rparr>"
  "b_worker s = W_answer [] \<Longrightarrow> worker_step t s = s\<lparr>b_worker := W_release\<rparr>"
  "b_worker s = W_answer (r # rs) \<Longrightarrow> worker_step t s =
     (if t then s\<lparr>b_worker := W_abort\<rparr>
      else (snd (say_owned r (b_call s) s))\<lparr>b_worker := (if fst (say_owned r (b_call s) s) then W_answer rs else W_abort)\<rparr>)"
  "b_worker s = W_abort \<Longrightarrow> worker_step t s = (abort_owned (b_call s) s)\<lparr>b_worker := W_release\<rparr>"
  "b_worker s = W_release \<Longrightarrow> worker_step t s = (destroy_owned (b_call s) s)\<lparr>b_call := None, b_worker := W_relock\<rparr>"
  "b_worker s = W_relock \<Longrightarrow> worker_step t s = s\<lparr>b_busy := False, b_worker := W_wait\<rparr>"
  "b_worker s = W_exit \<Longrightarrow> worker_step t s = s"
  by (simp_all add: worker_step_def gate_enter_def split_beta)

lemma worker_cases:
  obtains "b_worker s = W_none" | "b_worker s = W_new" | "b_worker s = W_wait" | "b_worker s = W_enter" | "b_worker s = W_hold"
  | "b_worker s = W_cancelled" | "b_worker s = W_terminal" | "b_worker s = W_answer []"
  | r rs where "b_worker s = W_answer (r # rs)" | "b_worker s = W_abort" | "b_worker s = W_release"
  | "b_worker s = W_relock" | "b_worker s = W_exit"
proof (cases "b_worker s")
  case (W_answer rs)
  then show ?thesis using that(8,9) by (cases rs) blast+
qed (use that in blast)+

lemma say_owned_simps [simp]:
  "b_callbacks (snd (say_owned r c s)) = b_callbacks s" "b_slot (snd (say_owned r c s)) = b_slot s"
  "b_busy (snd (say_owned r c s)) = b_busy s" "b_closed (snd (say_owned r c s)) = b_closed s"
  "b_call (snd (say_owned r c s)) = b_call s" "b_accepted (snd (say_owned r c s)) = b_accepted s"
  "b_worker (snd (say_owned r c s)) = b_worker s" "b_released (snd (say_owned r c s)) = b_released s"
  "b_exited (snd (say_owned r c s)) = b_exited s"
  "held_at i c = None \<Longrightarrow> b_natives (snd (say_owned r c s)) i = b_natives s i"
  by (auto simp: say_owned_def split: option.split prod.split)

lemma owned_frame [simp]:
  "b_callbacks (destroy_owned c s) = b_callbacks s" "b_slot (destroy_owned c s) = b_slot s"
  "b_busy (destroy_owned c s) = b_busy s" "b_closed (destroy_owned c s) = b_closed s"
  "b_call (destroy_owned c s) = b_call s" "b_accepted (destroy_owned c s) = b_accepted s"
  "b_worker (destroy_owned c s) = b_worker s" "b_released (destroy_owned c s) = b_released s"
  "b_exited (destroy_owned c s) = b_exited s"
  "held_at i c = None \<Longrightarrow> b_natives (destroy_owned c s) i = b_natives s i"
  "b_callbacks (abort_owned c s) = b_callbacks s" "b_slot (abort_owned c s) = b_slot s"
  "b_busy (abort_owned c s) = b_busy s" "b_closed (abort_owned c s) = b_closed s"
  "b_call (abort_owned c s) = b_call s" "b_accepted (abort_owned c s) = b_accepted s"
  "b_worker (abort_owned c s) = b_worker s" "b_released (abort_owned c s) = b_released s"
  "b_exited (abort_owned c s) = b_exited s"
  "held_at i c = None \<Longrightarrow> b_natives (abort_owned c s) i = b_natives s i"
  by (auto simp: destroy_owned_def abort_owned_def split: option.split prod.split)

lemma worker_same [simp]:
  "b_callbacks (worker_step t s) = b_callbacks s" "b_accepted (worker_step t s) = b_accepted s"
  "b_closed (worker_step t s) = b_closed s" "b_released (worker_step t s) = b_released s"
  "b_exited (worker_step t s) = b_exited s"
  by (cases s rule: worker_cases; simp add: worker_eqs; fail)+

lemma worker_natives: "held_at i (b_call s) = None \<Longrightarrow> b_natives (worker_step t s) i = b_natives s i"
  by (cases s rule: worker_cases) (simp_all add: worker_eqs)

lemma worker_executor: "executor_ok s \<Longrightarrow> executor_ok (worker_step t s)"
  by (cases s rule: worker_cases) (auto simp: worker_eqs executor_ok_def)

lemma worker_idle_slot: 
  "\<not> (b_worker s = W_wait \<and> b_busy s) \<Longrightarrow> b_slot (worker_step t s) = b_slot s"
  "\<not> (b_worker s = W_wait \<and> b_busy s) \<Longrightarrow> b_worker s \<noteq> W_release \<Longrightarrow> b_call (worker_step t s) = b_call s"
  "b_worker s = W_release \<Longrightarrow> b_call (worker_step t s) = None"
  by (cases s rule: worker_cases; simp add: worker_eqs; fail)+

lemma worker_talk:
  assumes "b_natives s i = Some n" and "b_call s = Some (i, h)" and "carrying (b_worker s)" and "b_worker s \<noteq> W_release"
    and "talk True (act_of (b_worker s)) n" and "settled [h] n"
  shows "\<exists>n'. b_natives (worker_step t s) i = Some n' \<and> talk True (act_of (b_worker (worker_step t s))) n' \<and> settled [h] n'"
proof -
  have start: "talk True Silent n \<Longrightarrow> talk True (Saying worker_answer) n" using talk_start [of True n] by (simp add: script_def)
  note rules = start talk_throw talk_end talk_say
  note defs = worker_eqs owned_is_def ServerCall_cancelled_def ServerCall_terminal_def
  from assms show ?thesis
    by (cases s rule: worker_cases) (auto simp: defs say_owned_Some [OF assms(1)] rules simp del: talk.simps)
qed

lemma executor_call: "executor_ok s \<Longrightarrow> b_call s = Some c \<Longrightarrow> b_slot s = None \<and> carrying (b_worker s)"
  by (cases "b_slot s") (auto simp: executor_ok_def)

lemma worker_call_ok:
  assumes "sound s"
  shows "call_ok i (worker_step t s)"
proof -
  have e: "executor_ok s" and s: "call_ok i s" using assms by (auto simp: sound_def)
  show ?thesis
  proof (cases "held_at i (b_call s)")
    case None
    show ?thesis
    proof (cases "b_worker s = W_wait \<and> b_busy s")
      case True
      then show ?thesis using s None by (auto simp: worker_eqs call_ok_def stage_def split: option.splits)
    next
      case False
      then show ?thesis using None
        by (intro call_ok_cong [OF s]) (cases "b_worker s = W_release"; simp add: worker_idle_slot worker_natives)+
    qed
  next
    case (Some h)
    then have "b_call s = Some (i, h)" by (auto simp: held_at_def split: option.splits if_splits)
    then have c: "b_call s = Some (i, h)" "b_slot s = None" "carrying (b_worker s)" using executor_call [OF e] by auto
    show ?thesis
    proof (cases "b_worker s = W_release")
      case True
      then show ?thesis using s c by (auto simp: worker_eqs call_ok_def stage_def split: option.splits)
    next
      case False
      moreover have "b_worker s \<noteq> W_wait" using c(3) by auto
      ultimately show ?thesis using c worker_idle_slot [of s t]
        by (intro call_ok_worker [OF s c(1,2)] worker_talk) auto
    qed
  qed
qed

subsection \<open>Callbacks\<close>

lemma callback_cases:
  obtains "b_callbacks s i = C_idle" | h where "b_callbacks s i = C_submit h" | h where "b_callbacks s i = C_answer h []"
  | h r rs where "b_callbacks s i = C_answer h (r # rs)" | h where "b_callbacks s i = C_abort h"
  | c where "b_callbacks s i = C_leave c" | "b_callbacks s i = C_over"
proof (cases "b_callbacks s i")
  case (C_answer h rs)
  then show ?thesis using that(3,4) by (cases rs) blast+
qed (use that in blast)+

lemma callback_eqs:
  "b_callbacks s i = C_idle \<Longrightarrow> callback_step i l t s = s"
  "b_callbacks s i = C_submit h \<Longrightarrow> callback_step i l t s =
     (if l \<and> \<not> b_closed s \<and> \<not> b_busy s
      then set_callback i (C_leave None)
        ((destroy_owned (b_slot s) s)\<lparr>b_slot := Some (i, h), b_busy := True, b_accepted := b_accepted s @ [i]\<rparr>)
      else set_callback i (C_answer h rejection) s)"
  "b_callbacks s i = C_answer h [] \<Longrightarrow> callback_step i l t s = set_callback i (C_leave (Some h)) s"
  "b_callbacks s i = C_answer h (r # rs) \<Longrightarrow> callback_step i l t s =
     (if t then set_callback i (C_abort h) s
      else set_callback i (if fst (say_owned r (Some (i, h)) s) then C_answer h rs else C_abort h)
        (snd (say_owned r (Some (i, h)) s)))"
  "b_callbacks s i = C_abort h \<Longrightarrow> callback_step i l t s = set_callback i (C_leave (Some h)) (abort_owned (Some (i, h)) s)"
  "b_callbacks s i = C_leave c \<Longrightarrow> callback_step i l t s = set_callback i C_over (destroy_owned (map_option (Pair i) c) s)"
  "b_callbacks s i = C_over \<Longrightarrow> callback_step i l t s = s"
  by (simp_all add: callback_step_def TrySubmit_def split_beta)

text \<open>A step of the callback of call \<open>i\<close>, but for a submission, leaves the executor and the other calls alone.\<close>

definition submits :: "nat \<Rightarrow> bool \<Rightarrow> bx \<Rightarrow> bool" where
  "submits i l s \<longleftrightarrow> (\<exists>h. b_callbacks s i = C_submit h) \<and> l \<and> \<not> b_closed s \<and> \<not> b_busy s"

lemma callback_same [simp]:
  "b_call (callback_step i l t s) = b_call s" "b_worker (callback_step i l t s) = b_worker s"
  "b_closed (callback_step i l t s) = b_closed s" "b_released (callback_step i l t s) = b_released s"
  "b_exited (callback_step i l t s) = b_exited s"
  "j \<noteq> i \<Longrightarrow> b_callbacks (callback_step i l t s) j = b_callbacks s j"
  by (cases s i rule: callback_cases; simp add: callback_eqs; fail)+

lemma callback_frame:
  assumes "\<not> submits i l s"
  shows "b_slot (callback_step i l t s) = b_slot s" "b_busy (callback_step i l t s) = b_busy s"
    "b_accepted (callback_step i l t s) = b_accepted s"
    "j \<noteq> i \<Longrightarrow> b_natives (callback_step i l t s) j = b_natives s j"
  using assms by (cases s i rule: callback_cases; auto simp: callback_eqs submits_def map_option_case split: option.split; fail)+

lemma callback_talk:
  assumes n: "b_natives s i = Some n" and "stage_ok (callback_stage a (b_callbacks s i)) n" and "\<not> submits i l s"
    and "a \<longrightarrow> b_callbacks s i = C_leave None \<or> b_callbacks s i = C_over"
  shows "\<exists>n'. b_natives (callback_step i l t s) i = Some n' \<and> stage_ok (callback_stage a (b_callbacks (callback_step i l t s) i)) n'"
proof -
  have start: "talk False Silent n \<Longrightarrow> talk False (Saying rejection) n" using talk_start [of False n] by (simp add: script_def)
  have [simp]: "talk False Spoken m \<longleftrightarrow> answered False m" "n_log m = [] \<longleftrightarrow> talk False Silent m" for m by simp_all
  note rules = start talk_throw talk_end(1,2) [unfolded talk.simps(4)] talk_say
  from assms show ?thesis
    by (cases s i rule: callback_cases)
      (auto simp: callback_eqs submits_def say_owned_Some [OF n] rules map_option_case simp del: talk.simps split: option.splits)
qed

lemma submission:
  assumes "sound s" and "submits i l s"
  shows "executor_ok (callback_step i l t s)" and "call_ok j (callback_step i l t s)"
proof -
  from assms obtain h where h: "b_callbacks s i = C_submit h" "l" "\<not> b_closed s" "\<not> b_busy s" by (auto simp: submits_def)
  have e: "executor_ok s" and s: "\<And>j. call_ok j s" using assms by (auto simp: sound_def)
  have c: "b_slot s = None" "b_call s = None" using e h by (auto simp: executor_ok_def)
  then have new: "callback_step i l t s = set_callback i (C_leave None)
      (s\<lparr>b_slot := Some (i, h), b_busy := True, b_accepted := b_accepted s @ [i]\<rparr>)"
    using h by (simp add: callback_eqs)
  show "executor_ok (callback_step i l t s)" using e c h unfolding new by (auto simp: executor_ok_def)
  show "call_ok j (callback_step i l t s)" using s [of j] h c unfolding new
    by (auto simp: call_ok_def stage_def split: option.splits)
qed

lemma executor_cong:
  "b_busy s' = b_busy s \<Longrightarrow> b_slot s' = b_slot s \<Longrightarrow> b_call s' = b_call s \<Longrightarrow> b_worker s' = b_worker s \<Longrightarrow>
   b_closed s' = b_closed s \<Longrightarrow> executor_ok s' = executor_ok s"
  by (simp only: executor_ok_def)

lemma callback_leave:
  "\<not> submits i l s \<Longrightarrow> b_callbacks (callback_step i l t s) i \<noteq> C_leave None"
  "b_callbacks s i = C_leave None \<or> b_callbacks s i = C_over \<Longrightarrow>
     b_callbacks (callback_step i l t s) i = C_over \<and> b_natives (callback_step i l t s) = b_natives s"
  by (cases s i rule: callback_cases; auto simp: callback_eqs submits_def; fail)+

lemma callback_stage_Fresh [simp]: "callback_stage a c = Fresh \<longleftrightarrow> c = C_idle"
  by (cases "(a, c)" rule: callback_stage.cases) simp_all

lemma callback_own:
  assumes s: "call_ok i s" and n: "\<not> submits i l s"
  shows "call_ok i (callback_step i l t s)"
proof (cases "held_at i (b_slot s) \<noteq> None \<or> held_at i (b_call s) \<noteq> None")
  case True
  then have "b_callbacks s i = C_leave None \<or> b_callbacks s i = C_over" using s by (auto simp: call_ok_def)
  then show ?thesis using s True callback_leave(2) [of s i l t]
    by (auto simp: call_ok_def stage_def callback_frame [OF n] split: option.splits)
next
  case False
  then have g: "stage i s = callback_stage (i \<in> set (b_accepted s)) (b_callbacks s i)" by (simp add: stage_def)
  show ?thesis
  proof (cases "b_natives s i")
    case None
    then have "b_callbacks s i = C_idle"
      using s g by (simp add: call_ok_def)
    then show ?thesis using s by (simp add: callback_eqs)
  next
    case (Some m)
    then show ?thesis
      using s False g callback_talk [OF Some _ n, of "i \<in> set (b_accepted s)" t] callback_leave(1) [OF n, of t] callback_leave(2) [of s i l t]
      by (auto simp: call_ok_def stage_def callback_frame [OF n] split: option.splits)
  qed
qed

lemma callback_sound:
  assumes "sound s"
  shows "sound (callback_step i l t s)"
proof (cases "submits i l s")
  case False
  note frame = callback_frame [OF False]
  have e: "executor_ok s" and s: "\<And>j. call_ok j s" using assms by (auto simp: sound_def)
  have "call_ok j (callback_step i l t s)" for j
  proof (cases "j = i")
    case True
    then show ?thesis using callback_own [OF s False] by simp
  next
    case j: False
    then show ?thesis by (intro call_ok_cong [OF s]) (simp_all add: frame)
  qed
  moreover have "executor_ok (callback_step i l t s)" using e executor_cong [of "callback_step i l t s" s] frame by simp
  ultimately show ?thesis by (simp add: sound_def)
qed (use submission [OF assms] in \<open>simp add: sound_def\<close>)

subsection \<open>Steps\<close>

lemma sound_at:
  assumes "sound s" and "executor_ok s'" and "\<And>j. j \<noteq> i \<Longrightarrow> b_natives s' j = b_natives s j \<and> b_callbacks s' j = b_callbacks s j"
    and "b_slot s' = b_slot s" "b_call s' = b_call s" "b_worker s' = b_worker s" "b_accepted s' = b_accepted s"
    and "call_ok i s'"
  shows "sound s'"
proof -
  have "call_ok j s'" for j
    using assms by (cases "j = i") (auto simp: sound_def intro!: call_ok_cong [of j s s'])
  then show ?thesis using assms(2) by (simp add: sound_def)
qed

lemma arrive_sound: "sound s \<Longrightarrow> sound (bx_act (B_arrive i r) s)"
proof (cases "b_natives s i")
  case None
  assume s: "sound s"
  then have "call_ok i s" "executor_ok s" by (simp_all add: sound_def)
  then show ?thesis using None
    by (intro sound_at [OF s, of _ i])
      (auto simp: executor_ok_def call_ok_def stage_def startStreaming_def settled_def split: option.splits)
qed simp

lemma loop_sound: "sound s \<Longrightarrow> sound (at_call i (loop_step e) s)"
proof -
  assume s: "sound s"
  then have "call_ok i s" "executor_ok s" by (simp_all add: sound_def)
  then show ?thesis
    using executor_cong [of "at_call i (loop_step e) s" s]
    by (intro sound_at [OF s, of _ i]) (auto simp: call_ok_def stage_def stage_loop talk_loop split: option.splits)
qed

lemma retain_answer:
  "ServerStream_Retain reply (Some None) n =
     (if Error_ok reply then (EC_Ok, Some (Some (n_handles n)), n\<lparr>n_handles := Suc (n_handles n)\<rparr>) else (reply, Some None, n))"
  by (simp add: ServerStream_Retain_def new_handle_def ServerCall_assign_def grpc_lite_server_call_destroy_def)

lemma retain_settled: "settled [] n \<Longrightarrow> settled [n_handles n] (n\<lparr>n_handles := Suc (n_handles n)\<rparr>)"
  by (simp add: settled_def lessThan_Suc)

lemma remote_end_sound:
  assumes s: "sound s"
  shows "sound (on_remote_end i reply s)"
proof (cases "(\<exists>n. b_natives s i = Some n) \<and> b_callbacks s i = C_idle \<and> Error_ok reply")
  case True
  then obtain n where n: "b_natives s i = Some n" by auto
  let ?s = "set_callback i (C_submit (n_handles n)) (at_call i (\<lambda>_. n\<lparr>n_handles := Suc (n_handles n)\<rparr>) s)"
  have ok: "call_ok i s" "executor_ok s" using s by (simp_all add: sound_def)
  have "on_remote_end i reply s = ?s" using n True by (simp add: on_remote_end_def retain_answer)
  moreover have "call_ok i ?s" using ok(1) n True
    by (auto simp: call_ok_def stage_def retain_settled split: option.splits)
  then have "sound ?s" using ok(2) executor_cong [of ?s s] by (intro sound_at [OF s, of _ i]) simp_all
  ultimately show ?thesis by simp
next
  case False
  have "call_ok j (s\<lparr>b_exited := True\<rparr>)" for j by (rule call_ok_cong [of j s]) (use s in \<open>simp_all add: sound_def\<close>)
  then have "sound (s\<lparr>b_exited := True\<rparr>)" using s executor_cong [of "s\<lparr>b_exited := True\<rparr>" s] by (simp add: sound_def)
  then show ?thesis using s False by (cases "b_natives s i") (simp_all add: on_remote_end_def retain_answer)
qed

lemma control_sound:
  assumes s: "sound s"
  shows "sound (bx_Start s)" "sound (bx_Close s)" "sound (gate_Release s)"
proof -
  have e: "executor_ok s" and c: "\<And>i. call_ok i s" using s by (auto simp: sound_def)
  have "call_ok i (bx_Start s)" "call_ok i (bx_Close s)" "call_ok i (gate_Release s)" for i
    by (rule call_ok_cong [OF c]; simp add: bx_Start_def bx_Close_def gate_Release_def)+
  moreover have "executor_ok (bx_Start s)" "executor_ok (bx_Close s)" "executor_ok (gate_Release s)"
    using e by (auto simp: executor_ok_def bx_Start_def bx_Close_def gate_Release_def)
  ultimately show "sound (bx_Start s)" "sound (bx_Close s)" "sound (gate_Release s)" by (simp_all add: sound_def)
qed

lemma worker_sound: "sound s \<Longrightarrow> sound (worker_step t s)"
  using worker_call_ok worker_executor by (simp add: sound_def [of "worker_step t s"]) (simp add: sound_def)

lemma step_sound: "sound s \<Longrightarrow> sound (bx_step s a)"
  using arrive_sound loop_sound remote_end_sound callback_sound control_sound worker_sound
  by (cases a) (simp_all only: bx_step_def bx_act.simps split: if_split, simp_all)

lemma run_sound: "sound (bx_run zs bx_new)"
proof -
  have "sound s \<Longrightarrow> sound (bx_run zs s)" for s
    by (induction zs arbitrary: s) (simp_all add: bx_run_def step_sound)
  moreover have "sound bx_new" by (simp add: sound_def executor_ok_def call_ok_def stage_def bx_new_def)
  ultimately show ?thesis by blast
qed

text \<open>What a stage says of the log and of the handles.\<close>

lemma settled_released: "settled hs n \<Longrightarrow> distinct (n_released n) \<and> set (n_released n) \<subseteq> {..<n_handles n}"
  by (auto simp: settled_def)

lemma stage_settled:
  assumes "call_ok i s" and "b_natives s i = Some n"
  shows "distinct (n_released n) \<and> set (n_released n) \<subseteq> {..<n_handles n}"
proof -
  have "stage_ok (stage i s) n" using assms by (simp add: call_ok_def)
  then show ?thesis by (cases "stage i s") (auto dest: settled_released)
qed

lemma talk_log:
  assumes "talk a x n"
  shows "\<exists>said aborted. map fst (n_log n) = said @ aborted \<and> aborted \<in> {[], [S_abort]} \<and> prefix said (map cmd (script a))"
proof -
  have whole: ?thesis if "prefix (map fst (n_log n)) (map cmd (script a))"
    using that by (intro exI [of _ "map fst (n_log n)"] exI [of _ "[]"]) simp
  show ?thesis
  proof (cases x)
    case Spoken
    then consider "said (script a) n" | l where "n_log n = l @ [(S_abort, EC_Ok)]" "prefix (map fst l) (map cmd (script a))"
      | "n_log n = []" using assms by (auto simp: answered_def)
    then show ?thesis by cases (use whole in \<open>auto simp: said_def\<close>)
  qed (rule whole, use assms in \<open>force simp: said_def\<close>)+
qed

lemma stage_log:
  assumes c: "call_ok i s" and n: "b_natives s i = Some n"
  shows "\<exists>said aborted. map fst (n_log n) = said @ aborted \<and> aborted \<in> {[], [S_abort]} \<and>
    prefix said (map cmd (script (i \<in> set (b_accepted s))))"
proof -
  have "\<exists>x. talk (i \<in> set (b_accepted s)) x n"
  proof (cases "held_at i (b_slot s) = None \<and> held_at i (b_call s) = None")
    case True
    then have "stage_ok (callback_stage (i \<in> set (b_accepted s)) (b_callbacks s i)) n" using c n by (simp add: call_ok_def stage_def)
    moreover have "i \<notin> set (b_accepted s) \<or> b_callbacks s i = C_leave None \<or> b_callbacks s i = C_over" using c by (auto simp: call_ok_def)
    ultimately show ?thesis
      by (cases "(i \<in> set (b_accepted s), b_callbacks s i)" rule: callback_stage.cases)
        (auto intro: exI [of _ Silent] exI [of _ Spoken] simp del: talk.simps(2,3) simp: talk.simps(1,4))
  next
    case False
    then have "i \<in> set (b_accepted s)" using c by (auto simp: call_ok_def)
    then show ?thesis using False c n
      by (auto simp: call_ok_def stage_def intro: exI [of _ Silent] simp del: talk.simps(2-4) split: option.splits)
  qed
  then show ?thesis using talk_log by blast
qed

subsection \<open>The end of the worker\<close>

text \<open>How many steps the worker of a closed executor has left, at most.\<close>

fun is_worker_step :: "bstep \<Rightarrow> bool" where
  "is_worker_step (B_worker _) = True"
| "is_worker_step _ = False"

definition steps_left :: "bx \<Rightarrow> nat" where
  "steps_left s =
     (case b_worker s of
        W_exit \<Rightarrow> 0 | W_wait \<Rightarrow> if b_busy s then 12 else 1 | W_relock \<Rightarrow> 2 | W_release \<Rightarrow> 3 | W_abort \<Rightarrow> 4
      | W_answer rs \<Rightarrow> 4 + length rs | W_terminal \<Rightarrow> 8 | W_cancelled \<Rightarrow> 9 | W_hold \<Rightarrow> 10 | W_enter \<Rightarrow> 11
      | W_new \<Rightarrow> 13 | W_none \<Rightarrow> 14)"

lemma steps_left_0: "steps_left s = 0 \<longleftrightarrow> b_worker s = W_exit"
  by (cases s rule: worker_cases) (auto simp: steps_left_def)

lemma worker_left:
  assumes "b_closed s" and "b_released s" and "b_worker s \<noteq> W_none"
  shows "steps_left (worker_step t s) \<le> steps_left s - 1"
  using assms by (cases s rule: worker_cases) (auto simp: worker_eqs steps_left_def worker_answer_def)

lemma other_left:
  assumes "b_closed s" and "b_worker s \<noteq> W_none" and "\<not> is_worker_step a"
  shows "steps_left (bx_act a s) = steps_left s"
proof -
  have "b_worker (bx_act a s) = b_worker s \<and> b_busy (bx_act a s) = b_busy s"
  proof (cases a)
    case (B_callback i l t)
    have "\<not> submits i l s" using assms(1) by (simp add: submits_def)
    then show ?thesis using B_callback callback_frame by simp
  qed (use assms in \<open>auto simp: on_remote_end_def bx_Start_def bx_Close_def gate_Release_def split: option.splits prod.splits\<close>)
  then show ?thesis by (simp add: steps_left_def)
qed

lemma worker_alive: "b_worker s \<noteq> W_none \<Longrightarrow> b_worker (worker_step t s) \<noteq> W_none"
  by (cases s rule: worker_cases) (auto simp: worker_eqs)

lemma closed_stays:
  assumes "b_closed s" and "b_released s" and "b_worker s \<noteq> W_none"
  shows "b_closed (bx_act a s) \<and> b_released (bx_act a s) \<and> b_worker (bx_act a s) \<noteq> W_none \<and> b_accepted (bx_act a s) = b_accepted s"
proof (cases a)
  case (B_callback i l t)
  have "\<not> submits i l s" using assms(1) by (simp add: submits_def)
  then show ?thesis using B_callback callback_frame assms by simp
next
  case (B_worker t)
  then show ?thesis using assms worker_alive by simp
qed (use assms in \<open>auto simp: on_remote_end_def bx_Start_def bx_Close_def gate_Release_def split: option.splits prod.splits\<close>)

lemma exited_stays: "b_exited s \<Longrightarrow> bx_run zs s = s"
  by (induction zs) (simp_all add: bx_run_def bx_step_def)

lemma run_left:
  assumes "b_closed s" and "b_released s" and "b_worker s \<noteq> W_none" and "\<not> b_exited (bx_run zs s)"
  shows "steps_left (bx_run zs s) \<le> steps_left s - length (filter is_worker_step zs) \<and> b_accepted (bx_run zs s) = b_accepted s"
  using assms
proof (induction zs arbitrary: s)
  case Nil
  then show ?case by (simp add: bx_run_def)
next
  case (Cons a zs)
  have run: "bx_run (a # zs) s = bx_run zs (bx_step s a)" by (simp add: bx_run_def)
  have "\<not> b_exited s" using Cons.prems(4) exited_stays [of s "a # zs"] by auto
  then have a: "bx_step s a = bx_act a s" by (simp add: bx_step_def)
  have "steps_left (bx_act a s) \<le> steps_left s - (if is_worker_step a then 1 else 0)"
    using worker_left [OF Cons.prems(1-3)] other_left [OF Cons.prems(1,3), of a] by (cases a) simp_all
  moreover have "steps_left (bx_run zs (bx_act a s)) \<le> steps_left (bx_act a s) - length (filter is_worker_step zs) \<and>
      b_accepted (bx_run zs (bx_act a s)) = b_accepted (bx_act a s)"
    using Cons.prems(4) run a closed_stays [OF Cons.prems(1-3), of a] by (intro Cons.IH) auto
  ultimately show ?case using closed_stays [OF Cons.prems(1-3), of a] run a by (auto split: if_splits)
qed

lemma answer_suffix: "sound s \<Longrightarrow> b_worker s = W_answer rs \<Longrightarrow> length rs \<le> 3"
proof -
  assume s: "sound s" and w: "b_worker s = W_answer rs"
  then obtain i h where c: "b_call s = Some (i, h)" by (auto simp: sound_def executor_ok_def)
  then have "b_slot s = None" using s executor_call by (auto simp: sound_def)
  then have g: "stage i s = Talking True h (Saying rs)" using c w by (simp add: stage_def)
  moreover have "call_ok i s" using s by (simp add: sound_def)
  ultimately obtain n where "stage_ok (stage i s) n" by (auto elim: call_native)
  then show ?thesis using g by (auto simp: script_def worker_answer_def dest: arg_cong [where f = length])
qed

lemma steps_left_bound: "sound s \<Longrightarrow> b_worker s \<noteq> W_none \<Longrightarrow> steps_left s \<le> 13"
  using answer_suffix [of s] by (auto simp: steps_left_def split: worker.split)

lemma gone_answered:
  assumes "call_ok i s" and "i \<in> set (b_accepted s)" and "b_slot s = None" and "b_call s = None"
  shows "\<exists>n. b_natives s i = Some n \<and> distinct (n_released n) \<and> set (n_released n) = {..<n_handles n} \<and> answered True n"
  using assms by (auto simp: call_ok_def stage_def settled_def split: option.splits)

subsection \<open>Properties\<close>

text \<open>Sample runs: one call is accepted, another rejected while the worker is busy, and the executor is closed.\<close>

definition sample_steps :: "bstep list" where
  "sample_steps =
     [B_start, B_worker False, B_arrive 0 (\<lambda>_. EC_Ok), B_arrive 1 (\<lambda>_. EC_Ok),
      B_remote_end 0 EC_Ok, B_callback 0 True False, B_worker False, B_remote_end 1 EC_Ok, B_callback 1 True False,
      B_callback 1 True False, B_callback 0 True False, B_worker False, B_callback 1 True False, B_callback 1 True False,
      B_callback 1 True False, B_close, B_release]"

text \<open>
  C29. However the worker, the callbacks, the event loop and the main thread interleave and whichever try-lock fails
  or command throws: the executor has at most one outstanding call and is busy while it has one; no handle
  is destroyed twice; a call that was accepted gets the worker's commands only, in order, and any other call those of
  the rejection; and once its callback is over and the executor does not hold it, all its handles were
  destroyed and it was answered completely, aborted, or, if it was accepted, left alone since it was
  cancelled or ended before.
\<close>

theorem bounded_executor_safe:
  assumes "s = bx_run zs bx_new"
  shows "(b_slot s = None \<or> b_call s = None) \<and> (b_slot s \<noteq> None \<or> b_call s \<noteq> None \<longrightarrow> b_busy s) \<and>
    (\<forall>i n. b_natives s i = Some n \<longrightarrow>
       distinct (n_released n) \<and> set (n_released n) \<subseteq> {..<n_handles n} \<and>
       (\<exists>said aborted. map fst (n_log n) = said @ aborted \<and> aborted \<in> {[], [S_abort]} \<and>
          prefix said (map cmd (if i \<in> set (b_accepted s) then worker_answer else rejection))) \<and>
       (b_callbacks s i = C_over \<and> held_at i (b_slot s) = None \<and> held_at i (b_call s) = None \<longrightarrow>
          set (n_released n) = {..<n_handles n} \<and> answered (i \<in> set (b_accepted s)) n))"
proof -
  have s: "sound s" using run_sound assms by simp
  have e: "executor_ok s" and c: "\<And>i. call_ok i s" using s by (simp_all add: sound_def)
  have "b_slot s = None \<or> b_call s = None" using e executor_call by (cases "b_call s") auto
  moreover have "b_slot s \<noteq> None \<or> b_call s \<noteq> None \<longrightarrow> b_busy s" using e by (auto simp: executor_ok_def)
  moreover have "distinct (n_released n) \<and> set (n_released n) \<subseteq> {..<n_handles n}" if "b_natives s i = Some n" for i n
    using stage_settled [OF c that] by blast
  moreover have "\<exists>said aborted. map fst (n_log n) = said @ aborted \<and> aborted \<in> {[], [S_abort]} \<and>
      prefix said (map cmd (if i \<in> set (b_accepted s) then worker_answer else rejection))" if "b_natives s i = Some n" for i n
    using stage_log [OF c that] by (simp add: script_def)
  moreover have "set (n_released n) = {..<n_handles n} \<and> answered (i \<in> set (b_accepted s)) n"
    if "b_natives s i = Some n" "b_callbacks s i = C_over" "held_at i (b_slot s) = None" "held_at i (b_call s) = None" for i n
    using c [of i] that by (simp add: call_ok_def stage_def settled_def)
  ultimately show ?thesis by blast
qed

theorem bounded_executor_safe_witness:
  "\<exists>n. b_natives (bx_run sample_steps bx_new) 1 = Some n \<and> set (n_released n) = {..<n_handles n} \<and> answered False n"
proof -
  define s where "s = bx_run sample_steps bx_new"
  have e: "\<not> Option.is_none (b_natives s 1)" "b_callbacks s 1 = C_over" "held_at 1 (b_slot s) = None" "held_at 1 (b_call s) = None"
    "b_accepted s = [0]"
    unfolding s_def by code_simp+
  then obtain n where n: "b_natives s 1 = Some n" by (auto simp: Option.is_none_def)
  have "set (n_released n) = {..<n_handles n} \<and> answered (1 \<in> set (b_accepted s)) n"
    using bounded_executor_safe [OF s_def, THEN conjunct2, THEN conjunct2, rule_format, OF n] e(2-4) by blast
  then show ?thesis using n e(5) unfolding s_def by simp
qed

text \<open>
  C30. Once the executor is closed and the work released, \<^verbatim>\<open>Join\<close> returns: whatever the other threads do, thirteen
  steps of the worker end it. Nothing is accepted after the close, and at the end every call that was ever
  accepted has been answered and its handles destroyed.
\<close>

theorem executor_join_returns:
  assumes "s = bx_run zs bx_new" and "b_closed s" and "b_released s" and "b_worker s \<noteq> W_none"
    and "s' = bx_run zs' s" and "13 \<le> length (filter is_worker_step zs')" and "\<not> b_exited s'"
  shows "joined s' \<and> \<not> b_busy s' \<and> b_slot s' = None \<and> b_call s' = None \<and> b_accepted s' = b_accepted s \<and>
    (\<forall>i \<in> set (b_accepted s). \<exists>n. b_natives s' i = Some n \<and> distinct (n_released n) \<and>
       set (n_released n) = {..<n_handles n} \<and> answered True n)"
proof -
  have "steps_left s' = 0" and acc: "b_accepted s' = b_accepted s"
    using run_left [OF assms(2-4), of zs'] assms(5-7) steps_left_bound [of s] run_sound assms(1,4) by auto
  then have w: "b_worker s' = W_exit" by (simp add: steps_left_0)
  have "s' = bx_run (zs @ zs') bx_new" using assms(1,5) by (simp add: bx_run_def)
  then have s: "sound s'" using run_sound by simp
  then have e: "\<not> b_busy s'" "b_slot s' = None" "b_call s' = None" using w by (auto simp: sound_def executor_ok_def)
  have "\<exists>n. b_natives s' i = Some n \<and> distinct (n_released n) \<and> set (n_released n) = {..<n_handles n} \<and> answered True n"
    if "i \<in> set (b_accepted s)" for i
    using s that e by (intro gone_answered) (auto simp: sound_def acc)
  then show ?thesis using w e acc by (simp add: joined_def)
qed

theorem executor_join_returns_witness:
  "let s = bx_run (sample_steps @ replicate 13 (B_worker False)) bx_new in joined s \<and> b_accepted s = [0]"
proof -
  have e: "b_closed (bx_run sample_steps bx_new)" "b_released (bx_run sample_steps bx_new)"
    "b_worker (bx_run sample_steps bx_new) \<noteq> W_none" "b_accepted (bx_run sample_steps bx_new) = [0]"
    "\<not> b_exited (bx_run (replicate 13 (B_worker False)) (bx_run sample_steps bx_new))"
    by code_simp+
  have "bx_run (sample_steps @ replicate 13 (B_worker False)) bx_new =
      bx_run (replicate 13 (B_worker False)) (bx_run sample_steps bx_new)" by (simp add: bx_run_def)
  then show ?thesis
    using executor_join_returns [OF refl e(1-3) refl _ e(5)] e(4) by (simp add: Let_def)
qed

end
