(* ===== verification/Spec2Isabelle.thy ===== *)
theory Spec2Isabelle
  imports Dispatch_Properties Channel_Creation Operational_Stats Service_Properties Bounded_Executor
begin

text \<open>
  \<^bold>\<open>grpc-lite: the C++ layer.\<close>

  grpc-lite is a gRPC library with an event loop written in Zig, a C interface
  (\<^verbatim>\<open>grpc_lite/grpc_lite.h\<close>), C++ classes over it (\<^verbatim>\<open>grpc_lite/cpp\<close>) and a blocking facade in the
  style of grpcpp (\<^verbatim>\<open>grpcpp\<close>). This development models the C++ classes with the parts of the C and
  Zig code whose behaviour they rely on. Paths are below \<^verbatim>\<open>src/include\<close> unless stated otherwise.

  \<^bold>\<open>How threads are modelled.\<close> The code is a set of monitors: objects with a mutex and a condition
  variable, used by application threads and by callbacks on the event loop's thread. A critical
  section is one step; a thread's own code is a function that is given a schedule, a list of
  batches of steps of the other threads. It takes a batch wherever it does not hold the mutex,
  and sleeps on a condition variable through as many batches as it takes until it is notified
  with its predicate true (\<^verbatim>\<open>Prelude\<close>: \<open>deliver\<close>, \<open>preempt\<close>, \<open>cv_wait\<close>). A result \<open>None\<close> is a
  thread that sleeps to the end of the schedule, so that returning is something to prove. The
  locales \<open>monitor\<close> and \<open>stable_monitor\<close> say what a handler of steps has to satisfy for a wait to
  lose no wake-up and to return.

  \<^bold>\<open>Client side.\<close>
  \<^item> \<^verbatim>\<open>Status_Codes\<close>: error codes, both status types and their conversions, compression, byte
    views (\<^verbatim>\<open>cpp/status.hpp\<close>, \<^verbatim>\<open>grpcpp/support/status.h\<close>, conversions of \<^verbatim>\<open>blocking_call.h\<close>,
    \<^verbatim>\<open>sync_service.hpp\<close> and \<^verbatim>\<open>typed_service.hpp\<close>). Round trip and error reporting.
  \<^item> \<^verbatim>\<open>Metadata_Store\<close>: \<^verbatim>\<open>cpp/metadata.hpp\<close> down to the Zig container with every allocation that
    may fail (the heap says which do). \<^verbatim>\<open>Add\<close> is atomic and leak-free, copies round-trip, the
    published multimap is a stable sort.
  \<^item> \<^verbatim>\<open>Client_Stream\<close>, \<^verbatim>\<open>Client_Context\<close>: \<^verbatim>\<open>cpp/client_stream.hpp\<close> over a transport with arbitrary
    answers, \<^verbatim>\<open>grpcpp/client_context.h\<close>, and the deadline arithmetic at 64 bits.
  \<^item> \<^verbatim>\<open>Blocking_Call\<close>: \<^verbatim>\<open>grpcpp/impl/blocking_call.h\<close>. \<^verbatim>\<open>Call_Invariants\<close> has its invariants, as
    interpretations of one locale of laws that every operation keeps; \<^verbatim>\<open>Call_Properties\<close> what
    they mean: the outcome of a call is fixed once, messages come in order, no lost wake-up,
    every operation returns, handles are used and destroyed properly.
  \<^item> \<^verbatim>\<open>Client_Calls\<close>: \<^verbatim>\<open>grpcpp/channel.h\<close>, \<^verbatim>\<open>client_unary_call.h\<close>, \<^verbatim>\<open>client_streaming_call.h\<close> and the
    client classes of \<^verbatim>\<open>sync_stream.h\<close>. Message serialisers are parameters.

  \<^bold>\<open>Server side.\<close>
  \<^item> \<^verbatim>\<open>Server_Call\<close>: \<^verbatim>\<open>ServerCall\<close> of \<^verbatim>\<open>cpp/server.hpp\<close> over the state of a native call, with the
    guards of \<^verbatim>\<open>src/src/server.zig\<close> and a log of the commands it got. Which commands fail for
    want of memory or buffer space is an arbitrary function of the position in the log.
  \<^item> \<^verbatim>\<open>Typed_Call\<close>: \<^verbatim>\<open>TypedCallState\<close> and \<^verbatim>\<open>FinishResponse\<close> of \<^verbatim>\<open>cpp/typed_service.hpp\<close>. The
    commands refine the response protocol, callbacks run once, writers are woken, a response is
    complete or reported.
  \<^item> \<^verbatim>\<open>Request_Stream\<close>: \<^verbatim>\<open>TypedRequestStreamState\<close>, with the flow control of the event loop: requests
    are read in order, and reads return.
  \<^item> \<^verbatim>\<open>Typed_Wrappers\<close>: the four call classes a handler gets.
  \<^item> \<^verbatim>\<open>Admission_Gate\<close>, \<^verbatim>\<open>Sync_Service\<close>, \<^verbatim>\<open>Dispatch_Properties\<close>: \<^verbatim>\<open>cpp/sync_service.hpp\<close> with
    \<^verbatim>\<open>grpcpp/server_context.h\<close> and the server classes of \<^verbatim>\<open>sync_stream.h\<close>. A handler starts at
    most once and not after its call ceased, its result reaches the wire exactly, writes go
    through once and return.
  \<^item> \<^verbatim>\<open>Typed_Service\<close>, \<^verbatim>\<open>Service_Properties\<close>: \<^verbatim>\<open>TypedMethodRegistration\<close> of \<^verbatim>\<open>cpp/typed_service.hpp\<close>, its map
    of calls, its six callbacks, the dispatch of the handler, registering and disabling. A history is any
    sequence of callbacks, uses of calls by the application, steps of the event loop and registrations
    (\<open>svc_step\<close>, \<open>svc_run\<close>). The locale \<open>service_law\<close> says what a law of one call has to satisfy to hold of
    all calls in every history; its three interpretations give that handles are balanced, that commands
    follow the response protocol, and that the handler gets exactly the request the messages amount to.
    Two theorems show calls that are never answered when the C side cannot retain them.
  \<^item> \<^verbatim>\<open>Bounded_Executor\<close>: the executor of \<^verbatim>\<open>src/examples/cpp_bounded_executor/main.cc\<close>, as steps of its worker,
    of the callbacks of all calls, of the event loop and of the main thread. Every call passes through
    stages, and a law per stage gives that calls are answered once, by one side, that at most one is
    outstanding, and that joining the worker returns.

  \<^bold>\<open>Channels, servers and their options.\<close>
  \<^item> \<^verbatim>\<open>Channel_Options\<close>: the option structures of \<^verbatim>\<open>cpp/channel.hpp\<close>, \<^verbatim>\<open>cpp/server.hpp\<close> and the C interface,
    with defaults and conversions, and \<^verbatim>\<open>grpcpp/channel_arguments.h\<close> with its arithmetic on doubles.
    \<^verbatim>\<open>Operational_Stats\<close>: the functions that copy statistics.
  \<^item> \<^verbatim>\<open>Native_Handles\<close>: \<^verbatim>\<open>Runtime\<close>, \<^verbatim>\<open>Channel\<close> and \<^verbatim>\<open>Server\<close> as owners of native objects and of the blocks
    their callbacks point to, over a world of addresses with answers of the C side that are arbitrary;
    moves, assignments, failures, and the static functions the C side calls back. The locale \<open>owner\<close> is
    what the three classes have in common. Nothing is freed twice or dangles, the classes refine a
    specification without addresses, and a method reaches the callbacks registered for it.
  \<^item> \<^verbatim>\<open>Channel_Creation\<close>: \<^verbatim>\<open>grpcpp/create_channel.h\<close>, \<^verbatim>\<open>security/credentials.h\<close>, constructor and destructor of
    \<^verbatim>\<open>grpcpp/channel.h\<close>.

  \<^bold>\<open>Bounds.\<close> No definition uses fuel. Loops that may wait are \<^verbatim>\<open>partial_function (option)\<close>; that
  they return under the stated schedules is a theorem, and so is the number of steps after which the worker
  of the executor ends. Deadlines and counters are 64-bit words.

  \<^bold>\<open>Not modelled.\<close> The HTTP/2 transport, the event loop and TLS in Zig: they are input and output, and
  appear as the steps they take on a call and as answers. The generated code, which forwards to the
  templates modelled here, and the messages' parsers, which are parameters. Tests, benchmarks, the other
  examples and vendored code. Getters that only return a member, deleted and defaulted special members.
  Virtual dispatch and shared pointers are modelled by the state they share; data races inside the
  standard library are not considered.
\<close>

end
